(* ===== verification/Prelude.thy ===== *)
theory Prelude
  imports Main "HOL-Library.Word" "HOL-Library.Monad_Syntax"
begin

text \<open>
  What every component shares: the integer types of \<open>src/util/types.rs\<close>, the arithmetic
  of a Rust build, and small facts about lists.

  A computation that may panic has type \<open>'a option\<close> and \<open>None\<close> is the panic: the
  exchange runs on one thread, so a panic ends it and no later state exists. Rust's integer
  overflow depends on the build. With overflow checks (the \<open>dev\<close> profile) it panics; without
  (the \<open>release\<close> and \<open>profiling\<close> profiles) it wraps. The build is an argument of every
  operation whose arithmetic can overflow.
\<close>

named_theorems arith_defs "the definitions of checked and wrapping arithmetic"

section \<open>Types\<close>

type_synonym u32 = "32 word"
type_synonym u64 = "64 word"
type_synonym order_id = nat
type_synonym asset_id = u32
type_synonym account_id = u32
type_synonym volume = u32

section \<open>Arithmetic of a build\<close>

datatype build = Debug | Release

definition u32_add :: "build \<Rightarrow> u32 \<Rightarrow> u32 \<Rightarrow> u32 option" where
  "u32_add b x y =
     (if unat x + unat y < 2 ^ 32 \<or> b = Release then Some (x + y) else None)"

definition u32_sub :: "build \<Rightarrow> u32 \<Rightarrow> u32 \<Rightarrow> u32 option" where
  "u32_sub b x y = (if y \<le> x \<or> b = Release then Some (x - y) else None)"

text \<open>\<open>Iterator::sum\<close> on \<open>u32\<close>: a left fold of the build's addition from 0.\<close>

fun u32_sum_from :: "build \<Rightarrow> u32 \<Rightarrow> u32 list \<Rightarrow> u32 option" where
  "u32_sum_from b acc [] = Some acc"
| "u32_sum_from b acc (x # xs) =
     (case u32_add b acc x of None \<Rightarrow> None | Some acc' \<Rightarrow> u32_sum_from b acc' xs)"

definition u32_sum :: "build \<Rightarrow> u32 list \<Rightarrow> u32 option" where
  "u32_sum b xs = u32_sum_from b 0 xs"

lemmas [arith_defs] = u32_add_def u32_sub_def u32_sum_def

lemma u32_add_exact [simp]:
  "unat x + unat y < 2 ^ 32 \<Longrightarrow> u32_add b x y = Some (x + y)"
  by (simp add: u32_add_def)

lemma u32_add_Release [simp]: "u32_add Release x y = Some (x + y)"
  by (simp add: u32_add_def)

lemma u32_sub_exact [simp]: "y \<le> x \<Longrightarrow> u32_sub b x y = Some (x - y)"
  by (simp add: u32_sub_def)

lemma u32_sub_Release [simp]: "u32_sub Release x y = Some (x - y)"
  by (simp add: u32_sub_def)

lemma unat_u32_lt: "unat (x :: u32) < 2 ^ 32"
  using unsigned_less [of x] by simp

lemma unat_add_exact:
  "unat (x :: u32) + unat y < 2 ^ 32 \<Longrightarrow> unat (x + y) = unat x + unat y"
  by (simp add: unat_word_ariths)

lemma unat_add_le: "unat ((x :: u32) + y) \<le> unat x + unat y"
  by (simp add: unat_word_ariths)

lemma unat_sub_exact: "(y :: u32) \<le> x \<Longrightarrow> unat (x - y) = unat x - unat y"
  by (rule unat_sub)

lemma u32_sub_less: "(k :: u32) \<noteq> 0 \<Longrightarrow> k \<le> v \<Longrightarrow> v - k < v"
  by (simp add: word_less_nat_alt word_le_nat_alt unat_sub_exact)
    (metis diff_less le_0_eq neq0_conv unat_eq_0)

lemma u32_pos_iff: "0 < (x :: u32) \<longleftrightarrow> x \<noteq> 0"
  by (simp add: word_neq_0_conv)

lemma u32_le_0_iff: "(x :: u32) \<le> 0 \<longleftrightarrow> x = 0"
  by simp

text \<open>Summing a list: exact when the true total fits, in either build.\<close>

lemma u32_sum_from_exact:
  "unat acc + sum_list (map unat xs) < 2 ^ 32 \<Longrightarrow>
   \<exists>r. u32_sum_from b acc xs = Some r \<and> unat r = unat acc + sum_list (map unat xs)"
proof (induction xs arbitrary: acc)
  case Nil
  then show ?case by simp
next
  case (Cons x xs)
  from Cons.prems have fits: "unat acc + unat x < 2 ^ 32" by simp
  with Cons.prems have "unat (acc + x) + sum_list (map unat xs) < 2 ^ 32"
    by (simp add: unat_add_exact)
  from Cons.IH [OF this] fits show ?case by (auto simp: unat_add_exact add.assoc)
qed

lemma u32_sum_exact:
  assumes "sum_list (map unat xs) < 2 ^ 32"
  obtains r where "u32_sum b xs = Some r" and "unat r = sum_list (map unat xs)"
  using u32_sum_from_exact [of 0 xs b] assms by (auto simp: u32_sum_def)

lemma u32_sum_from_Release:
  "\<exists>r. u32_sum_from Release acc xs = Some r"
  by (induction xs arbitrary: acc) auto

section \<open>Lists\<close>

text \<open>\<open>Vec::remove\<close> at an index that is in range.\<close>

definition remove_at :: "nat \<Rightarrow> 'a list \<Rightarrow> 'a list" where
  "remove_at i xs = take i xs @ drop (Suc i) xs"

lemma remove_at_simps [simp]:
  "remove_at 0 (x # xs) = xs"
  "remove_at (Suc i) (x # xs) = x # remove_at i xs"
  by (simp_all add: remove_at_def)

lemma set_remove_at_subset: "set (remove_at i xs) \<subseteq> set xs"
  by (auto simp: remove_at_def dest: in_set_takeD in_set_dropD)

lemma distinct_remove_at:
  "distinct (map f xs) \<Longrightarrow> distinct (map f (remove_at i xs))"
proof (induction xs arbitrary: i)
  case Nil
  then show ?case by (simp add: remove_at_def)
next
  case (Cons x xs)
  then show ?case
  proof (cases i)
    case (Suc j)
    with Cons show ?thesis using set_remove_at_subset [of j xs] by auto
  qed simp
qed

lemma sum_list_map_le:
  "x \<in> set xs \<Longrightarrow> (f x :: nat) \<le> sum_list (map f xs)"
  by (induction xs) auto

lemma takeWhile_append_not:
  "(\<And>x. x \<in> set ys \<Longrightarrow> \<not> P x) \<Longrightarrow> takeWhile P (xs @ ys) = takeWhile P xs"
  by (induction xs) (auto simp: takeWhile_eq_Nil_iff dest: hd_in_set)

section \<open>Vectors\<close>

text \<open>\<open>Vec::pop\<close>: the element it returns; what remains is \<open>butlast\<close>.\<close>

definition vec_pop :: "'a list \<Rightarrow> 'a option" where
  "vec_pop xs = (if xs = [] then None else Some (last xs))"

lemma vec_pop_single [simp]: "vec_pop [x] = Some x"
  by (simp add: vec_pop_def)

end
