(* ===== verification/Errors.thy ===== *)
theory Errors
  imports Prelude
begin

text \<open>
  The error enums of \<open>src/errors.rs\<close>. Each is \<open>repr(u8)\<close> and is serialised as its
  discriminant (\<open>Serialize_repr\<close>), so the discriminants are part of the wire protocol. Several
  enums share a constructor name; it is written with its type in front where it is ambiguous.
\<close>

type_synonym u8 = "8 word"

datatype market_creation_error =
  MarketAlreadyExists | AssetNotTraded | NoMarketHandlers | Other

datatype order_insertion_error =
  MarketDoesNotExist | AccountDoesNotExist | IllegalParameters | OrderKilled
| InadequateVolume | SelfTrade | Other

datatype order_cancellation_error =
  OrderDoesNotExist | Unauthorized | AlreadyFilled | AlreadyCancelled
| MarketDoesNotExist | NotCancellable

datatype order_modification_error =
  OrderDoesNotExist | AlreadyFilled | Unauthorized | MarketDoesNotExist
| VolumeNotLower | OrderNotFound

datatype get_orderbook_error = MarketDoesNotExist

fun market_creation_error_repr :: "market_creation_error \<Rightarrow> u8" where
  "market_creation_error_repr MarketAlreadyExists = 0"
| "market_creation_error_repr AssetNotTraded = 1"
| "market_creation_error_repr NoMarketHandlers = 2"
| "market_creation_error_repr market_creation_error.Other = 3"

fun order_insertion_error_repr :: "order_insertion_error \<Rightarrow> u8" where
  "order_insertion_error_repr order_insertion_error.MarketDoesNotExist = 0"
| "order_insertion_error_repr AccountDoesNotExist = 1"
| "order_insertion_error_repr IllegalParameters = 2"
| "order_insertion_error_repr OrderKilled = 3"
| "order_insertion_error_repr InadequateVolume = 4"
| "order_insertion_error_repr SelfTrade = 5"
| "order_insertion_error_repr order_insertion_error.Other = 6"

fun order_cancellation_error_repr :: "order_cancellation_error \<Rightarrow> u8" where
  "order_cancellation_error_repr order_cancellation_error.OrderDoesNotExist = 0"
| "order_cancellation_error_repr order_cancellation_error.Unauthorized = 1"
| "order_cancellation_error_repr order_cancellation_error.AlreadyFilled = 2"
| "order_cancellation_error_repr AlreadyCancelled = 3"
| "order_cancellation_error_repr order_cancellation_error.MarketDoesNotExist = 4"
| "order_cancellation_error_repr NotCancellable = 5"

fun order_modification_error_repr :: "order_modification_error \<Rightarrow> u8" where
  "order_modification_error_repr order_modification_error.OrderDoesNotExist = 0"
| "order_modification_error_repr order_modification_error.AlreadyFilled = 1"
| "order_modification_error_repr order_modification_error.Unauthorized = 2"
| "order_modification_error_repr order_modification_error.MarketDoesNotExist = 3"
| "order_modification_error_repr VolumeNotLower = 4"
| "order_modification_error_repr OrderNotFound = 5"

fun get_orderbook_error_repr :: "get_orderbook_error \<Rightarrow> u8" where
  "get_orderbook_error_repr get_orderbook_error.MarketDoesNotExist = 0"

text \<open>No two errors of an enum share a code, so a client reads back the error that was sent.\<close>

lemma market_creation_error_repr_inj:
  "market_creation_error_repr x = market_creation_error_repr y \<Longrightarrow> x = y"
  by (cases x; cases y) simp_all

lemma order_insertion_error_repr_inj:
  "order_insertion_error_repr x = order_insertion_error_repr y \<Longrightarrow> x = y"
  by (cases x; cases y) simp_all

lemma order_cancellation_error_repr_inj:
  "order_cancellation_error_repr x = order_cancellation_error_repr y \<Longrightarrow> x = y"
  by (cases x; cases y) simp_all

lemma order_modification_error_repr_inj:
  "order_modification_error_repr x = order_modification_error_repr y \<Longrightarrow> x = y"
  by (cases x; cases y) simp_all

section \<open>The texts\<close>

text \<open>
  \<open>Display\<close> of the errors, from their \<open>error\<close> attributes. A text tells the error of its enum, except
  that a modification of a filled order is reported as one of an order that does not exist.
\<close>

fun market_creation_error_text :: "market_creation_error \<Rightarrow> string" where
  "market_creation_error_text MarketAlreadyExists = ''Market for the given pair already exists.''"
| "market_creation_error_text AssetNotTraded =
     ''One of the specified assets is not traded on this exchange.''"
| "market_creation_error_text NoMarketHandlers =
     ''There are no market handlers to assign the market to.''"
| "market_creation_error_text market_creation_error.Other =
     ''Unknown error occurred creating a market.''"

fun order_insertion_error_text :: "order_insertion_error \<Rightarrow> string" where
  "order_insertion_error_text order_insertion_error.MarketDoesNotExist =
     ''The specified market does not exist.''"
| "order_insertion_error_text AccountDoesNotExist = ''The specified account does not exist.''"
| "order_insertion_error_text IllegalParameters =
     ''The provided order insertion parameters are illegal.''"
| "order_insertion_error_text OrderKilled =
     ''Fill-or-Kill order was killed due to a lack of liquidity.''"
| "order_insertion_error_text InadequateVolume =
     ''Market order could not be filled due to a lack of liquidity.''"
| "order_insertion_error_text SelfTrade = ''The insertion would result in a self-trade''"
| "order_insertion_error_text order_insertion_error.Other = ''Other (should never occur)''"

fun order_cancellation_error_text :: "order_cancellation_error \<Rightarrow> string" where
  "order_cancellation_error_text order_cancellation_error.OrderDoesNotExist =
     ''The specified order does not exist.''"
| "order_cancellation_error_text order_cancellation_error.Unauthorized =
     ''User was not the one who created the order.''"
| "order_cancellation_error_text order_cancellation_error.AlreadyFilled =
     ''The specified order was already filled''"
| "order_cancellation_error_text AlreadyCancelled = ''The specified order was already cancelled''"
| "order_cancellation_error_text order_cancellation_error.MarketDoesNotExist =
     ''Market that the Order is registered for (no longer) exists.''"
| "order_cancellation_error_text NotCancellable =
     ''Order cannot be cancelled (because it is not a limit order)''"

fun order_modification_error_text :: "order_modification_error \<Rightarrow> string" where
  "order_modification_error_text order_modification_error.OrderDoesNotExist =
     ''The specified order does not exist.''"
| "order_modification_error_text order_modification_error.AlreadyFilled =
     ''The specified order does not exist.''"
| "order_modification_error_text order_modification_error.Unauthorized =
     ''User was not the one who created the order.''"
| "order_modification_error_text order_modification_error.MarketDoesNotExist =
     ''Market that the Order is registered for (no longer) exists.''"
| "order_modification_error_text VolumeNotLower =
     ''Specified new volume is not lower than the original volume; needs to be lower.''"
| "order_modification_error_text OrderNotFound = ''Order could not be found in the Orderbook.''"

fun get_orderbook_error_text :: "get_orderbook_error \<Rightarrow> string" where
  "get_orderbook_error_text get_orderbook_error.MarketDoesNotExist =
     ''Market that the orderbook was requested for (no longer) exists.''"

lemma order_insertion_error_text_inj:
  "order_insertion_error_text x = order_insertion_error_text y \<Longrightarrow> x = y"
  by (cases x; cases y) simp_all

lemma order_cancellation_error_text_inj:
  "order_cancellation_error_text x = order_cancellation_error_text y \<Longrightarrow> x = y"
  by (cases x; cases y) simp_all

lemma filled_reported_as_unknown:
  "x \<noteq> y \<Longrightarrow> order_modification_error_text x = order_modification_error_text y \<longleftrightarrow>
   {x, y} = {order_modification_error.OrderDoesNotExist, order_modification_error.AlreadyFilled}"
  by (cases x; cases y) auto

end
