(* ===== verification/Orders.thy ===== *)
theory Orders
  imports Errors
begin

text \<open>
  The data of \<open>src/asset.rs\<close>, \<open>src/order.rs\<close> and the order status of \<open>src/market.rs\<close>,
  with the conversions between a request, its insertion, and the order kept for the session.

  \<open>Price\<close> and \<open>Balance\<close> are both \<open>I33F31\<close> of the crate \<open>fixed\<close>. The order
  code only compares prices and copies them, so the records here are polymorphic in the price type
  \<open>'p\<close>; its order enters with the order book, its arithmetic with the exchange (theory
  \<open>Fixed_Price\<close>).
\<close>

section \<open>Assets\<close>

record new_asset =
  na_name :: string
  na_symbol :: string

record asset =
  as_id :: asset_id
  as_name :: string
  as_symbol :: string

record asset_pair =
  ap_primary :: asset
  ap_secondary :: asset

record asset_pair_symbolic =
  ps_primary :: string
  ps_secondary :: string

record asset_id_pair =
  primary :: asset_id
  secondary :: asset_id

section \<open>Order kinds and statuses\<close>

datatype order_type = Limit | FillOrKill | Market

datatype side = Bid | Ask

datatype order_execution_status = AwaitingFill | PartialFill | Filled | Killed | Cancelled

fun order_type_repr :: "order_type \<Rightarrow> u8" where
  "order_type_repr Limit = 0"
| "order_type_repr FillOrKill = 1"
| "order_type_repr Market = 2"

fun side_repr :: "side \<Rightarrow> u8" where
  "side_repr Bid = 0"
| "side_repr Ask = 1"

fun order_execution_status_repr :: "order_execution_status \<Rightarrow> u8" where
  "order_execution_status_repr AwaitingFill = 0"
| "order_execution_status_repr PartialFill = 1"
| "order_execution_status_repr Filled = 2"
| "order_execution_status_repr Killed = 3"
| "order_execution_status_repr Cancelled = 4"

text \<open>The status' \<open>Default\<close>.\<close>

definition default_status :: order_execution_status where
  "default_status = AwaitingFill"

text \<open>The side an order trades against.\<close>

fun opposite :: "side \<Rightarrow> side" where
  "opposite Ask = Bid"
| "opposite Bid = Ask"

lemma opposite_neq [simp]: "opposite s \<noteq> s" "s \<noteq> opposite s"
  by (cases s; simp)+

lemma opposite_opposite [simp]: "opposite (opposite s) = s"
  by (cases s) simp_all

section \<open>Insertion\<close>

record 'p order_insertion_request =
  rq_account_id :: account_id
  rq_order_type :: order_type
  rq_pair :: asset_id_pair
  rq_side :: side
  rq_volume :: volume
  rq_price :: 'p

record 'p order_insertion =
  oi_id :: order_id
  oi_account_id :: account_id
  oi_order_type :: order_type
  oi_pair :: asset_id_pair
  oi_side :: side
  oi_volume :: volume
  oi_price :: 'p

definition into_insertion :: "'p order_insertion_request \<Rightarrow> order_id \<Rightarrow> 'p order_insertion" where
  "into_insertion r i =
     \<lparr>oi_id = i, oi_account_id = rq_account_id r, oi_order_type = rq_order_type r,
      oi_pair = rq_pair r, oi_side = rq_side r, oi_volume = rq_volume r, oi_price = rq_price r\<rparr>"

section \<open>Cancellation and modification\<close>

record order_cancellation_request =
  cr_account_id :: account_id
  cr_order_id :: order_id

record 'p order_cancellation =
  oc_pair :: asset_id_pair
  oc_order_id :: order_id
  oc_side :: side
  oc_price :: 'p

definition into_cancellation ::
    "order_cancellation_request \<Rightarrow> asset_id_pair \<Rightarrow> side \<Rightarrow> 'p \<Rightarrow> 'p order_cancellation" where
  "into_cancellation r pair s p =
     \<lparr>oc_pair = pair, oc_order_id = cr_order_id r, oc_side = s, oc_price = p\<rparr>"

record order_modification_request =
  mr_account_id :: account_id
  mr_order_id :: order_id
  mr_new_volume :: volume

record 'p order_modification =
  om_pair :: asset_id_pair
  om_order_id :: order_id
  om_volume_reduction :: volume
  om_side :: side
  om_price :: 'p

definition into_order_modification ::
    "build \<Rightarrow> order_modification_request \<Rightarrow> asset_id_pair \<Rightarrow> side \<Rightarrow> 'p \<Rightarrow> volume
     \<Rightarrow> 'p order_modification option" where
  "into_order_modification b r pair s p original_volume =
     (case u32_sub b original_volume (mr_new_volume r) of
        None \<Rightarrow> None
      | Some volume_reduction \<Rightarrow>
          Some \<lparr>om_pair = pair, om_order_id = mr_order_id r,
            om_volume_reduction = volume_reduction, om_side = s, om_price = p\<rparr>)"

section \<open>Placed orders\<close>

record 'p placed_order =
  po_id :: order_id
  po_account_id :: account_id
  po_pair :: asset_id_pair
  po_side :: side
  po_price :: 'p
  po_volume :: volume
  po_remaining_volume :: volume
  po_status :: order_execution_status

definition from_insertion :: "'p order_insertion \<Rightarrow> 'p placed_order" where
  "from_insertion ins =
     \<lparr>po_id = oi_id ins, po_account_id = oi_account_id ins, po_pair = oi_pair ins, po_side = oi_side ins,
      po_price = oi_price ins, po_volume = oi_volume ins, po_remaining_volume = oi_volume ins,
      po_status = default_status\<rparr>"

lemma into_insertion_simps [simp]:
  "oi_id (into_insertion r i) = i"
  "oi_account_id (into_insertion r i) = rq_account_id r"
  "oi_order_type (into_insertion r i) = rq_order_type r"
  "oi_pair (into_insertion r i) = rq_pair r"
  "oi_side (into_insertion r i) = rq_side r"
  "oi_volume (into_insertion r i) = rq_volume r"
  "oi_price (into_insertion r i) = rq_price r"
  by (simp_all add: into_insertion_def)

lemma from_insertion_simps [simp]:
  "po_id (from_insertion ins) = oi_id ins"
  "po_account_id (from_insertion ins) = oi_account_id ins"
  "po_pair (from_insertion ins) = oi_pair ins"
  "po_side (from_insertion ins) = oi_side ins"
  "po_price (from_insertion ins) = oi_price ins"
  "po_volume (from_insertion ins) = oi_volume ins"
  "po_remaining_volume (from_insertion ins) = oi_volume ins"
  "po_status (from_insertion ins) = AwaitingFill"
  by (simp_all add: from_insertion_def default_status_def)

lemma into_order_modification_le:
  "mr_new_volume r \<le> v \<Longrightarrow>
   into_order_modification b r pair s p v =
     Some \<lparr>om_pair = pair, om_order_id = mr_order_id r,
       om_volume_reduction = v - mr_new_volume r, om_side = s, om_price = p\<rparr>"
  by (simp add: into_order_modification_def)

end
