(* ===== verification/Ordered_Map.thy ===== *)
theory Ordered_Map
  imports Prelude
begin

text \<open>
  Rust's \<open>BTreeMap\<close>, as the order book uses it: an association list whose keys are strictly
  increasing. Iteration (\<open>iter\<close>, \<open>iter_mut\<close>) is the list itself, \<open>next_back\<close> reads it
  from the end. The locale \<open>ordered_map\<close> states what the order book relies on, and the lemmas
  proved in it once serve both sides of the book.
\<close>

section \<open>The interface\<close>

definition keys :: "('k \<times> 'v) list \<Rightarrow> 'k set" where
  "keys m = fst ` set m"

lemma keys_simps [simp]:
  "keys [] = {}"
  "keys ((k, v) # m) = insert k (keys m)"
  "keys (m @ m') = keys m \<union> keys m'"
  "keys (rev m) = keys m"
  by (auto simp: keys_def)

lemma keys_mem: "(k, v) \<in> set m \<Longrightarrow> k \<in> keys m"
  by (force simp: keys_def)

lemma keys_Cons: "keys (x # m) = insert (fst x) (keys m)"
  by (simp add: keys_def)

lemma keysE: "k \<in> keys m \<Longrightarrow> (\<And>v. (k, v) \<in> set m \<Longrightarrow> P) \<Longrightarrow> P"
  by (force simp: keys_def)

lemma map_of_mid:
  "k \<notin> fst ` set l \<Longrightarrow>
   map_of (l @ (k, v) # r) k' = (if k' = k then Some v else map_of (l @ r) k')"
  by (induction l) auto

locale ordered_map =
  fixes get :: "'m \<Rightarrow> 'k \<Rightarrow> 'v option"
    and put :: "'k \<Rightarrow> 'v \<Rightarrow> 'm \<Rightarrow> 'm"
    and drop_key :: "'k \<Rightarrow> 'm \<Rightarrow> 'm"
    and iter :: "'m \<Rightarrow> ('k \<times> 'v) list"
    and ok :: "'m \<Rightarrow> bool"
  assumes iter_distinct: "ok m \<Longrightarrow> distinct (map fst (iter m))"
    and get_iter: "ok m \<Longrightarrow> get m k = map_of (iter m) k"
    and put_absent: "ok m \<Longrightarrow> get m k = None \<Longrightarrow>
      \<exists>l r. iter m = l @ r \<and> iter (put k v m) = l @ (k, v) # r"
    and put_present: "ok m \<Longrightarrow> get m k = Some w \<Longrightarrow>
      \<exists>l r. iter m = l @ (k, w) # r \<and> iter (put k v m) = l @ (k, v) # r
        \<and> iter (drop_key k m) = l @ r"
    and ok_put: "ok m \<Longrightarrow> ok (put k v m)"
    and ok_drop: "ok m \<Longrightarrow> ok (drop_key k m)"
begin

lemma get_in_iff: "ok m \<Longrightarrow> get m k = Some v \<longleftrightarrow> (k, v) \<in> set (iter m)"
  by (simp add: get_iter iter_distinct)

lemma get_put:
  assumes "ok m"
  shows "get (put k v m) k' = (if k' = k then Some v else get m k')"
proof (cases "get m k")
  case None
  then obtain l r where m: "iter m = l @ r" and p: "iter (put k v m) = l @ (k, v) # r"
    using put_absent [OF assms] by blast
  from None assms have "k \<notin> fst ` set l"
    by (simp add: get_iter map_of_eq_None_iff m)
  from map_of_mid [OF this, of v r k'] show ?thesis
    by (simp only: get_iter [OF ok_put [OF assms]] get_iter [OF assms] m p)
next
  case (Some w)
  then obtain l r where m: "iter m = l @ (k, w) # r" and p: "iter (put k v m) = l @ (k, v) # r"
    using put_present [OF assms] by blast
  have "k \<notin> fst ` set l" using iter_distinct [OF assms] m by auto
  from map_of_mid [OF this, of v r k'] map_of_mid [OF this, of w r k'] show ?thesis
    by (simp only: get_iter [OF ok_put [OF assms]] get_iter [OF assms] m p split: if_split) simp
qed

lemma get_drop:
  assumes "ok m" and "get m k = Some w"
  shows "get (drop_key k m) k' = (if k' = k then None else get m k')"
proof -
  obtain l r where m: "iter m = l @ (k, w) # r" and d: "iter (drop_key k m) = l @ r"
    using put_present [OF assms] by blast
  have k: "k \<notin> fst ` set l" "k \<notin> fst ` set (l @ r)"
    using iter_distinct [OF assms(1)] m by auto
  from k(2) have "map_of (l @ r) k = None" by (simp only: map_of_eq_None_iff not_False_eq_True)
  with map_of_mid [OF k(1), of w r k'] show ?thesis
    by (simp only: get_iter [OF ok_drop [OF assms(1)]] get_iter [OF assms(1)] m d split: if_split)
      simp
qed

text \<open>A property of every entry survives a put of an entry that has it, and any removal.\<close>

lemma all_put:
  assumes "ok m" and "\<And>k v. (k, v) \<in> set (iter m) \<Longrightarrow> P k v" and "P k v"
    and "(k', v') \<in> set (iter (put k v m))"
  shows "P k' v'"
  using assms get_in_iff [OF ok_put [OF assms(1)], of k v k' v'] get_put [OF assms(1), of k v k']
  by (auto simp: get_in_iff split: if_splits)

lemma all_drop:
  assumes "ok m" and "get m k = Some w" and "\<And>k v. (k, v) \<in> set (iter m) \<Longrightarrow> P k v"
    and "(k', v') \<in> set (iter (drop_key k m))"
  shows "P k' v'"
  using put_present [OF assms(1,2)] assms(3,4) by fastforce

lemma keys_put:
  assumes "ok m"
  shows "keys (iter (put k v m)) = insert k (keys (iter m))"
proof (cases "get m k")
  case None
  with put_absent [OF assms None, of v] show ?thesis by auto
next
  case (Some w)
  then obtain l r where "iter m = l @ (k, w) # r" "iter (put k v m) = l @ (k, v) # r"
    using put_present [OF assms] by blast
  then show ?thesis by simp
qed

lemma keys_drop:
  assumes "ok m" and "get m k = Some w"
  shows "keys (iter (drop_key k m)) = keys (iter m) - {k}"
proof -
  obtain l r where m: "iter m = l @ (k, w) # r" and d: "iter (drop_key k m) = l @ r"
    using put_present [OF assms] by blast
  have "k \<notin> keys l" "k \<notin> keys r"
    using iter_distinct [OF assms(1)] m by (auto simp: keys_def)
  with m d show ?thesis by auto
qed

end

section \<open>Sorted association lists\<close>

definition sorted_keys :: "('k::linorder \<times> 'v) list \<Rightarrow> bool" where
  "sorted_keys m = sorted_wrt (<) (map fst m)"

fun bt_get :: "('k::linorder \<times> 'v) list \<Rightarrow> 'k \<Rightarrow> 'v option" where
  "bt_get [] k = None"
| "bt_get ((a, w) # m) k = (if a = k then Some w else bt_get m k)"

fun bt_insert :: "'k::linorder \<Rightarrow> 'v \<Rightarrow> ('k \<times> 'v) list \<Rightarrow> ('k \<times> 'v) list" where
  "bt_insert k v [] = [(k, v)]"
| "bt_insert k v ((a, w) # m) =
     (if a < k then (a, w) # bt_insert k v m
      else if a = k then (k, v) # m
      else (k, v) # (a, w) # m)"

fun bt_remove :: "'k::linorder \<Rightarrow> ('k \<times> 'v) list \<Rightarrow> ('k \<times> 'v) list" where
  "bt_remove k [] = []"
| "bt_remove k ((a, w) # m) = (if a = k then m else (a, w) # bt_remove k m)"

definition pop_first :: "('k \<times> 'v) list \<Rightarrow> ('k \<times> 'v) list" where
  "pop_first m = (case m of [] \<Rightarrow> [] | _ # rest \<Rightarrow> rest)"

definition pop_last :: "('k \<times> 'v) list \<Rightarrow> ('k \<times> 'v) list" where
  "pop_last m = rev (pop_first (rev m))"

definition first_key_value :: "('k \<times> 'v) list \<Rightarrow> ('k \<times> 'v) option" where
  "first_key_value m = (case m of [] \<Rightarrow> None | x # _ \<Rightarrow> Some x)"

definition last_key_value :: "('k \<times> 'v) list \<Rightarrow> ('k \<times> 'v) option" where
  "last_key_value m = first_key_value (rev m)"

lemma sorted_keys_Nil [simp]: "sorted_keys []"
  by (simp add: sorted_keys_def)

lemma sorted_keys_Cons [simp]:
  "sorted_keys ((a, w) # m) \<longleftrightarrow> (\<forall>b \<in> keys m. a < b) \<and> sorted_keys m"
  by (simp add: sorted_keys_def keys_def)

lemma sorted_keys_append:
  "sorted_keys (l @ r) \<longleftrightarrow>
   sorted_keys l \<and> sorted_keys r \<and> (\<forall>a \<in> keys l. \<forall>b \<in> keys r. a < b)"
  by (auto simp: sorted_keys_def keys_def sorted_wrt_append)

lemma sorted_keys_distinct: "sorted_keys m \<Longrightarrow> distinct (map fst m)"
  by (induction m) (auto simp: sorted_keys_def)

lemma bt_get_map_of: "bt_get m k = map_of m k"
  by (induction m) auto

lemma keys_bt_insert [simp]: "keys (bt_insert k v m) = insert k (keys m)"
  by (induction k v m rule: bt_insert.induct) auto

lemma set_bt_remove_subset: "set (bt_remove k m) \<subseteq> set m"
  by (induction k m rule: bt_remove.induct) auto

lemma sorted_bt_insert: "sorted_keys m \<Longrightarrow> sorted_keys (bt_insert k v m)"
proof (induction m)
  case (Cons x m)
  obtain a w where x: "x = (a, w)" by (cases x)
  from Cons.prems x have m: "sorted_keys m" "\<forall>b \<in> keys m. a < b" by simp_all
  consider "a < k" | "a = k" | "k < a" by fastforce
  then show ?case
  proof cases
    case 1
    with Cons.IH m x show ?thesis by simp
  next
    case 2
    with m x show ?thesis by simp
  next
    case 3
    with m x show ?thesis by (auto dest: less_trans)
  qed
qed simp

lemma sorted_bt_remove: "sorted_keys m \<Longrightarrow> sorted_keys (bt_remove k m)"
proof (induction k m rule: bt_remove.induct)
  case (2 k a w m)
  then show ?case using set_bt_remove_subset [of k m] by (auto simp: keys_def)
qed simp

lemma bt_insert_absent:
  "sorted_keys m \<Longrightarrow> bt_get m k = None \<Longrightarrow>
   \<exists>l r. m = l @ r \<and> bt_insert k v m = l @ (k, v) # r"
proof (induction m)
  case Nil
  then show ?case by simp
next
  case (Cons x m)
  obtain a w where x: "x = (a, w)" by (cases x)
  show ?case
  proof (cases "a < k")
    case True
    with Cons x obtain l r where "m = l @ r" "bt_insert k v m = l @ (k, v) # r"
      by (auto split: if_splits)
    with True x have "x # m = (x # l) @ r" "bt_insert k v (x # m) = (x # l) @ (k, v) # r"
      by auto
    then show ?thesis by blast
  next
    case False
    with Cons.prems(2) x have "x # m = [] @ x # m \<and> bt_insert k v (x # m) = [] @ (k, v) # x # m"
      by (auto split: if_splits)
    then show ?thesis by blast
  qed
qed

lemma bt_insert_present:
  "sorted_keys m \<Longrightarrow> bt_get m k = Some w \<Longrightarrow>
   \<exists>l r. m = l @ (k, w) # r \<and> bt_insert k v m = l @ (k, v) # r \<and> bt_remove k m = l @ r"
proof (induction m)
  case Nil
  then show ?case by simp
next
  case (Cons x m)
  obtain a u where x: "x = (a, u)" by (cases x)
  show ?case
  proof (cases "a = k")
    case True
    with Cons.prems x have "x # m = [] @ (k, w) # m \<and> bt_insert k v (x # m) = [] @ (k, v) # m
        \<and> bt_remove k (x # m) = [] @ m"
      by auto
    then show ?thesis by blast
  next
    case False
    with Cons.prems x have g: "bt_get m k = Some w" by simp
    then have "(k, w) \<in> set m" by (simp add: bt_get_map_of map_of_SomeD)
    with Cons.prems x have lt: "a < k" by (auto dest: keys_mem)
    from Cons g x obtain l r where "m = l @ (k, w) # r" "bt_insert k v m = l @ (k, v) # r"
      "bt_remove k m = l @ r"
      by auto
    with lt x have "x # m = (x # l) @ (k, w) # r \<and> bt_insert k v (x # m) = (x # l) @ (k, v) # r
        \<and> bt_remove k (x # m) = (x # l) @ r"
      by auto
    then show ?thesis by blast
  qed
qed

interpretation bt: ordered_map bt_get bt_insert bt_remove "\<lambda>m. m" sorted_keys
  by unfold_locales
    (auto simp: sorted_keys_distinct bt_get_map_of [symmetric] sorted_bt_insert sorted_bt_remove
      intro: bt_insert_absent bt_insert_present)

section \<open>Deleting consumed levels\<close>

lemma pop_first_simps [simp]: "pop_first [] = []" "pop_first (x # m) = m"
  by (simp_all add: pop_first_def)

lemma pop_first_drop: "pop_first m = drop 1 m"
  by (cases m) simp_all

lemma pop_first_funpow: "(pop_first ^^ n) m = drop n m"
  by (induction n) (simp_all add: pop_first_drop)

lemma pop_last_funpow: "(pop_last ^^ n) m = rev (drop n (rev m))"
  by (induction n) (simp_all add: pop_last_def pop_first_drop)

end
