(* ===== verification/Order_Book.thy ===== *)
theory Order_Book
  imports Orders Ordered_Map
begin

text \<open>
  The order book of \<open>src/orderbook.rs\<close>: its data, resting an order without matching,
  cancellation and modification. Each side is a \<open>BTreeMap\<close> from a price to the queue
  (\<open>VecDeque\<close>) of orders at that price, oldest first.

  The abstract view of a side is the list of its \<open>(price, entry)\<close> pairs, \<open>flat\<close>. On it
  the operations are one-liners: resting an order is a stable insertion by price, a cancellation is a
  filter by id, a modification rewrites or filters one entry. The refinement lemmas show that the
  operations on levels are these.
\<close>

named_theorems book_defs "definitions of the order book's invariants"

section \<open>Data\<close>

record orderbook_entry =
  en_order_id :: order_id
  en_account_id :: account_id
  en_remaining_volume :: volume

definition entry_from_insertion :: "'p order_insertion \<Rightarrow> orderbook_entry" where
  "entry_from_insertion ins =
     \<lparr>en_order_id = oi_id ins, en_account_id = oi_account_id ins,
      en_remaining_volume = oi_volume ins\<rparr>"

record 'p ob_order_insertion_effects =
  ef_status :: order_execution_status
  ef_last_traded_price :: "'p option"

record 'p ob_transaction =
  tx_price :: 'p
  tx_volume :: volume
  tx_taker_side :: side
  tx_order_id_maker :: order_id
  tx_order_id_taker :: order_id

type_synonym 'p ob_transaction_buffer = "'p ob_transaction list"
type_synonym 'p ob_order_insertion_result = "order_insertion_error + 'p ob_order_insertion_effects"
type_synonym ob_order_cancellation_result = "order_cancellation_error + unit"

type_synonym 'p levels = "('p \<times> orderbook_entry list) list"

record 'p orderbook =
  bids :: "'p levels"
  asks :: "'p levels"

definition new_orderbook :: "'p orderbook" where
  "new_orderbook = \<lparr>bids = [], asks = []\<rparr>"

text \<open>\<open>match side { Side::Ask => &mut self.asks, Side::Bid => &mut self.bids }\<close>, read and written.\<close>

fun book_side :: "side \<Rightarrow> 'p orderbook \<Rightarrow> 'p levels" where
  "book_side Ask ob = asks ob"
| "book_side Bid ob = bids ob"

fun set_book_side :: "side \<Rightarrow> 'p levels \<Rightarrow> 'p orderbook \<Rightarrow> 'p orderbook" where
  "set_book_side Ask ls ob = ob\<lparr>asks := ls\<rparr>"
| "set_book_side Bid ls ob = ob\<lparr>bids := ls\<rparr>"

lemma book_side_set [simp]:
  "book_side s (set_book_side s ls ob) = ls"
  "book_side (opposite s) (set_book_side s ls ob) = book_side (opposite s) ob"
  "book_side s (set_book_side (opposite s) ls ob) = book_side s ob"
  by (cases s; simp)+

lemma book_side_set_neq: "s \<noteq> t \<Longrightarrow> book_side s (set_book_side t ls ob) = book_side s ob"
  by (cases s; cases t; simp)

lemma set_book_side_twice [simp]:
  "set_book_side s ls' (set_book_side s ls ob) = set_book_side s ls' ob"
  by (cases s) simp_all

section \<open>Operations\<close>

definition insert_limit_order_no_matching ::
    "'p::linorder order_insertion \<Rightarrow> 'p orderbook \<Rightarrow> 'p orderbook" where
  "insert_limit_order_no_matching order ob =
     (let price = oi_price order;
          book_sd = book_side (oi_side order) ob
      in set_book_side (oi_side order)
           (case bt_get book_sd price of
              None \<Rightarrow> bt_insert price [entry_from_insertion order] book_sd
            | Some orders_at_price \<Rightarrow>
                bt_insert price (orders_at_price @ [entry_from_insertion order]) book_sd)
           ob)"

text \<open>
  The search of \<open>cancel_order\<close> does not stop at a match: the last index with the id wins.
\<close>

fun cancel_scan :: "order_id \<Rightarrow> nat \<Rightarrow> orderbook_entry list \<Rightarrow> nat option \<Rightarrow> nat option" where
  "cancel_scan oid i [] index = index"
| "cancel_scan oid i (e # es) index =
     cancel_scan oid (Suc i) es (if en_order_id e = oid then Some i else index)"

text \<open>
  Writing a changed queue back through \<open>get_mut\<close>: a queue that lost its last order takes its
  whole price level with it.
\<close>

definition store_level ::
    "'p::linorder \<Rightarrow> orderbook_entry list \<Rightarrow> 'p levels \<Rightarrow> 'p levels" where
  "store_level price orders sd =
     (if length orders = 0 then bt_remove price sd else bt_insert price orders sd)"

definition ob_cancel_order ::
    "'p::linorder order_cancellation \<Rightarrow> 'p orderbook
     \<Rightarrow> ob_order_cancellation_result \<times> 'p orderbook" where
  "ob_cancel_order c ob =
     (let sd = book_side (oc_side c) ob; price = oc_price c in
      case bt_get sd price of
        None \<Rightarrow> (Inl order_cancellation_error.AlreadyFilled, ob)
      | Some orders \<Rightarrow>
          (case cancel_scan (oc_order_id c) 0 orders None of
             None \<Rightarrow> (Inl order_cancellation_error.AlreadyFilled, ob)
           | Some index \<Rightarrow>
               (Inr (),
                set_book_side (oc_side c) (store_level price (remove_at index orders) sd) ob)))"

text \<open>
  The search of \<open>modify_order\<close> stops at the first match and either changes that entry in place
  or remembers its index for removal.
\<close>

datatype modify_outcome =
  Modify_none | Modify_remove nat | Modify_reduced "orderbook_entry list"

fun modify_scan :: "'p order_modification \<Rightarrow> nat \<Rightarrow> orderbook_entry list \<Rightarrow> modify_outcome" where
  "modify_scan m i [] = Modify_none"
| "modify_scan m i (e # es) =
     (if en_order_id e = om_order_id m then
        (if en_remaining_volume e \<le> om_volume_reduction m then Modify_remove i
         else Modify_reduced
           (e\<lparr>en_remaining_volume := en_remaining_volume e - om_volume_reduction m\<rparr> # es))
      else (case modify_scan m (Suc i) es of
              Modify_reduced es' \<Rightarrow> Modify_reduced (e # es')
            | r \<Rightarrow> r))"

definition ob_modify_order ::
    "'p::linorder order_modification \<Rightarrow> 'p orderbook
     \<Rightarrow> (order_modification_error + unit) \<times> 'p orderbook" where
  "ob_modify_order m ob =
     (let sd = book_side (om_side m) ob; price = om_price m in
      case bt_get sd price of
        None \<Rightarrow> (Inl OrderNotFound, ob)
      | Some orders \<Rightarrow>
          (case modify_scan m 0 orders of
             Modify_none \<Rightarrow> (Inl OrderNotFound, ob)
           | Modify_reduced orders' \<Rightarrow>
               (Inr (), set_book_side (om_side m) (bt_insert price orders' sd) ob)
           | Modify_remove idx \<Rightarrow>
               (Inr (),
                set_book_side (om_side m) (store_level price (remove_at idx orders) sd) ob)))"

section \<open>Abstract view and invariants\<close>

definition flat :: "'p levels \<Rightarrow> ('p \<times> orderbook_entry) list" where
  "flat ls = concat (map (\<lambda>(p, es). map (Pair p) es) ls)"

definition entry_ids :: "('p \<times> orderbook_entry) list \<Rightarrow> order_id list" where
  "entry_ids q = map (en_order_id \<circ> snd) q"

text \<open>No empty level, no entry without volume.\<close>

definition clean_level :: "orderbook_entry list \<Rightarrow> bool" where
  "clean_level es \<longleftrightarrow> es \<noteq> [] \<and> (\<forall>e \<in> set es. 0 < en_remaining_volume e)"

definition clean :: "'p levels \<Rightarrow> bool" where
  "clean ls \<longleftrightarrow> (\<forall>l \<in> set ls. clean_level (snd l))"

definition book_sorted :: "'p::linorder orderbook \<Rightarrow> bool" where
  "book_sorted ob \<longleftrightarrow> sorted_keys (bids ob) \<and> sorted_keys (asks ob)"

definition book_clean :: "'p orderbook \<Rightarrow> bool" where
  "book_clean ob \<longleftrightarrow> clean (bids ob) \<and> clean (asks ob)"

text \<open>Every bid price is below every ask price.\<close>

definition book_uncrossed :: "'p::linorder orderbook \<Rightarrow> bool" where
  "book_uncrossed ob \<longleftrightarrow>
     (\<forall>b \<in> keys (bids ob). \<forall>a \<in> keys (asks ob). b < a)"

definition book_ids :: "'p orderbook \<Rightarrow> order_id list" where
  "book_ids ob = entry_ids (flat (bids ob)) @ entry_ids (flat (asks ob))"

lemmas [book_defs] = book_sorted_def book_clean_def book_uncrossed_def

lemma flat_simps [simp]:
  "flat [] = []"
  "flat ((p, es) # ls) = map (Pair p) es @ flat ls"
  "flat (ls @ ls') = flat ls @ flat ls'"
  by (simp_all add: flat_def)

lemma set_flat: "set (flat ls) = {(p, e). \<exists>es. (p, es) \<in> set ls \<and> e \<in> set es}"
  by (auto simp: flat_def)

lemma entry_ids_simps [simp]:
  "entry_ids [] = []"
  "entry_ids ((p, e) # q) = en_order_id e # entry_ids q"
  "entry_ids (q @ q') = entry_ids q @ entry_ids q'"
  "entry_ids (map (Pair p) es) = map en_order_id es"
  by (simp_all add: entry_ids_def comp_def)

lemma set_entry_ids: "set (entry_ids q) = (en_order_id \<circ> snd) ` set q"
  by (simp add: entry_ids_def)

lemma clean_simps [simp]:
  "clean []"
  "clean ((p, es) # ls) \<longleftrightarrow> clean_level es \<and> clean ls"
  "clean (ls @ ls') \<longleftrightarrow> clean ls \<and> clean ls'"
  by (auto simp: clean_def)

lemma clean_rev [simp]: "clean (rev ls) = clean ls"
  by (simp add: clean_def)

lemma cleanI: "(\<And>p es. (p, es) \<in> set ls \<Longrightarrow> clean_level es) \<Longrightarrow> clean ls"
  by (auto simp: clean_def)

lemma cleanD: "clean ls \<Longrightarrow> (p, es) \<in> set ls \<Longrightarrow> clean_level es"
  by (auto simp: clean_def)

lemma entry_from_insertion_simps [simp]:
  "en_order_id (entry_from_insertion ins) = oi_id ins"
  "en_account_id (entry_from_insertion ins) = oi_account_id ins"
  "en_remaining_volume (entry_from_insertion ins) = oi_volume ins"
  by (simp_all add: entry_from_insertion_def)

lemma book_sorted_side: "book_sorted ob \<Longrightarrow> sorted_keys (book_side s ob)"
  by (cases s) (simp_all add: book_sorted_def)

lemma book_sorted_set:
  "book_sorted ob \<Longrightarrow> sorted_keys ls \<Longrightarrow> book_sorted (set_book_side s ls ob)"
  by (cases s) (simp_all add: book_sorted_def)

lemma book_clean_side: "book_clean ob \<Longrightarrow> clean (book_side s ob)"
  by (cases s) (simp_all add: book_clean_def)

lemma book_clean_set: "book_clean ob \<Longrightarrow> clean ls \<Longrightarrow> book_clean (set_book_side s ls ob)"
  by (cases s) (simp_all add: book_clean_def)

text \<open>Replacing a side by one with no new price keeps the book uncrossed.\<close>

lemma book_uncrossed_set_subset:
  "book_uncrossed ob \<Longrightarrow> keys ls \<subseteq> keys (book_side s ob) \<Longrightarrow>
   book_uncrossed (set_book_side s ls ob)"
  by (cases s) (auto simp: book_uncrossed_def)

section \<open>Resting an order\<close>

text \<open>The stable insertion by price: after every entry at the price or below.\<close>

definition insert_by_price ::
    "'p::linorder \<Rightarrow> 'e \<Rightarrow> ('p \<times> 'e) list \<Rightarrow> ('p \<times> 'e) list" where
  "insert_by_price p e q = filter (\<lambda>x. fst x \<le> p) q @ (p, e) # filter (\<lambda>x. p < fst x) q"

lemma flat_key: "(p, e) \<in> set (flat ls) \<Longrightarrow> p \<in> keys ls"
  by (auto simp: set_flat intro: keys_mem)

lemma flat_split:
  assumes "sorted_keys (l @ (p, w) # r)"
  shows "filter (\<lambda>x. fst x \<le> p) (flat (l @ r)) = flat l"
    and "filter (\<lambda>x. p < fst x) (flat (l @ r)) = flat r"
    and "filter (\<lambda>x. fst x \<le> p) (flat (l @ (p, w) # r)) = flat l @ map (Pair p) w"
    and "filter (\<lambda>x. p < fst x) (flat (l @ (p, w) # r)) = flat r"
proof -
  have "fst x < p" if "x \<in> set (flat l)" for x
    using that assms flat_key [of "fst x" "snd x" l] by (simp add: sorted_keys_append)
  then have l: "filter (\<lambda>x. fst x \<le> p) (flat l) = flat l" "filter (\<lambda>x. p < fst x) (flat l) = []"
    by (auto simp: filter_id_conv filter_empty_conv less_imp_le dest: less_asym)
  have "p < fst x" if "x \<in> set (flat r)" for x
    using that assms flat_key [of "fst x" "snd x" r] by (simp add: sorted_keys_append)
  then have r: "filter (\<lambda>x. fst x \<le> p) (flat r) = []" "filter (\<lambda>x. p < fst x) (flat r) = flat r"
    by (auto simp: filter_id_conv filter_empty_conv dest: leD)
  from l r show "filter (\<lambda>x. fst x \<le> p) (flat (l @ r)) = flat l"
    and "filter (\<lambda>x. p < fst x) (flat (l @ r)) = flat r"
    by simp_all
  have "filter (\<lambda>x. fst x \<le> p) (map (Pair p) w) = map (Pair p) w"
    "filter (\<lambda>x. p < fst x) (map (Pair p) w) = []"
    by (auto simp: filter_id_conv filter_empty_conv)
  with l r show "filter (\<lambda>x. fst x \<le> p) (flat (l @ (p, w) # r)) = flat l @ map (Pair p) w"
    and "filter (\<lambda>x. p < fst x) (flat (l @ (p, w) # r)) = flat r"
    by simp_all
qed

lemma insert_no_matching_side:
  "book_side (oi_side order) (insert_limit_order_no_matching order ob) =
     bt_insert (oi_price order)
       ((case bt_get (book_side (oi_side order) ob) (oi_price order) of None \<Rightarrow> [] | Some es \<Rightarrow> es)
         @ [entry_from_insertion order])
       (book_side (oi_side order) ob)"
  by (simp add: insert_limit_order_no_matching_def Let_def split: option.split)

lemma insert_no_matching_other:
  "s \<noteq> oi_side order \<Longrightarrow>
   book_side s (insert_limit_order_no_matching order ob) = book_side s ob"
  by (simp add: insert_limit_order_no_matching_def Let_def book_side_set_neq)

lemma flat_insert_no_matching:
  assumes "sorted_keys (book_side (oi_side order) ob)"
  shows "flat (book_side (oi_side order) (insert_limit_order_no_matching order ob)) =
    insert_by_price (oi_price order) (entry_from_insertion order)
      (flat (book_side (oi_side order) ob))"
proof (cases "bt_get (book_side (oi_side order) ob) (oi_price order)")
  case None
  let ?e = "entry_from_insertion order" and ?p = "oi_price order"
  obtain l r where m: "book_side (oi_side order) ob = l @ r"
    and i: "bt_insert ?p [?e] (l @ r) = l @ (?p, [?e]) # r"
    using bt_insert_absent [OF assms None] by metis
  have "sorted_keys (l @ (?p, [?e]) # r)"
    using sorted_bt_insert [OF assms, of ?p "[?e]"] by (simp only: m i)
  from flat_split(1,2) [OF this] None m i show ?thesis
    by (simp add: insert_no_matching_side insert_by_price_def del: filter_append)
next
  case (Some w)
  let ?e = "entry_from_insertion order" and ?p = "oi_price order"
  obtain l r where m: "book_side (oi_side order) ob = l @ (?p, w) # r"
    and i: "bt_insert ?p (w @ [?e]) (book_side (oi_side order) ob) = l @ (?p, w @ [?e]) # r"
    using bt_insert_present [OF assms Some] by metis
  from flat_split(3,4) [OF assms [unfolded m]] i show ?thesis
    by (simp add: insert_no_matching_side insert_by_price_def Some m [symmetric])
qed

lemma insert_no_matching_sorted:
  "book_sorted ob \<Longrightarrow> book_sorted (insert_limit_order_no_matching order ob)"
  by (simp add: insert_limit_order_no_matching_def Let_def book_sorted_set sorted_bt_insert
      book_sorted_side split: option.split)

lemma clean_bt_insert:
  "sorted_keys ls \<Longrightarrow> clean ls \<Longrightarrow> clean_level es \<Longrightarrow> clean (bt_insert p es ls)"
  by (rule cleanI, rule bt.all_put [where P = "\<lambda>_. clean_level"]) (auto dest: cleanD)

lemma clean_bt_remove:
  "clean ls \<Longrightarrow> clean (bt_remove p ls)"
  using set_bt_remove_subset [of p ls] by (auto simp: clean_def)

lemma insert_no_matching_clean:
  assumes "book_sorted ob" and "book_clean ob" and "0 < oi_volume order"
  shows "book_clean (insert_limit_order_no_matching order ob)"
proof -
  let ?sd = "book_side (oi_side order) ob" and ?p = "oi_price order"
  have sorted: "sorted_keys ?sd" using assms(1) by (rule book_sorted_side)
  have cl: "clean ?sd" using assms(2) by (rule book_clean_side)
  let ?es = "(case bt_get ?sd ?p of None \<Rightarrow> [] | Some es \<Rightarrow> es) @ [entry_from_insertion order]"
  have new: "clean_level ?es"
    using assms(3) cleanD [OF cl] bt.get_in_iff [OF sorted, of ?p]
    by (cases "bt_get ?sd ?p") (auto simp: clean_level_def)
  have "clean (bt_insert ?p ?es ?sd)" using sorted cl new by (rule clean_bt_insert)
  with assms(2) show ?thesis
    by (simp add: insert_limit_order_no_matching_def Let_def book_clean_set split: option.splits)
qed

text \<open>Resting keeps the book uncrossed exactly when the price does not cross the other side.\<close>

definition rests_uncrossed :: "'p::linorder order_insertion \<Rightarrow> 'p orderbook \<Rightarrow> bool" where
  "rests_uncrossed order ob \<longleftrightarrow>
     (case oi_side order of
        Bid \<Rightarrow> (\<forall>a \<in> keys (asks ob). oi_price order < a)
      | Ask \<Rightarrow> (\<forall>b \<in> keys (bids ob). b < oi_price order))"

lemma insert_no_matching_uncrossed:
  "book_uncrossed ob \<Longrightarrow> rests_uncrossed order ob \<Longrightarrow>
   book_uncrossed (insert_limit_order_no_matching order ob)"
  by (cases "oi_side order")
    (auto simp: insert_limit_order_no_matching_def Let_def book_uncrossed_def rests_uncrossed_def
      split: option.splits)

section \<open>Cancelling and modifying\<close>

lemma cancel_scan_absent:
  "oid \<notin> en_order_id ` set es \<Longrightarrow> cancel_scan oid i es index = index"
  by (induction es arbitrary: i index) auto

lemma cancel_scan_present:
  "distinct (map en_order_id es) \<Longrightarrow> oid \<in> en_order_id ` set es \<Longrightarrow>
   \<exists>j. cancel_scan oid i es index = Some (i + j) \<and>
       remove_at j es = filter (\<lambda>e. en_order_id e \<noteq> oid) es"
proof (induction es arbitrary: i index)
  case Nil
  then show ?case by simp
next
  case (Cons e es)
  show ?case
  proof (cases "en_order_id e = oid")
    case True
    with Cons.prems have "oid \<notin> en_order_id ` set es" by auto
    then have "filter (\<lambda>e. en_order_id e \<noteq> oid) es = es" by (auto simp: filter_id_conv)
    with True \<open>oid \<notin> en_order_id ` set es\<close> have "cancel_scan oid i (e # es) index = Some (i + 0)
        \<and> remove_at 0 (e # es) = filter (\<lambda>e. en_order_id e \<noteq> oid) (e # es)"
      by (simp add: cancel_scan_absent)
    then show ?thesis by blast
  next
    case False
    with Cons.prems have "distinct (map en_order_id es)" "oid \<in> en_order_id ` set es" by auto
    from Cons.IH [OF this, of "Suc i" index] obtain j where
      "cancel_scan oid (Suc i) es index = Some (Suc i + j)"
      "remove_at j es = filter (\<lambda>e. en_order_id e \<noteq> oid) es"
      by blast
    with False have "cancel_scan oid i (e # es) index = Some (i + Suc j)
        \<and> remove_at (Suc j) (e # es) = filter (\<lambda>e. en_order_id e \<noteq> oid) (e # es)"
      by simp
    then show ?thesis by blast
  qed
qed

text \<open>Either search hands back a subset of the level's entries.\<close>

lemma cancel_scan_lt:
  "cancel_scan oid i es index = Some j \<Longrightarrow> index \<noteq> Some j \<Longrightarrow> j < i + length es"
  by (induction es arbitrary: i index) (force split: if_splits)+

text \<open>What a modification does to an entry, and whether it takes the entry out of the book.\<close>

definition reduce_entry :: "'p order_modification \<Rightarrow> orderbook_entry \<Rightarrow> orderbook_entry" where
  "reduce_entry m e =
     (if en_order_id e = om_order_id m
      then e\<lparr>en_remaining_volume := en_remaining_volume e - om_volume_reduction m\<rparr> else e)"

definition survives :: "'p order_modification \<Rightarrow> orderbook_entry \<Rightarrow> bool" where
  "survives m e \<longleftrightarrow>
     en_order_id e \<noteq> om_order_id m \<or> om_volume_reduction m < en_remaining_volume e"

lemma modify_scan_absent:
  "om_order_id m \<notin> en_order_id ` set es \<Longrightarrow> modify_scan m i es = Modify_none"
  by (induction es arbitrary: i) auto

lemma map_reduce_absent:
  "om_order_id m \<notin> en_order_id ` set es \<Longrightarrow>
   map (reduce_entry m) (filter (survives m) es) = es"
  by (induction es) (auto simp: reduce_entry_def survives_def)

lemma modify_scan_present:
  "distinct (map en_order_id es) \<Longrightarrow> om_order_id m \<in> en_order_id ` set es \<Longrightarrow>
   (\<exists>j. modify_scan m i es = Modify_remove (i + j) \<and>
        remove_at j es = map (reduce_entry m) (filter (survives m) es))
   \<or> modify_scan m i es = Modify_reduced (map (reduce_entry m) (filter (survives m) es))
     \<and> map (reduce_entry m) (filter (survives m) es) \<noteq> []"
proof (induction es arbitrary: i)
  case Nil
  then show ?case by simp
next
  case (Cons e es)
  show ?case
  proof (cases "en_order_id e = om_order_id m")
    case True
    with Cons.prems have "om_order_id m \<notin> en_order_id ` set es" by auto
    note rest = map_reduce_absent [OF this]
    show ?thesis
    proof (cases "survives m e")
      case False
      with True rest have "modify_scan m i (e # es) = Modify_remove (i + 0)
          \<and> remove_at 0 (e # es) = map (reduce_entry m) (filter (survives m) (e # es))"
        by (simp add: survives_def not_less)
      then show ?thesis by blast
    next
      case s: True
      then have "map (reduce_entry m) (filter (survives m) (e # es)) = reduce_entry m e # es"
        using rest by simp
      moreover from s True have "modify_scan m i (e # es) = Modify_reduced (reduce_entry m e # es)"
        by (simp add: survives_def reduce_entry_def)
      ultimately show ?thesis by simp
    qed
  next
    case False
    with Cons.prems have "distinct (map en_order_id es)" "om_order_id m \<in> en_order_id ` set es"
      by auto
    from Cons.IH [OF this, of "Suc i"] show ?thesis
    proof (elim disjE exE conjE)
      fix j
      assume "modify_scan m (Suc i) es = Modify_remove (Suc i + j)"
        and "remove_at j es = map (reduce_entry m) (filter (survives m) es)"
      with False have "modify_scan m i (e # es) = Modify_remove (i + Suc j)
          \<and> remove_at (Suc j) (e # es) = map (reduce_entry m) (filter (survives m) (e # es))"
        by (simp add: survives_def reduce_entry_def)
      then show ?thesis by blast
    qed (simp add: False survives_def reduce_entry_def)
  qed
qed

text \<open>Whether an order rests on a side at a price.\<close>

definition resting :: "side \<Rightarrow> 'p \<Rightarrow> order_id \<Rightarrow> 'p orderbook \<Rightarrow> bool" where
  "resting s p oid ob \<longleftrightarrow>
     (\<exists>x \<in> set (flat (book_side s ob)). fst x = p \<and> en_order_id (snd x) = oid)"

lemma resting_level:
  assumes "sorted_keys (book_side s ob)"
  shows "resting s p oid ob \<longleftrightarrow>
    (case bt_get (book_side s ob) p of None \<Rightarrow> False | Some es \<Rightarrow> oid \<in> en_order_id ` set es)"
proof (cases "bt_get (book_side s ob) p")
  case None
  then have "(p, es) \<notin> set (book_side s ob)" for es
    using bt.get_in_iff [OF assms, of p es] by simp
  with None show ?thesis by (auto simp: resting_def set_flat)
next
  case (Some w)
  then have "(p, es) \<in> set (book_side s ob) \<longleftrightarrow> es = w" for es
    using bt.get_in_iff [OF assms, of p es] by auto
  with Some show ?thesis by (auto simp: resting_def set_flat)
qed

lemma store_level_split:
  assumes "sorted_keys ls" and "bt_get ls p = Some w"
  obtains l r where "ls = l @ (p, w) # r"
    and "flat (store_level p es ls) = flat l @ map (Pair p) es @ flat r"
    and "sorted_keys (store_level p es ls)"
    and "keys (store_level p es ls) \<subseteq> keys ls"
proof -
  obtain l r where m: "ls = l @ (p, w) # r" "bt_insert p es ls = l @ (p, es) # r"
    "bt_remove p ls = l @ r"
    using bt_insert_present [OF assms] by blast
  have "flat (store_level p es ls) = flat l @ map (Pair p) es @ flat r"
    by (simp add: store_level_def m(2,3))
  moreover have "sorted_keys (store_level p es ls)"
    using assms(1) by (simp add: store_level_def sorted_bt_insert sorted_bt_remove)
  moreover have "keys (store_level p es ls) \<subseteq> keys (l @ (p, w) # r)"
    by (auto simp: store_level_def m(2,3))
  ultimately show thesis using that m(1) by simp
qed

lemma clean_store_level:
  "sorted_keys ls \<Longrightarrow> clean ls \<Longrightarrow> (\<And>e. e \<in> set es \<Longrightarrow> 0 < en_remaining_volume e) \<Longrightarrow>
   clean (store_level p es ls)"
  by (auto simp: store_level_def clean_bt_remove clean_level_def intro: clean_bt_insert)

text \<open>A level's queue in the flat view: the other prices hold none of its ids.\<close>

lemma level_ids:
  assumes "distinct (entry_ids (flat (l @ (p, w) # r)))" and "oid \<in> en_order_id ` set w"
  shows "distinct (map en_order_id w)"
    and "\<And>x. x \<in> set (flat l) \<union> set (flat r) \<Longrightarrow> en_order_id (snd x) \<noteq> oid"
proof -
  from assms(1) show "distinct (map en_order_id w)" by simp
  fix x
  assume "x \<in> set (flat l) \<union> set (flat r)"
  then have "en_order_id (snd x) \<in> set (entry_ids (flat l)) \<union> set (entry_ids (flat r))"
    by (auto simp: set_entry_ids)
  with assms show "en_order_id (snd x) \<noteq> oid" by auto
qed

lemma filter_map_Pair:
  "filter (\<lambda>x. P (snd x)) (map (Pair p) es) = map (Pair p) (filter P es)"
  by (induction es) auto

text \<open>Cancellation: an order that rests leaves the book, and nothing else changes.\<close>

lemma cancel_resting:
  assumes "book_sorted ob"
    and "distinct (entry_ids (flat (book_side (oc_side c) ob)))"
    and "resting (oc_side c) (oc_price c) (oc_order_id c) ob"
  obtains ls where "ob_cancel_order c ob = (Inr (), set_book_side (oc_side c) ls ob)"
    and "flat ls = filter (\<lambda>x. en_order_id (snd x) \<noteq> oc_order_id c) (flat (book_side (oc_side c) ob))"
    and "sorted_keys ls" and "keys ls \<subseteq> keys (book_side (oc_side c) ob)"
    and "clean (book_side (oc_side c) ob) \<Longrightarrow> clean ls"
proof -
  let ?sd = "book_side (oc_side c) ob" and ?p = "oc_price c" and ?i = "oc_order_id c"
  have sorted: "sorted_keys ?sd" using assms(1) by (rule book_sorted_side)
  obtain w where w: "bt_get ?sd ?p = Some w" and mem: "?i \<in> en_order_id ` set w"
    using assms(3) by (auto simp: resting_level [OF sorted] split: option.splits)
  let ?es = "filter (\<lambda>e. en_order_id e \<noteq> ?i) w"
  obtain l r where sd: "?sd = l @ (?p, w) # r"
    and st: "flat (store_level ?p ?es ?sd) = flat l @ map (Pair ?p) ?es @ flat r"
      "sorted_keys (store_level ?p ?es ?sd)" "keys (store_level ?p ?es ?sd) \<subseteq> keys ?sd"
    using store_level_split [OF sorted w, of ?es] by blast
  note ids = level_ids [OF assms(2) [unfolded sd] mem]
  obtain j where "cancel_scan ?i 0 w None = Some j" "remove_at j w = ?es"
    using cancel_scan_present [OF ids(1) mem, of 0 None] by auto
  with w have ok: "ob_cancel_order c ob = (Inr (), set_book_side (oc_side c) (store_level ?p ?es ?sd) ob)"
    by (simp add: ob_cancel_order_def Let_def)
  have "filter (\<lambda>x. en_order_id (snd x) \<noteq> ?i) (flat l) = flat l"
    "filter (\<lambda>x. en_order_id (snd x) \<noteq> ?i) (flat r) = flat r"
    using ids(2) by (simp_all add: filter_id_conv)
  then have fl: "flat (store_level ?p ?es ?sd) = filter (\<lambda>x. en_order_id (snd x) \<noteq> ?i) (flat ?sd)"
    using st(1) by (simp add: sd filter_map_Pair [where P = "\<lambda>e. en_order_id e \<noteq> ?i"])
  have "clean (store_level ?p ?es ?sd)" if cl: "clean ?sd"
    by (rule clean_store_level [OF sorted cl]) (use cl in \<open>auto simp: sd clean_level_def\<close>)
  with ok fl st(2,3) show thesis using that by blast
qed

lemma cancel_not_resting:
  assumes "book_sorted ob" and "\<not> resting (oc_side c) (oc_price c) (oc_order_id c) ob"
  shows "ob_cancel_order c ob = (Inl order_cancellation_error.AlreadyFilled, ob)"
  using assms(2)
  by (auto simp: resting_level [OF book_sorted_side [OF assms(1)]] ob_cancel_order_def Let_def
      cancel_scan_absent split: option.splits)

text \<open>
  Modification: the order's entry loses the reduction, or leaves the book when the reduction takes
  all its volume.
\<close>

lemma modify_resting:
  assumes "book_sorted ob"
    and "distinct (entry_ids (flat (book_side (om_side m) ob)))"
    and "resting (om_side m) (om_price m) (om_order_id m) ob"
  obtains ls where "ob_modify_order m ob = (Inr (), set_book_side (om_side m) ls ob)"
    and "flat ls = map (\<lambda>x. (fst x, reduce_entry m (snd x)))
      (filter (\<lambda>x. survives m (snd x)) (flat (book_side (om_side m) ob)))"
    and "sorted_keys ls" and "keys ls \<subseteq> keys (book_side (om_side m) ob)"
    and "clean (book_side (om_side m) ob) \<Longrightarrow> clean ls"
proof -
  let ?sd = "book_side (om_side m) ob" and ?p = "om_price m" and ?i = "om_order_id m"
  have sorted: "sorted_keys ?sd" using assms(1) by (rule book_sorted_side)
  obtain w where w: "bt_get ?sd ?p = Some w" and mem: "?i \<in> en_order_id ` set w"
    using assms(3) by (auto simp: resting_level [OF sorted] split: option.splits)
  let ?es = "map (reduce_entry m) (filter (survives m) w)"
  obtain l r where sd: "?sd = l @ (?p, w) # r"
    and st: "flat (store_level ?p ?es ?sd) = flat l @ map (Pair ?p) ?es @ flat r"
      "sorted_keys (store_level ?p ?es ?sd)" "keys (store_level ?p ?es ?sd) \<subseteq> keys ?sd"
    using store_level_split [OF sorted w, of ?es] by blast
  note ids = level_ids [OF assms(2) [unfolded sd] mem]
  have ok: "ob_modify_order m ob = (Inr (), set_book_side (om_side m) (store_level ?p ?es ?sd) ob)"
    using modify_scan_present [OF ids(1) mem, of 0] w
    by (auto simp: ob_modify_order_def Let_def store_level_def)
  let ?f = "\<lambda>x. (fst x, reduce_entry m (snd x))"
  have "map ?f (filter (\<lambda>x. survives m (snd x)) (flat l)) = flat l"
    "map ?f (filter (\<lambda>x. survives m (snd x)) (flat r)) = flat r"
    using ids(2) by (simp_all add: filter_id_conv map_idI reduce_entry_def survives_def)
  moreover have "map ?f (filter (\<lambda>x. survives m (snd x)) (map (Pair ?p) w)) = map (Pair ?p) ?es"
    by (simp add: filter_map_Pair comp_def)
  ultimately have fl: "flat (store_level ?p ?es ?sd) =
      map ?f (filter (\<lambda>x. survives m (snd x)) (flat ?sd))"
    using st(1) by (simp add: sd)
  have "clean (store_level ?p ?es ?sd)" if cl: "clean ?sd"
  proof (rule clean_store_level [OF sorted cl])
    fix e
    assume "e \<in> set ?es"
    then obtain d where "d \<in> set w" "survives m d" "e = reduce_entry m d" by auto
    moreover have "0 < en_remaining_volume d"
      using cl \<open>d \<in> set w\<close> by (simp add: sd clean_level_def)
    ultimately show "0 < en_remaining_volume e"
      by (auto simp: reduce_entry_def survives_def word_neq_0_conv [symmetric] u32_pos_iff
          simp del: word_neq_0_conv)
  qed
  with ok fl st(2,3) show thesis using that by blast
qed

lemma modify_not_resting:
  assumes "book_sorted ob" and "\<not> resting (om_side m) (om_price m) (om_order_id m) ob"
  shows "ob_modify_order m ob = (Inl OrderNotFound, ob)"
  using assms(2)
  by (auto simp: resting_level [OF book_sorted_side [OF assms(1)]] ob_modify_order_def Let_def
      modify_scan_absent split: option.splits)

end
