(* ===== verification/Matching.thy ===== *)
theory Matching
  imports Order_Book
begin

text \<open>
  The matching engine: \<open>Orderbook::insert_order\<close> of \<open>src/orderbook.rs\<close> with its volume
  checks for Fill-or-Kill and Market orders.

  The code iterates over one side of the book from its best price (asks upwards, bids downwards) and
  mutates the queues in place; \<open>best_first\<close> is that order of iteration. Both loops are
  recursive functions whose result says how the loop was left: by the early return on a self-trade,
  or normally. The abstract specification is \<open>fill\<close>, price-time priority on the flat queue of
  crossing orders; the refinement lemmas show that the two loops and the clean-up implement it.
\<close>

section \<open>The volume checks\<close>

text \<open>
  The inner loop: add the entries' volumes until the order's volume is reached (\<open>Inl\<close>, the early
  return) or the queue ends (\<open>Inr\<close> of the volume so far).
\<close>

fun scan_orders :: "build \<Rightarrow> volume \<Rightarrow> volume \<Rightarrow> orderbook_entry list \<Rightarrow> (unit + volume) option" where
  "scan_orders b volume available [] = Some (Inr available)"
| "scan_orders b volume available (e # es) =
     (case u32_add b available (en_remaining_volume e) of
        None \<Rightarrow> None
      | Some available' \<Rightarrow>
          (if volume \<le> available' then Some (Inl ()) else scan_orders b volume available' es))"

fun scan_levels_fok ::
    "build \<Rightarrow> side \<Rightarrow> volume \<Rightarrow> 'p::linorder \<Rightarrow> volume \<Rightarrow> 'p levels
     \<Rightarrow> (order_insertion_error + unit) option" where
  "scan_levels_fok b order_side volume price available [] = Some (Inl OrderKilled)"
| "scan_levels_fok b order_side volume price available ((open_price, open_orders) # ls) =
     (let bid_price_too_high = (order_side = Bid \<and> open_price > price);
          ask_price_too_low = (order_side = Ask \<and> open_price < price)
      in if bid_price_too_high \<or> ask_price_too_low then Some (Inl OrderKilled)
         else (case scan_orders b volume available open_orders of
                 None \<Rightarrow> None
               | Some (Inl _) \<Rightarrow> Some (Inr ())
               | Some (Inr available') \<Rightarrow>
                   scan_levels_fok b order_side volume price available' ls))"

definition enough_volume_fok ::
    "build \<Rightarrow> side \<Rightarrow> volume \<Rightarrow> 'p::linorder \<Rightarrow> 'p orderbook
     \<Rightarrow> (order_insertion_error + unit) option" where
  "enough_volume_fok b order_side volume price ob =
     (let side_offers = (case order_side of Ask \<Rightarrow> bids ob | Bid \<Rightarrow> asks ob)
      in scan_levels_fok b order_side volume price 0 side_offers)"

fun scan_levels_market ::
    "build \<Rightarrow> volume \<Rightarrow> volume \<Rightarrow> 'p levels \<Rightarrow> (order_insertion_error + unit) option" where
  "scan_levels_market b volume available [] = Some (Inl InadequateVolume)"
| "scan_levels_market b volume available ((open_price, open_orders) # ls) =
     (case scan_orders b volume available open_orders of
        None \<Rightarrow> None
      | Some (Inl _) \<Rightarrow> Some (Inr ())
      | Some (Inr available') \<Rightarrow> scan_levels_market b volume available' ls)"

definition enough_volume_market ::
    "build \<Rightarrow> side \<Rightarrow> volume \<Rightarrow> 'p orderbook \<Rightarrow> (order_insertion_error + unit) option" where
  "enough_volume_market b order_side volume ob =
     (let side_offers = (case order_side of Ask \<Rightarrow> bids ob | Bid \<Rightarrow> asks ob)
      in scan_levels_market b volume 0 side_offers)"

section \<open>The matching loops\<close>

definition trade_with ::
    "'p order_insertion \<Rightarrow> 'p \<Rightarrow> orderbook_entry \<Rightarrow> volume \<Rightarrow> 'p ob_transaction" where
  "trade_with order price open_order v =
     \<lparr>tx_price = price, tx_volume = v, tx_taker_side = oi_side order,
      tx_order_id_maker = en_order_id open_order, tx_order_id_taker = oi_id order\<rparr>"

datatype 'p level_outcome =
  Level_self_trade "orderbook_entry list" "'p ob_transaction_buffer"
| Level_done "orderbook_entry list" volume "'p ob_transaction_buffer" "'p option"

text \<open>
  The inner \<open>while\<close> loop. An iteration that leaves volume on the front order has used up the
  incoming order, so a further iteration always follows a \<open>pop_front\<close>: the queue's length is the
  termination measure.
\<close>

function match_level ::
    "'p order_insertion \<Rightarrow> 'p \<Rightarrow> orderbook_entry list \<Rightarrow> volume \<Rightarrow> 'p ob_transaction_buffer
     \<Rightarrow> 'p level_outcome" where
  "match_level order price [] remaining buf = Level_done [] remaining buf None"
| "match_level order price (open_order # rest) remaining buf =
     (let transaction_volume = min remaining (en_remaining_volume open_order);
          open_order' = open_order\<lparr>en_remaining_volume :=
            en_remaining_volume open_order - transaction_volume\<rparr>;
          remaining' = remaining - transaction_volume
      in if oi_account_id order = en_account_id open_order'
         then Level_self_trade (open_order' # rest) buf
         else let buf' = buf @ [trade_with order price open_order' transaction_volume];
                  open_orders' = (if en_remaining_volume open_order' = 0 then rest
                                  else open_order' # rest)
              in if remaining' \<le> 0 then Level_done open_orders' remaining' buf' (Some price)
                 else match_level order price open_orders' remaining' buf')"
  by pat_completeness auto
termination
  by (relation "measure (\<lambda>(order, price, es, remaining, buf). length es)")
    (auto simp: min_def)

datatype 'p loop_outcome =
  Loop_self_trade "'p levels" "'p ob_transaction_buffer"
| Loop_done "'p levels" volume "'p ob_transaction_buffer" "'p option" nat

text \<open>A price level the order may not trade at: the loop stops there.\<close>

definition price_out_of_reach :: "'p::linorder order_insertion \<Rightarrow> 'p \<Rightarrow> bool" where
  "price_out_of_reach order open_price \<longleftrightarrow>
     oi_order_type order \<noteq> Market \<and>
     (oi_side order = Bid \<and> open_price > oi_price order \<or>
      oi_side order = Ask \<and> open_price < oi_price order)"

fun match_levels ::
    "'p::linorder order_insertion \<Rightarrow> 'p levels \<Rightarrow> volume \<Rightarrow> 'p ob_transaction_buffer \<Rightarrow> nat
     \<Rightarrow> 'p loop_outcome" where
  "match_levels order [] remaining buf deletions = Loop_done [] remaining buf None deletions"
| "match_levels order ((price, es) # ls) remaining buf deletions =
     (if price_out_of_reach order price
      then Loop_done ((price, es) # ls) remaining buf None deletions
      else case match_level order price es remaining buf of
             Level_self_trade es' buf' \<Rightarrow> Loop_self_trade ((price, es') # ls) buf'
           | Level_done es' remaining' buf' last_traded \<Rightarrow>
               (let deletions' = (if es' = [] then deletions + 1 else deletions) in
                if remaining' \<le> 0
                then Loop_done ((price, es') # ls) remaining' buf' last_traded deletions'
                else case match_levels order ls remaining' buf' deletions' of
                       Loop_self_trade ls' buf'' \<Rightarrow> Loop_self_trade ((price, es') # ls') buf''
                     | Loop_done ls' remaining'' buf'' last_traded' deletions'' \<Rightarrow>
                         Loop_done ((price, es') # ls') remaining'' buf''
                           (if last_traded' = None then last_traded else last_traded')
                           deletions''))"

section \<open>Inserting an order\<close>

text \<open>The iteration order over a side: \<open>next\<close> for asks, \<open>next_back\<close> for bids.\<close>

fun best_first :: "side \<Rightarrow> 'a list \<Rightarrow> 'a list" where
  "best_first Ask ls = ls"
| "best_first Bid ls = rev ls"

text \<open>The clean-up of consumed levels: \<open>pop_first\<close> for asks, \<open>pop_last\<close> for bids.\<close>

fun delete_levels :: "side \<Rightarrow> nat \<Rightarrow> ('k \<times> 'v) list \<Rightarrow> ('k \<times> 'v) list" where
  "delete_levels Ask n prices = (pop_first ^^ n) prices"
| "delete_levels Bid n prices = (pop_last ^^ n) prices"

definition check_volume ::
    "build \<Rightarrow> 'p::linorder order_insertion \<Rightarrow> 'p orderbook \<Rightarrow> (order_insertion_error + unit) option" where
  "check_volume b order ob =
     (if oi_order_type order = FillOrKill
      then enough_volume_fok b (oi_side order) (oi_volume order) (oi_price order) ob
      else if oi_order_type order = Market
      then enough_volume_market b (oi_side order) (oi_volume order) ob
      else Some (Inr ()))"

text \<open>
  The result carries the book and the transaction buffer on every path: both are \<open>&mut\<close>, and
  the early return on a self-trade leaves them as the loop had them.
\<close>

definition ob_insert_order ::
    "build \<Rightarrow> 'p::linorder order_insertion \<Rightarrow> 'p orderbook \<Rightarrow> 'p ob_transaction_buffer
     \<Rightarrow> ('p ob_order_insertion_result
         \<times> 'p orderbook \<times> 'p ob_transaction_buffer) option" where
  "ob_insert_order b order ob buf =
     (case check_volume b order ob of
        None \<Rightarrow> None
      | Some (Inl err) \<Rightarrow> Some (Inl err, ob, buf)
      | Some (Inr _) \<Rightarrow>
          (let prices_side = opposite (oi_side order);
               prices = book_side prices_side ob
           in case match_levels order (best_first prices_side prices) (oi_volume order) buf 0 of
                Loop_self_trade ls buf' \<Rightarrow>
                  Some (Inl SelfTrade, set_book_side prices_side (best_first prices_side ls) ob, buf')
              | Loop_done ls remaining buf' last_traded_price price_level_deletions \<Rightarrow>
                  (let prices' = delete_levels prices_side price_level_deletions
                                   (best_first prices_side ls);
                       ob' = set_book_side prices_side prices' ob
                   in if remaining > 0
                      then Some
                        (Inr \<lparr>ef_status = AwaitingFill, ef_last_traded_price = last_traded_price\<rparr>,
                         insert_limit_order_no_matching (order\<lparr>oi_volume := remaining\<rparr>) ob', buf')
                      else Some
                        (Inr \<lparr>ef_status = Filled, ef_last_traded_price = last_traded_price\<rparr>,
                         ob', buf'))))"

lemma best_first_twice [simp]: "best_first s (best_first s ls) = ls"
  by (cases s) simp_all

lemma delete_levels_best_first:
  "delete_levels s n (best_first s ls) = best_first s (drop n ls)"
  by (cases s) (simp_all add: pop_first_funpow pop_last_funpow)

lemma set_best_first [simp]: "set (best_first s ls) = set ls"
  by (cases s) simp_all

lemma keys_best_first [simp]: "keys (best_first s ls) = keys ls"
  by (cases s) simp_all

lemma clean_best_first [simp]: "clean (best_first s ls) = clean ls"
  by (cases s) simp_all

end
