(* ===== verification/Price_Time.thy ===== *)
theory Price_Time
  imports Matching
begin

text \<open>
  The specification of matching, price-time priority on a flat queue, and the proof that the loops of
  \<open>Matching\<close> implement it. A first group of lemmas holds on every book and every path; the
  refinement itself is for clean books (no empty level, no order without volume), which is what every
  successful insertion keeps.
\<close>

section \<open>The specification\<close>

datatype 'p fill_result =
  Own_order_reached
| Traded "'p ob_transaction_buffer" volume "('p \<times> orderbook_entry) list"

text \<open>
  The queue is in priority order. The incoming order trades with its head until it is used up: an
  own order in front stops it, a larger one is reduced in place, an equal one leaves the queue, a
  smaller one leaves the queue and the rest of the order goes on.
\<close>

fun fill ::
    "'p order_insertion \<Rightarrow> volume \<Rightarrow> ('p \<times> orderbook_entry) list \<Rightarrow> 'p fill_result" where
  "fill order n [] = Traded [] n []"
| "fill order n ((p, e) # q) =
     (if oi_account_id order = en_account_id e then Own_order_reached
      else if n < en_remaining_volume e
      then Traded [trade_with order p e n] 0
             ((p, e\<lparr>en_remaining_volume := en_remaining_volume e - n\<rparr>) # q)
      else if n = en_remaining_volume e then Traded [trade_with order p e n] 0 q
      else (case fill order (n - en_remaining_volume e) q of
              Own_order_reached \<Rightarrow> Own_order_reached
            | Traded ts m r \<Rightarrow> Traded (trade_with order p e (en_remaining_volume e) # ts) m r))"

definition volume_of :: "('p \<times> orderbook_entry) list \<Rightarrow> nat" where
  "volume_of q = sum_list (map (unat \<circ> en_remaining_volume \<circ> snd) q)"

definition traded_volume :: "'p ob_transaction_buffer \<Rightarrow> nat" where
  "traded_volume ts = sum_list (map (unat \<circ> tx_volume) ts)"

lemma volume_simps [simp]:
  "volume_of [] = 0"
  "volume_of ((p, e) # q) = unat (en_remaining_volume e) + volume_of q"
  "volume_of (q @ q') = volume_of q + volume_of q'"
  "traded_volume [] = 0"
  "traded_volume (t # ts) = unat (tx_volume t) + traded_volume ts"
  "traded_volume (ts @ ts') = traded_volume ts + traded_volume ts'"
  by (simp_all add: volume_of_def traded_volume_def)

lemma volume_of_map_Pair:
  "volume_of (map (Pair p) es) = sum_list (map (unat \<circ> en_remaining_volume) es)"
  by (induction es) auto

lemma trade_with_simps [simp]:
  "tx_price (trade_with order p e v) = p"
  "tx_volume (trade_with order p e v) = v"
  "tx_taker_side (trade_with order p e v) = oi_side order"
  "tx_order_id_maker (trade_with order p e v) = en_order_id e"
  "tx_order_id_taker (trade_with order p e v) = oi_id order"
  "trade_with order p (e\<lparr>en_remaining_volume := w\<rparr>) v = trade_with order p e v"
  by (simp_all add: trade_with_def)

section \<open>What filling does\<close>

lemma fill_left_over: "fill order n q = Traded ts m r \<Longrightarrow> m \<noteq> 0 \<Longrightarrow> r = []"
  by (induction order n q arbitrary: ts m r rule: fill.induct)
    (auto split: if_splits fill_result.splits)

lemma fill_no_trade: "fill order n q = Traded [] m r \<Longrightarrow> m = n"
  by (cases "(order, n, q)" rule: fill.cases) (auto split: if_splits fill_result.splits)

lemma fill_append:
  "q \<noteq> [] \<or> n \<noteq> 0 \<Longrightarrow> fill order n (q @ q') =
     (case fill order n q of
        Own_order_reached \<Rightarrow> Own_order_reached
      | Traded ts m r \<Rightarrow>
          (if m = 0 then Traded ts 0 (r @ q')
           else case fill order m q' of
                  Own_order_reached \<Rightarrow> Own_order_reached
                | Traded ts' m' r' \<Rightarrow> Traded (ts @ ts') m' r'))"
proof (induction order n q rule: fill.induct)
  case (1 order n)
  then show ?case by (simp split: fill_result.split)
next
  case (2 order n p e q)
  then show ?case by (auto split: fill_result.splits)
qed

text \<open>No volume is created or lost: neither by the order, nor by the queue.\<close>

lemma fill_conserves:
  "fill order n q = Traded ts m r \<Longrightarrow>
   unat n = traded_volume ts + unat m \<and> volume_of q = traded_volume ts + volume_of r"
proof (induction order n q arbitrary: ts m r rule: fill.induct)
  case (1 order n)
  then show ?case by simp
next
  case (2 order n p e q)
  let ?v = "en_remaining_volume e"
  consider (lt) "n < ?v" | (eq) "n = ?v" | (gt) "?v < n" by fastforce
  then show ?case
  proof cases
    case lt
    then have "unat (?v - n) = unat ?v - unat n" "unat n \<le> unat ?v"
      by (auto simp: unat_sub_exact word_le_nat_alt word_less_nat_alt)
    with lt "2.prems" show ?thesis by (auto split: if_splits)
  next
    case eq
    with "2.prems" show ?thesis by (auto split: if_splits)
  next
    case gt
    then have neg: "\<not> n < ?v" "n \<noteq> ?v" "oi_account_id order \<noteq> en_account_id e"
      using "2.prems" by auto
    with "2.prems" obtain ts' where rec: "fill order (n - ?v) q = Traded ts' m r"
      and ts: "ts = trade_with order p e ?v # ts'"
      by (auto split: fill_result.splits)
    have "unat n = unat (n - ?v) + unat ?v"
      using gt by (auto simp: unat_sub_exact word_le_nat_alt word_less_nat_alt)
    with "2.IH" [OF neg(3,1,2) rec] show ?thesis by (simp only: ts volume_simps trade_with_simps) simp
  qed
qed

text \<open>Each trade is with an order of the queue, at that order's price, for no more than its volume,
  and never with the taker's own account.\<close>

lemma fill_trades:
  "fill order n q = Traded ts m r \<Longrightarrow> t \<in> set ts \<Longrightarrow>
   \<exists>e. (tx_price t, e) \<in> set q \<and> tx_order_id_maker t = en_order_id e \<and>
       tx_volume t \<le> en_remaining_volume e \<and> en_account_id e \<noteq> oi_account_id order \<and>
       tx_taker_side t = oi_side order \<and> tx_order_id_taker t = oi_id order"
proof (induction order n q arbitrary: ts m r rule: fill.induct)
  case (2 order n p e q)
  show ?case
  proof (cases "\<not> n < en_remaining_volume e \<and> n \<noteq> en_remaining_volume e \<and> t \<noteq> hd ts")
    case True
    with 2 show ?thesis by (auto split: if_splits fill_result.splits)
  next
    case False
    with "2.prems" have "t = trade_with order p e (tx_volume t)"
      and "tx_volume t \<le> en_remaining_volume e" and "oi_account_id order \<noteq> en_account_id e"
      by (auto split: if_splits fill_result.splits)
    then show ?thesis by (intro exI [of _ e]) (metis list.set_intros(1) trade_with_simps(1,3,4,5))
  qed
qed simp

text \<open>What is left of a queue: a suffix of it, its head perhaps with a lower volume.\<close>

inductive remainder ::
    "('p \<times> orderbook_entry) list \<Rightarrow> ('p \<times> orderbook_entry) list \<Rightarrow> bool" where
  remainder_same: "remainder q q"
| remainder_reduced:
    "0 < v \<Longrightarrow> v \<le> en_remaining_volume e \<Longrightarrow>
     remainder ((p, e) # q) ((p, e\<lparr>en_remaining_volume := v\<rparr>) # q)"
| remainder_skip: "remainder q r \<Longrightarrow> remainder (x # q) r"

inductive_cases remainder_NilE: "remainder [] r"

lemma fill_remainder: "fill order n q = Traded ts m r \<Longrightarrow> remainder q r"
proof (induction order n q arbitrary: ts m r rule: fill.induct)
  case (1 order n)
  then show ?case by (simp add: remainder_same)
next
  case (2 order n p e q)
  let ?v = "en_remaining_volume e"
  consider (lt) "n < ?v" | (eq) "n = ?v" | (gt) "?v < n" by fastforce
  then show ?case
  proof cases
    case lt
    then have "0 < ?v - n" "?v - n \<le> ?v"
      by (auto simp: word_less_nat_alt word_le_nat_alt unat_sub_exact less_imp_le)
    with lt "2.prems" show ?thesis by (auto split: if_splits intro: remainder_reduced)
  next
    case eq
    with "2.prems" show ?thesis
      by (auto split: if_splits intro: remainder_skip remainder_same)
  next
    case gt
    with "2.prems" "2.IH" show ?thesis
      by (auto split: if_splits fill_result.splits intro: remainder_skip)
  qed
qed

lemma remainder_entry:
  "remainder q r \<Longrightarrow> (p, d) \<in> set r \<Longrightarrow>
   \<exists>e. (p, e) \<in> set q \<and> en_order_id d = en_order_id e \<and> en_account_id d = en_account_id e \<and>
       en_remaining_volume d \<le> en_remaining_volume e"
  by (induction rule: remainder.induct) (auto 0 4)

lemma remainder_positive:
  "remainder q r \<Longrightarrow> \<forall>x \<in> set q. 0 < en_remaining_volume (snd x) \<Longrightarrow>
   \<forall>x \<in> set r. 0 < en_remaining_volume (snd x)"
  by (induction rule: remainder.induct) auto

lemma remainder_ids: "remainder q r \<Longrightarrow> \<exists>ids. entry_ids q = ids @ entry_ids r"
  by (induction rule: remainder.induct) (auto simp: entry_ids_def)

lemma remainder_distinct:
  "remainder q r \<Longrightarrow> distinct (entry_ids q) \<Longrightarrow> distinct (entry_ids r)"
  using remainder_ids by fastforce

lemma remainder_prices: "remainder q r \<Longrightarrow> \<exists>ps. map fst q = ps @ map fst r"
  by (induction rule: remainder.induct) auto

text \<open>
  When filling stops at an own order: the orders ahead of the first own order in the queue do not
  use up the incoming order.
\<close>

definition own_order_within ::
    "'p order_insertion \<Rightarrow> volume \<Rightarrow> ('p \<times> orderbook_entry) list \<Rightarrow> bool" where
  "own_order_within order n q \<longleftrightarrow>
     (\<exists>ahead own behind. q = ahead @ own # behind \<and>
        en_account_id (snd own) = oi_account_id order \<and>
        (\<forall>x \<in> set ahead. en_account_id (snd x) \<noteq> oi_account_id order) \<and>
        (ahead = [] \<or> volume_of ahead < unat n))"

lemma own_order_within_Cons_own:
  "en_account_id e = oi_account_id order \<Longrightarrow> own_order_within order n ((p, e) # q)"
  unfolding own_order_within_def by (rule exI [of _ "[]"]) simp

lemma own_order_within_Cons_other:
  assumes "en_account_id e \<noteq> oi_account_id order"
  shows "own_order_within order n ((p, e) # q) \<longleftrightarrow>
    en_remaining_volume e < n \<and> own_order_within order (n - en_remaining_volume e) q"
    (is "_ \<longleftrightarrow> ?v < n \<and> _")
proof
  assume "own_order_within order n ((p, e) # q)"
  then obtain ahead own behind where q: "(p, e) # q = ahead @ own # behind"
    and own: "en_account_id (snd own) = oi_account_id order"
    and other: "\<forall>x \<in> set ahead. en_account_id (snd x) \<noteq> oi_account_id order"
    and vol: "ahead = [] \<or> volume_of ahead < unat n"
    unfolding own_order_within_def by blast
  from q own assms obtain ahead' where a: "ahead = (p, e) # ahead'" "q = ahead' @ own # behind"
    by (cases ahead) auto
  with vol have lt: "unat ?v + volume_of ahead' < unat n" by simp
  then have v: "?v < n" by (simp add: word_less_nat_alt)
  moreover have "volume_of ahead' < unat (n - ?v)"
    using lt unat_sub_exact [OF less_imp_le [OF v]] by simp
  moreover have "\<forall>x \<in> set ahead'. en_account_id (snd x) \<noteq> oi_account_id order"
    using other a(1) by simp
  ultimately show "?v < n \<and> own_order_within order (n - ?v) q"
    using own a(2) unfolding own_order_within_def by blast
next
  assume "?v < n \<and> own_order_within order (n - ?v) q"
  then obtain ahead own behind where v: "?v < n" and q: "q = ahead @ own # behind"
    and own: "en_account_id (snd own) = oi_account_id order"
    and other: "\<forall>x \<in> set ahead. en_account_id (snd x) \<noteq> oi_account_id order"
    and vol: "ahead = [] \<or> volume_of ahead < unat (n - ?v)"
    unfolding own_order_within_def by blast
  have "unat (n - ?v) = unat n - unat ?v" "unat ?v < unat n"
    using v unat_sub_exact [OF less_imp_le [OF v]] by (simp_all add: word_less_nat_alt)
  with vol have "volume_of ((p, e) # ahead) < unat n" by auto
  with q own other assms show "own_order_within order n ((p, e) # q)"
    unfolding own_order_within_def by (intro exI [of _ "(p, e) # ahead"] exI) auto
qed

lemma fill_own_iff: "fill order n q = Own_order_reached \<longleftrightarrow> own_order_within order n q"
proof (induction order n q rule: fill.induct)
  case (1 order n)
  then show ?case by (simp add: own_order_within_def)
next
  case (2 order n p e q)
  show ?case
  proof (cases "oi_account_id order = en_account_id e")
    case True
    then show ?thesis by (simp add: own_order_within_Cons_own)
  next
    case other: False
    then have step: "own_order_within order n ((p, e) # q) \<longleftrightarrow>
        en_remaining_volume e < n \<and> own_order_within order (n - en_remaining_volume e) q"
      by (intro own_order_within_Cons_other) simp
    show ?thesis
    proof (cases "en_remaining_volume e < n")
      case True
      then have "\<not> n < en_remaining_volume e" "n \<noteq> en_remaining_volume e" by auto
      with "2.IH" [OF other this] True other show ?thesis
        unfolding step by (auto split: fill_result.split)
    next
      case False
      with other show ?thesis unfolding step by auto
    qed
  qed
qed

section \<open>The inner loop fills one level\<close>

lemma match_level_Cons:
  "match_level order p (e # es) n buf =
     (if oi_account_id order = en_account_id e
      then Level_self_trade
        (e\<lparr>en_remaining_volume := en_remaining_volume e - min n (en_remaining_volume e)\<rparr> # es) buf
      else if n < en_remaining_volume e
      then Level_done (e\<lparr>en_remaining_volume := en_remaining_volume e - n\<rparr> # es) 0
             (buf @ [trade_with order p e n]) (Some p)
      else if n = en_remaining_volume e
      then Level_done es 0 (buf @ [trade_with order p e n]) (Some p)
      else match_level order p es (n - en_remaining_volume e)
             (buf @ [trade_with order p e (en_remaining_volume e)]))"
  by (auto simp: min_def not_less Let_def)

declare match_level.simps(2) [simp del]

lemma match_level_fill:
  "fill order n (map (Pair p) es) = Traded ts m r \<Longrightarrow>
   \<exists>es'. r = map (Pair p) es' \<and>
     match_level order p es n buf =
       Level_done es' m (buf @ ts) (if ts \<noteq> [] \<and> m = 0 then Some p else None)"
proof (induction es arbitrary: n ts buf)
  case Nil
  then show ?case by simp
next
  case (Cons e es)
  show ?case
  proof (cases "en_remaining_volume e < n")
    case True
    with Cons.prems obtain ts' where
      rec: "fill order (n - en_remaining_volume e) (map (Pair p) es) = Traded ts' m r"
      and ts: "ts = trade_with order p e (en_remaining_volume e) # ts'"
      and other: "oi_account_id order \<noteq> en_account_id e"
      by (auto split: if_splits fill_result.splits)
    from True have "n - en_remaining_volume e \<noteq> 0" by auto
    with rec have "ts' = [] \<Longrightarrow> m \<noteq> 0" by (auto dest: fill_no_trade)
    with Cons.IH [OF rec, of "buf @ [trade_with order p e (en_remaining_volume e)]"] True other ts
    show ?thesis by (auto simp: match_level_Cons)
  next
    case False
    then consider "n < en_remaining_volume e" | "n = en_remaining_volume e" by fastforce
    then show ?thesis
    proof cases
      assume "n < en_remaining_volume e"
      with Cons.prems show ?thesis
        by (intro exI [of _ "e\<lparr>en_remaining_volume := en_remaining_volume e - n\<rparr> # es"])
          (auto simp: match_level_Cons split: if_splits)
    next
      assume "n = en_remaining_volume e"
      with Cons.prems show ?thesis by (auto simp: match_level_Cons split: if_splits)
    qed
  qed
qed

lemma match_level_own:
  "fill order n (map (Pair p) es) = Own_order_reached \<Longrightarrow>
   \<exists>es' buf'. match_level order p es n buf = Level_self_trade es' buf'"
proof (induction es arbitrary: n buf)
  case (Cons e es)
  then show ?case
    by (auto simp: match_level_Cons split: if_splits fill_result.splits)
qed simp

text \<open>On every book: while volume is left, the level was emptied.\<close>

lemma match_level_left_over:
  "match_level order p es n buf = Level_done es' m buf' l \<Longrightarrow> m \<noteq> 0 \<Longrightarrow> es' = [] \<and> l = None"
  by (induction order p es n buf rule: match_level.induct)
    (auto simp: Let_def match_level.simps split: if_splits)

section \<open>The outer loop fills the levels within reach\<close>

definition within_reach :: "'p::linorder order_insertion \<Rightarrow> 'p levels \<Rightarrow> 'p levels" where
  "within_reach order ls = takeWhile (\<lambda>l. \<not> price_out_of_reach order (fst l)) ls"

definition beyond_reach :: "'p::linorder order_insertion \<Rightarrow> 'p levels \<Rightarrow> 'p levels" where
  "beyond_reach order ls = dropWhile (\<lambda>l. \<not> price_out_of_reach order (fst l)) ls"

lemma reach_simps [simp]:
  "within_reach order [] = []"
  "beyond_reach order [] = []"
  "within_reach order ((p, es) # ls) =
     (if price_out_of_reach order p then [] else (p, es) # within_reach order ls)"
  "beyond_reach order ((p, es) # ls) =
     (if price_out_of_reach order p then (p, es) # ls else beyond_reach order ls)"
  by (simp_all add: within_reach_def beyond_reach_def)

lemma reach_append: "within_reach order ls @ beyond_reach order ls = ls"
  by (simp add: within_reach_def beyond_reach_def)

text \<open>On every book: prices stay, and while volume is left exactly the levels out of reach stay.\<close>

text \<open>A level that is used up, while the order is not.\<close>

lemma match_levels_on:
  assumes "\<not> price_out_of_reach order price" and "match_level order price es n buf = Level_done [] m buf' l"
    and "m \<noteq> 0"
  shows "match_levels order ((price, es) # ls) n buf d =
    (case match_levels order ls m buf' (Suc d) of
       Loop_self_trade ls' b \<Rightarrow> Loop_self_trade ((price, []) # ls') b
     | Loop_done ls' m' b l' d' \<Rightarrow> Loop_done ((price, []) # ls') m' b (if l' = None then l else l') d')"
  using assms by (simp add: Let_def)

lemma match_levels_prices:
  "(\<forall>ls' m buf' l d'. match_levels order ls n buf d = Loop_done ls' m buf' l d' \<longrightarrow>
      map fst ls' = map fst ls \<and> d \<le> d' \<and>
      (m \<noteq> 0 \<longrightarrow> drop (d' - d) ls' = beyond_reach order ls))
   \<and> (\<forall>ls' buf'. match_levels order ls n buf d = Loop_self_trade ls' buf' \<longrightarrow>
      map fst ls' = map fst ls)"
proof (induction order ls n buf d rule: match_levels.induct)
  case (1 order remaining buf deletions)
  then show ?case by simp
next
  case (2 order price es ls remaining buf deletions)
  show ?case
  proof (cases "price_out_of_reach order price")
    case True
    then show ?thesis by simp
  next
    case in_reach: False
    show ?thesis
    proof (cases "match_level order price es remaining buf")
      case (Level_self_trade es' buf')
      with in_reach show ?thesis by simp
    next
      case (Level_done es' m buf' l)
      show ?thesis
      proof (cases "m \<le> 0")
        case True
        with in_reach Level_done show ?thesis by (auto simp: Let_def)
      next
        case False
        with Level_done have "es' = []" by (auto dest: match_level_left_over)
        note ih = "2.IH" [OF in_reach Level_done refl False]
        have "m \<noteq> 0" using False by simp
        note step = match_levels_on [OF in_reach Level_done [unfolded \<open>es' = []\<close>] this, of ls deletions]
        show ?thesis
        proof (cases "match_levels order ls m buf' (Suc deletions)")
          case (Loop_self_trade ls' b)
          with ih \<open>es' = []\<close> show ?thesis by (simp only: step) simp
        next
          case (Loop_done ls' m' b l' d')
          with ih \<open>es' = []\<close> have "map fst ls' = map fst ls" "Suc deletions \<le> d'"
            "m' \<noteq> 0 \<longrightarrow> drop (d' - Suc deletions) ls' = beyond_reach order ls"
            by simp_all
          moreover from this(2) have "d' - deletions = Suc (d' - Suc deletions)" by simp
          ultimately show ?thesis using in_reach by (simp only: step Loop_done) simp
        qed
      qed
    qed
  qed
qed

text \<open>
  The loop is \<open>fill\<close> on the flat queue within reach. The one exception is an incoming order
  without volume that meets an empty level, which ends the loop there.
\<close>

definition matchable :: "'p levels \<Rightarrow> volume \<Rightarrow> bool" where
  "matchable ls n \<longleftrightarrow> n \<noteq> 0 \<or> (\<forall>l \<in> set ls. snd l \<noteq> [])"

lemma matchable_clean: "clean ls \<Longrightarrow> matchable ls n"
  by (auto simp: matchable_def clean_def clean_level_def)

lemma matchable_volume: "n \<noteq> 0 \<Longrightarrow> matchable ls n"
  by (simp add: matchable_def)

definition last_price :: "'p ob_transaction_buffer \<Rightarrow> volume \<Rightarrow> 'p option" where
  "last_price ts m = (if ts \<noteq> [] \<and> m = 0 then Some (tx_price (last ts)) else None)"

lemma fill_level_append:
  "matchable ((p, es) # ls) n \<Longrightarrow> fill order n (map (Pair p) es @ q) =
     (case fill order n (map (Pair p) es) of
        Own_order_reached \<Rightarrow> Own_order_reached
      | Traded ts m r \<Rightarrow>
          (if m = 0 then Traded ts 0 (r @ q)
           else case fill order m q of
                  Own_order_reached \<Rightarrow> Own_order_reached
                | Traded ts' m' r' \<Rightarrow> Traded (ts @ ts') m' r'))"
  by (rule fill_append) (auto simp: matchable_def)

lemma match_levels_own:
  "matchable ls n \<Longrightarrow> fill order n (flat (within_reach order ls)) = Own_order_reached \<Longrightarrow>
   \<exists>ls' buf'. match_levels order ls n buf d = Loop_self_trade ls' buf'"
proof (induction order ls n buf d rule: match_levels.induct)
  case (1 order remaining buf deletions)
  then show ?case by simp
next
  case (2 order p es ls n buf d)
  from "2.prems" have in_reach: "\<not> price_out_of_reach order p"
    by (auto split: if_splits)
  have app: "fill order n (map (Pair p) es @ flat (within_reach order ls)) = Own_order_reached"
    using "2.prems" in_reach by simp
  show ?case
  proof (cases "fill order n (map (Pair p) es)")
    case Own_order_reached
    from match_level_own [OF this, of buf] in_reach show ?thesis by auto
  next
    case (Traded ts m r)
    then obtain es' where ml: "match_level order p es n buf =
        Level_done es' m (buf @ ts) (if ts \<noteq> [] \<and> m = 0 then Some p else None)"
      using match_level_fill [OF Traded, of buf] by blast
    from app Traded have m: "m \<noteq> 0"
      and rec: "fill order m (flat (within_reach order ls)) = Own_order_reached"
      by (auto simp: fill_level_append [OF "2.prems"(1)] split: if_splits fill_result.splits)
    from m have "\<not> m \<le> 0" by simp
    from "2.IH" [OF in_reach ml refl this matchable_volume [OF m] rec] in_reach ml m show ?thesis
      by (auto simp: Let_def)
  qed
qed

lemma clean_rest:
  assumes "\<forall>e \<in> set es. 0 < en_remaining_volume e" and "fill order n (map (Pair p) es) = Traded ts m (map (Pair p) es')"
  shows "\<forall>e \<in> set es'. 0 < en_remaining_volume e"
  using remainder_positive [OF fill_remainder [OF assms(2)]] assms(1)
  by auto

text \<open>Filling a level that is within reach: the order ends there, or the level does and the rest goes on.\<close>

lemma fill_first_level:
  assumes "matchable ((p, es) # ls) n" and "\<not> price_out_of_reach order p"
    and "fill order n (flat (within_reach order ((p, es) # ls))) = Traded ts m r"
  obtains (ends) es' where "fill order n (map (Pair p) es) = Traded ts 0 (map (Pair p) es')" and "m = 0"
    and "match_level order p es n buf = Level_done es' 0 (buf @ ts) (last_price ts 0)"
    and "r = map (Pair p) es' @ flat (within_reach order ls)"
  | (goes_on) ts1 m1 ts2 where "fill order n (map (Pair p) es) = Traded ts1 m1 []" and "m1 \<noteq> 0"
    and "match_level order p es n buf = Level_done [] m1 (buf @ ts1) None"
    and "fill order m1 (flat (within_reach order ls)) = Traded ts2 m r" and "ts = ts1 @ ts2"
proof -
  note app = fill_level_append [OF assms(1)]
  have all: "fill order n (map (Pair p) es @ flat (within_reach order ls)) = Traded ts m r"
    using assms(2,3) by simp
  then obtain ts1 m1 r1 where lv: "fill order n (map (Pair p) es) = Traded ts1 m1 r1"
    by (cases "fill order n (map (Pair p) es)") (auto simp: app)
  obtain es' where r1: "r1 = map (Pair p) es'"
    and ml: "match_level order p es n buf =
      Level_done es' m1 (buf @ ts1) (if ts1 \<noteq> [] \<and> m1 = 0 then Some p else None)"
    using match_level_fill [OF lv, of buf] by blast
  show thesis
  proof (cases "m1 = 0")
    case True
    with all lv have ts: "ts = ts1" "m = 0" and "r = r1 @ flat (within_reach order ls)"
      by (auto simp: app)
    moreover have "ts1 \<noteq> [] \<Longrightarrow> tx_price (last ts1) = p"
      using fill_trades [OF lv] by (fastforce dest: last_in_set)
    then have "last_price ts 0 = (if ts1 \<noteq> [] \<and> m1 = 0 then Some p else None)"
      by (simp add: last_price_def ts True)
    ultimately show thesis using lv ml r1 True by (intro ends) simp_all
  next
    case False
    from all lv False obtain ts2 where "fill order m1 (flat (within_reach order ls)) = Traded ts2 m r"
      and "ts = ts1 @ ts2"
      by (auto simp: app split: fill_result.splits)
    with fill_left_over [OF lv False] r1 ml lv False show thesis by (intro goes_on) simp_all
  qed
qed

lemma match_levels_fill:
  "matchable ls n \<Longrightarrow> fill order n (flat (within_reach order ls)) = Traded ts m r \<Longrightarrow>
   \<exists>ls' d'. match_levels order ls n buf d = Loop_done ls' m (buf @ ts) (last_price ts m) (d + d') \<and>
     flat (drop d' ls') = r @ flat (beyond_reach order ls) \<and>
     (clean ls \<longrightarrow> clean (drop d' ls'))"
proof (induction order ls n buf d arbitrary: ts rule: match_levels.induct)
  case (1 order remaining buf deletions)
  then show ?case by (simp add: last_price_def)
next
  case (2 order p es ls n buf d)
  show ?case
  proof (cases "price_out_of_reach order p")
    case True
    with "2.prems" show ?thesis by (intro exI [of _ "(p, es) # ls"] exI [of _ 0])
      (simp add: last_price_def)
  next
    case in_reach: False
    show ?thesis
    proof (cases rule: fill_first_level [OF "2.prems"(1) in_reach "2.prems"(2), of buf, case_names ends goes_on])
      case (ends es')
      have "flat (within_reach order ls) @ flat (beyond_reach order ls) = flat ls"
        by (simp only: flat_simps(3) [symmetric] reach_append)
      moreover have "clean_level es \<Longrightarrow> \<forall>e \<in> set es'. 0 < en_remaining_volume e"
        using clean_rest [OF _ ends(1)] by (simp add: clean_level_def)
      ultimately show ?thesis using in_reach ends
        by (intro exI [of _ "(p, es') # ls"] exI [of _ "if es' = [] then 1 else 0"])
          (auto simp: clean_level_def)
    next
      case (goes_on ts1 m1 ts2)
      then have "\<not> m1 \<le> 0" by simp
      from "2.IH" [OF in_reach goes_on(3) refl this matchable_volume [OF goes_on(2)] goes_on(4)]
      obtain ls' d' where
        ih: "match_levels order ls m1 (buf @ ts1) (Suc d) =
            Loop_done ls' m ((buf @ ts1) @ ts2) (last_price ts2 m) (Suc d + d')"
          "flat (drop d' ls') = r @ flat (beyond_reach order ls)" "clean ls \<longrightarrow> clean (drop d' ls')"
        by auto
      have "ts2 = [] \<Longrightarrow> m \<noteq> 0" using goes_on(2,4) by (auto dest: fill_no_trade)
      then have "last_price ts m = last_price ts2 m" by (auto simp: last_price_def goes_on(5))
      with in_reach goes_on(5) ih match_levels_on [OF in_reach goes_on(3,2), of ls d] show ?thesis
        by (intro exI [of _ "(p, []) # ls'"] exI [of _ "Suc d'"]) simp
    qed
  qed
qed

section \<open>What a self-trade leaves behind\<close>

lemma match_level_self_trade_loses:
  "match_level order p es n buf = Level_self_trade es' buf' \<Longrightarrow> n \<noteq> 0 \<Longrightarrow>
   \<forall>e \<in> set es. 0 < en_remaining_volume e \<Longrightarrow>
   \<exists>ts. buf' = buf @ ts \<and>
     volume_of (map (Pair p) es') + traded_volume ts < volume_of (map (Pair p) es)"
proof (induction es arbitrary: n buf)
  case Nil
  then show ?case by simp
next
  case (Cons e es)
  let ?v = "en_remaining_volume e"
  show ?case
  proof (cases "oi_account_id order = en_account_id e")
    case True
    have "min n ?v \<noteq> 0" using Cons.prems(2,3) by (auto simp: min_def)
    then have "?v - min n ?v < ?v" by (rule u32_sub_less) simp
    with True Cons.prems(1) show ?thesis
      by (auto simp: match_level_Cons word_less_nat_alt)
  next
    case False
    with Cons.prems(1) have "\<not> n < ?v" "n \<noteq> ?v"
      and rec: "match_level order p es (n - ?v) (buf @ [trade_with order p e ?v]) =
        Level_self_trade es' buf'"
      by (auto simp: match_level_Cons split: if_splits)
    then have "n - ?v \<noteq> 0" by simp
    from Cons.IH [OF rec this] Cons.prems(3) show ?thesis by force
  qed
qed

lemma match_level_done_conserves:
  assumes "match_level order p es n buf = Level_done es' m buf' l"
  shows "\<exists>ts. buf' = buf @ ts \<and>
    volume_of (map (Pair p) es') + traded_volume ts = volume_of (map (Pair p) es)"
proof (cases "fill order n (map (Pair p) es)")
  case Own_order_reached
  from match_level_own [OF this, of buf] assms show ?thesis by simp
next
  case (Traded ts k r)
  from match_level_fill [OF this, of buf] assms fill_conserves [OF this] show ?thesis by auto
qed

lemma match_levels_self_trade_loses:
  "match_levels order ls n buf d = Loop_self_trade ls' buf' \<Longrightarrow> n \<noteq> 0 \<Longrightarrow> clean ls \<Longrightarrow>
   \<exists>ts. buf' = buf @ ts \<and> volume_of (flat ls') + traded_volume ts < volume_of (flat ls)"
proof (induction order ls n buf d arbitrary: ls' rule: match_levels.induct)
  case (1 order n buf d)
  then show ?case by simp
next
  case (2 order p es ls n buf d)
  from "2.prems"(1) have in_reach: "\<not> price_out_of_reach order p" by (auto split: if_splits)
  show ?case
  proof (cases "match_level order p es n buf")
    case (Level_self_trade es' b)
    with "2.prems" in_reach have "ls' = (p, es') # ls" "buf' = b" by simp_all
    with match_level_self_trade_loses [OF Level_self_trade "2.prems"(2)] "2.prems"(3)
    show ?thesis by (auto simp: clean_level_def)
  next
    case (Level_done es' m b l)
    with "2.prems"(1) in_reach have m: "\<not> m \<le> 0" by (auto simp: Let_def split: if_splits)
    with "2.prems"(1) in_reach Level_done obtain ls1 where
      rec: "match_levels order ls m b (if es' = [] then d + 1 else d) = Loop_self_trade ls1 buf'"
      and ls': "ls' = (p, es') # ls1"
      by (auto simp: Let_def split: loop_outcome.splits)
    obtain ts1 where "b = buf @ ts1"
      "volume_of (map (Pair p) es') + traded_volume ts1 = volume_of (map (Pair p) es)"
      using match_level_done_conserves [OF Level_done] by blast
    moreover obtain ts2 where "buf' = b @ ts2"
      "volume_of (flat ls1) + traded_volume ts2 < volume_of (flat ls)"
      using "2.IH" [OF in_reach Level_done refl m rec] m "2.prems"(3) by auto
    ultimately show ?thesis unfolding ls' by (intro exI [of _ "ts1 @ ts2"]) simp
  qed
qed

end
