(* ===== verification/Insertion.thy ===== *)
theory Insertion
  imports Price_Time
begin

text \<open>
  What \<open>Orderbook::insert_order\<close> does to a book: the refinement of the whole operation by
  \<open>fill\<close> on the crossing queue, the all-or-nothing behaviour of Fill-or-Kill and Market orders,
  and the invariants every path keeps. The locale \<open>price_priority\<close> is what the iteration order of
  a side owes the matching loop: the prices an order can reach come first.
\<close>

section \<open>Priority of prices\<close>

locale price_priority =
  fixes better :: "'p \<Rightarrow> 'p \<Rightarrow> bool" and reach :: "'p \<Rightarrow> bool"
  assumes reach_better: "reach p \<Longrightarrow> better q p \<Longrightarrow> reach q"
begin

lemma beyond_stays:
  "sorted_wrt better (map fst (l # ls)) \<Longrightarrow> \<not> reach (fst l) \<Longrightarrow> x \<in> set ls \<Longrightarrow> \<not> reach (fst x)"
  using reach_better by auto

lemma takeWhile_reach:
  "sorted_wrt better (map fst ls) \<Longrightarrow>
   takeWhile (\<lambda>l. reach (fst l)) ls = filter (\<lambda>l. reach (fst l)) ls"
proof (induction ls)
  case (Cons l ls)
  then show ?case
    using beyond_stays [OF Cons.prems] by (auto simp: filter_empty_conv)
qed simp

lemma dropWhile_reach:
  "sorted_wrt better (map fst ls) \<Longrightarrow>
   dropWhile (\<lambda>l. reach (fst l)) ls = filter (\<lambda>l. \<not> reach (fst l)) ls"
proof (induction ls)
  case (Cons l ls)
  then show ?case
    using beyond_stays [OF Cons.prems] by (auto simp: filter_id_conv)
qed simp

end

interpretation asks_within: price_priority "(<)" "\<lambda>p. p \<le> (limit :: 'p::linorder)" for limit
  by unfold_locales auto

interpretation bids_within: price_priority "\<lambda>p q. q < p" "\<lambda>p. (limit :: 'p::linorder) \<le> p" for limit
  by unfold_locales auto

interpretation any_price: price_priority better "\<lambda>_. True" for better
  by unfold_locales auto

lemma flat_filter:
  "flat (filter (\<lambda>l. P (fst l)) ls) = filter (\<lambda>x. P (fst x)) (flat ls)"
proof (induction ls)
  case (Cons l ls)
  obtain p es where "l = (p, es)" by (cases l)
  moreover have "filter (\<lambda>x. P (fst x)) (map (Pair p) es) = (if P p then map (Pair p) es else [])"
    by (induction es) auto
  ultimately show ?case using Cons by simp
qed simp

lemma sorted_best_first:
  assumes "sorted_keys ls"
  shows "sorted_wrt (case s of Ask \<Rightarrow> (<) | Bid \<Rightarrow> \<lambda>p q. q < p) (map fst (best_first s ls))"
  using assms
  by (cases s) (simp_all add: sorted_keys_def rev_map [symmetric] sorted_wrt_rev)

text \<open>On the side an order trades against, its levels within reach are a prefix.\<close>

lemma reach_filter:
  assumes "sorted_keys ls"
  shows "within_reach order (best_first (opposite (oi_side order)) ls) =
      filter (\<lambda>l. \<not> price_out_of_reach order (fst l)) (best_first (opposite (oi_side order)) ls)"
    and "beyond_reach order (best_first (opposite (oi_side order)) ls) =
      filter (\<lambda>l. price_out_of_reach order (fst l)) (best_first (opposite (oi_side order)) ls)"
proof -
  let ?ls = "best_first (opposite (oi_side order)) ls"
  note sorted = sorted_best_first [OF assms, of "opposite (oi_side order)"]
  have "within_reach order ?ls = filter (\<lambda>l. \<not> price_out_of_reach order (fst l)) ?ls \<and>
    beyond_reach order ?ls = filter (\<lambda>l. price_out_of_reach order (fst l)) ?ls"
  proof (cases "oi_order_type order = Market")
    case True
    then have "price_out_of_reach order = (\<lambda>_. False)"
      by (simp add: price_out_of_reach_def fun_eq_iff)
    then show ?thesis by (simp add: within_reach_def beyond_reach_def)
  next
    case False
    show ?thesis
    proof (cases "oi_side order")
      case Bid
      then have "\<And>p. price_out_of_reach order p \<longleftrightarrow> \<not> p \<le> oi_price order"
        using False by (auto simp: price_out_of_reach_def)
      then show ?thesis
        using asks_within.takeWhile_reach [of ?ls "oi_price order"]
          asks_within.dropWhile_reach [of ?ls "oi_price order"] sorted Bid
        by (simp add: within_reach_def beyond_reach_def)
    next
      case Ask
      then have "\<And>p. price_out_of_reach order p \<longleftrightarrow> \<not> oi_price order \<le> p"
        using False by (auto simp: price_out_of_reach_def)
      then show ?thesis
        using bids_within.takeWhile_reach [of ?ls "oi_price order"]
          bids_within.dropWhile_reach [of ?ls "oi_price order"] sorted Ask
        by (simp add: within_reach_def beyond_reach_def)
    qed
  qed
  then show "within_reach order ?ls = filter (\<lambda>l. \<not> price_out_of_reach order (fst l)) ?ls"
    and "beyond_reach order ?ls = filter (\<lambda>l. price_out_of_reach order (fst l)) ?ls"
    by simp_all
qed

section \<open>The queue an order trades against\<close>

definition opposite_queue :: "'p order_insertion \<Rightarrow> 'p orderbook \<Rightarrow> ('p \<times> orderbook_entry) list" where
  "opposite_queue order ob =
     (let s = opposite (oi_side order) in flat (best_first s (book_side s ob)))"

definition crossing_queue ::
    "'p::linorder order_insertion \<Rightarrow> 'p orderbook \<Rightarrow> ('p \<times> orderbook_entry) list" where
  "crossing_queue order ob =
     filter (\<lambda>x. \<not> price_out_of_reach order (fst x)) (opposite_queue order ob)"

definition untouched_queue ::
    "'p::linorder order_insertion \<Rightarrow> 'p orderbook \<Rightarrow> ('p \<times> orderbook_entry) list" where
  "untouched_queue order ob =
     filter (\<lambda>x. price_out_of_reach order (fst x)) (opposite_queue order ob)"

lemma crossing_within_reach:
  "sorted_keys (book_side (opposite (oi_side order)) ob) \<Longrightarrow>
   crossing_queue order ob =
     flat (within_reach order (best_first (opposite (oi_side order))
       (book_side (opposite (oi_side order)) ob)))"
  by (simp add: crossing_queue_def opposite_queue_def Let_def reach_filter
      flat_filter [where P = "\<lambda>p. \<not> price_out_of_reach order p"])

lemma untouched_beyond_reach:
  "sorted_keys (book_side (opposite (oi_side order)) ob) \<Longrightarrow>
   untouched_queue order ob =
     flat (beyond_reach order (best_first (opposite (oi_side order))
       (book_side (opposite (oi_side order)) ob)))"
  by (simp add: untouched_queue_def opposite_queue_def Let_def reach_filter
      flat_filter [where P = "price_out_of_reach order"])

text \<open>
  The premise of the refinement: the order has volume, or the side it trades against has no empty
  level.
\<close>

definition can_match :: "'p order_insertion \<Rightarrow> 'p orderbook \<Rightarrow> bool" where
  "can_match order ob \<longleftrightarrow>
     matchable (book_side (opposite (oi_side order)) ob) (oi_volume order)"

lemma matchable_best_first [simp]: "matchable (best_first s ls) n = matchable ls n"
  by (simp add: matchable_def)

lemma can_match_clean: "book_clean ob \<Longrightarrow> can_match order ob"
  by (simp add: can_match_def matchable_clean book_clean_side)

lemma can_match_volume: "0 < oi_volume order \<Longrightarrow> can_match order ob"
  by (auto simp: can_match_def intro: matchable_volume)

text \<open>The book after the matching loops and the clean-up, before what is left comes to rest.\<close>

definition matched_book :: "'p order_insertion \<Rightarrow> 'p levels \<Rightarrow> nat \<Rightarrow> 'p orderbook \<Rightarrow> 'p orderbook" where
  "matched_book order ls d ob =
     (let s = opposite (oi_side order) in set_book_side s (best_first s (drop d ls)) ob)"

lemma ob_insert_order_Traded:
  assumes "check_volume b order ob = Some (Inr ())"
    and "sorted_keys (book_side (opposite (oi_side order)) ob)"
    and "can_match order ob"
    and "fill order (oi_volume order) (crossing_queue order ob) = Traded ts m r"
  obtains ls d where
    "ob_insert_order b order ob buf =
       Some (Inr \<lparr>ef_status = (if 0 < m then AwaitingFill else Filled),
                  ef_last_traded_price = last_price ts m\<rparr>,
             (if 0 < m then insert_limit_order_no_matching (order\<lparr>oi_volume := m\<rparr>)
                              (matched_book order ls d ob)
              else matched_book order ls d ob),
             buf @ ts)"
    and "flat (drop d ls) = r @ untouched_queue order ob"
    and "clean (book_side (opposite (oi_side order)) ob) \<Longrightarrow> clean (drop d ls)"
    and "map fst ls = map fst (best_first (opposite (oi_side order))
           (book_side (opposite (oi_side order)) ob))"
    and "m \<noteq> 0 \<Longrightarrow> drop d ls = beyond_reach order (best_first (opposite (oi_side order))
           (book_side (opposite (oi_side order)) ob))"
proof -
  let ?s = "opposite (oi_side order)"
  let ?ls = "best_first ?s (book_side ?s ob)"
  have "matchable ?ls (oi_volume order)" using assms(3) by (simp add: can_match_def)
  from match_levels_fill [OF this, of order ts m r buf 0]
    assms(4) [unfolded crossing_within_reach [OF assms(2)]]
  obtain ls d where ml: "match_levels order ?ls (oi_volume order) buf 0 =
      Loop_done ls m (buf @ ts) (last_price ts m) d"
    and fl: "flat (drop d ls) = r @ flat (beyond_reach order ?ls)"
    and cl: "clean ?ls \<longrightarrow> clean (drop d ls)"
    by auto
  have "map fst ls = map fst ?ls" "m \<noteq> 0 \<longrightarrow> drop d ls = beyond_reach order ?ls"
    using match_levels_prices [of order ?ls "oi_volume order" buf 0] ml by auto
  moreover have "ob_insert_order b order ob buf =
     Some (Inr \<lparr>ef_status = (if 0 < m then AwaitingFill else Filled),
                ef_last_traded_price = last_price ts m\<rparr>,
           (if 0 < m then insert_limit_order_no_matching (order\<lparr>oi_volume := m\<rparr>)
                            (matched_book order ls d ob)
            else matched_book order ls d ob),
           buf @ ts)"
    using assms(1) ml
    by (simp add: ob_insert_order_def Let_def delete_levels_best_first matched_book_def)
  ultimately show thesis using that [of ls d] fl cl
    by (simp add: untouched_beyond_reach [OF assms(2)])
qed

lemma ob_insert_order_Own:
  assumes "check_volume b order ob = Some (Inr ())"
    and "sorted_keys (book_side (opposite (oi_side order)) ob)"
    and "can_match order ob"
    and "fill order (oi_volume order) (crossing_queue order ob) = Own_order_reached"
  obtains ob' buf' where "ob_insert_order b order ob buf = Some (Inl SelfTrade, ob', buf')"
proof -
  let ?s = "opposite (oi_side order)"
  let ?ls = "best_first ?s (book_side ?s ob)"
  have "matchable ?ls (oi_volume order)" using assms(3) by (simp add: can_match_def)
  from match_levels_own [OF this, of order buf 0]
    assms(4) [unfolded crossing_within_reach [OF assms(2)]]
  obtain ls buf' where "match_levels order ?ls (oi_volume order) buf 0 = Loop_self_trade ls buf'"
    by blast
  with assms(1) that show thesis by (simp add: ob_insert_order_def Let_def)
qed

section \<open>The volume checks are sound\<close>

lemma scan_orders_le:
  "scan_orders b v a es = Some res \<Longrightarrow>
   (case res of
      Inl _ \<Rightarrow> unat v \<le> unat a + sum_list (map (unat \<circ> en_remaining_volume) es)
    | Inr a' \<Rightarrow> unat a' \<le> unat a + sum_list (map (unat \<circ> en_remaining_volume) es))"
proof (induction b v a es rule: scan_orders.induct)
  case (1 b v a)
  then show ?case by auto
next
  case (2 b v a e es)
  from "2.prems" obtain a' where add: "u32_add b a (en_remaining_volume e) = Some a'"
    by (auto split: option.splits)
  then have le: "unat a' \<le> unat a + unat (en_remaining_volume e)"
    using unat_add_le by (auto simp: u32_add_def split: if_splits)
  show ?case
  proof (cases "v \<le> a'")
    case True
    with "2.prems" add le show ?thesis by (auto simp: word_le_nat_alt)
  next
    case False
    with "2.prems" add have "scan_orders b v a' es = Some res" by simp
    from "2.IH" [OF add False this] le show ?thesis by (auto split: sum.splits)
  qed
qed

lemma volume_of_filter_flat_Cons:
  "volume_of (filter (\<lambda>x. P (fst x)) (flat ((p, es) # ls))) =
     (if P p then sum_list (map (unat \<circ> en_remaining_volume) es) else 0)
     + volume_of (filter (\<lambda>x. P (fst x)) (flat ls))"
proof -
  have "filter (\<lambda>x. P (fst x)) (map (Pair p) es) = (if P p then map (Pair p) es else [])"
    by (induction es) auto
  then show ?thesis by (simp add: volume_of_map_Pair)
qed

lemma volume_of_flat_rev:
  "volume_of (filter P (flat (rev ls))) = volume_of (filter P (flat ls))"
  by (induction ls) (auto simp: flat_def)

lemma crossing_volume:
  "volume_of (crossing_queue order ob) =
   volume_of (filter (\<lambda>x. \<not> price_out_of_reach order (fst x))
     (flat (book_side (opposite (oi_side order)) ob)))"
  by (cases "oi_side order")
    (simp_all add: crossing_queue_def opposite_queue_def volume_of_flat_rev)

lemma scan_levels_fok_sound:
  assumes "oi_order_type order \<noteq> Market"
  shows "scan_levels_fok b (oi_side order) v (oi_price order) a ls = Some (Inr ()) \<Longrightarrow>
    unat v \<le> unat a +
      volume_of (filter (\<lambda>x. \<not> price_out_of_reach order (fst x)) (flat ls))"
proof (induction ls arbitrary: a)
  case Nil
  then show ?case by simp
next
  case (Cons l ls)
  obtain p es where l: "l = (p, es)" by (cases l)
  have reach: "\<not> price_out_of_reach order p"
    using Cons.prems l by (auto simp: price_out_of_reach_def Let_def split: if_splits)
  then have "scan_levels_fok b (oi_side order) v (oi_price order) a (l # ls) =
     (case scan_orders b v a es of None \<Rightarrow> None | Some (Inl _) \<Rightarrow> Some (Inr ())
      | Some (Inr a') \<Rightarrow> scan_levels_fok b (oi_side order) v (oi_price order) a' ls)"
    using assms by (auto simp: l price_out_of_reach_def Let_def)
  with Cons.prems consider
    (hit) u where "scan_orders b v a es = Some (Inl u)"
  | (on) a' where "scan_orders b v a es = Some (Inr a')"
      "scan_levels_fok b (oi_side order) v (oi_price order) a' ls = Some (Inr ())"
    by (auto split: option.splits sum.splits)
  then show ?case
  proof cases
    case hit
    with scan_orders_le [OF hit] reach show ?thesis
      unfolding l volume_of_filter_flat_Cons [where P = "\<lambda>p. \<not> price_out_of_reach order p"] by simp
  next
    case on
    with scan_orders_le [OF on(1)] Cons.IH [OF on(2)] reach show ?thesis
      unfolding l volume_of_filter_flat_Cons [where P = "\<lambda>p. \<not> price_out_of_reach order p"] by simp
  qed
qed

lemma scan_levels_market_sound:
  "scan_levels_market b v a ls = Some (Inr ()) \<Longrightarrow> unat v \<le> unat a + volume_of (flat ls)"
proof (induction ls arbitrary: a)
  case Nil
  then show ?case by simp
next
  case (Cons l ls)
  obtain p es where l: "l = (p, es)" by (cases l)
  from Cons.prems consider
    (hit) u where "scan_orders b v a es = Some (Inl u)"
  | (on) a' where "scan_orders b v a es = Some (Inr a')"
      "scan_levels_market b v a' ls = Some (Inr ())"
    by (auto simp: l split: option.splits sum.splits)
  then show ?case
  proof cases
    case hit
    from scan_orders_le [OF hit] show ?thesis by (simp add: l volume_of_map_Pair)
  next
    case on
    from scan_orders_le [OF on(1)] Cons.IH [OF on(2)] show ?thesis
      by (simp add: l volume_of_map_Pair)
  qed
qed

lemma check_volume_sound:
  assumes "check_volume b order ob = Some (Inr ())" and "oi_order_type order \<noteq> Limit"
  shows "unat (oi_volume order) \<le> volume_of (crossing_queue order ob)"
proof (cases "oi_order_type order")
  case Limit
  with assms(2) show ?thesis by simp
next
  case FillOrKill
  with assms(1) have "scan_levels_fok b (oi_side order) (oi_volume order) (oi_price order) 0
      (book_side (opposite (oi_side order)) ob) = Some (Inr ())"
    by (cases "oi_side order") (simp_all add: check_volume_def enough_volume_fok_def)
  from scan_levels_fok_sound [OF _ this] FillOrKill show ?thesis
    by (simp add: crossing_volume)
next
  case Market
  with assms(1) have "scan_levels_market b (oi_volume order) 0
      (book_side (opposite (oi_side order)) ob) = Some (Inr ())"
    by (cases "oi_side order") (simp_all add: check_volume_def enough_volume_market_def)
  from scan_levels_market_sound [OF this] Market show ?thesis
    by (simp add: crossing_volume price_out_of_reach_def)
qed

text \<open>So an order of one of these two types is always used up by the loop.\<close>

lemma checked_order_used_up:
  assumes "check_volume b order ob = Some (Inr ())" and "oi_order_type order \<noteq> Limit"
    and "fill order (oi_volume order) (crossing_queue order ob) = Traded ts m r"
  shows "m = 0"
proof (rule ccontr)
  assume "m \<noteq> 0"
  with assms(3) have "r = []" by (rule fill_left_over)
  with fill_conserves [OF assms(3)] check_volume_sound [OF assms(1,2)] have "unat m = 0" by simp
  with \<open>m \<noteq> 0\<close> show False by (simp add: unat_eq_0)
qed

section \<open>Invariants on every path\<close>

lemma match_level_zero:
  "match_level order p es 0 buf = Level_done es' m buf' l \<Longrightarrow> m = 0"
  by (cases es) (auto simp: match_level_Cons word_gt_0 split: if_splits)

lemma match_levels_zero:
  "match_levels order ls 0 buf d = Loop_done ls' m buf' l d' \<Longrightarrow> m = 0"
proof (cases ls)
  case (Cons x ls1)
  assume "match_levels order ls 0 buf d = Loop_done ls' m buf' l d'"
  with Cons show ?thesis
    by (cases x) (auto simp: Let_def split: if_splits level_outcome.splits dest: match_level_zero)
qed simp

lemma sorted_keys_cong: "map fst m = map fst m' \<Longrightarrow> sorted_keys m = sorted_keys m'"
  by (simp add: sorted_keys_def)

lemma keys_cong: "map fst m = map fst m' \<Longrightarrow> keys m = keys m'"
  unfolding keys_def by (metis list.set_map)

lemma best_first_map: "best_first s (map f ls) = map f (best_first s ls)"
  by (cases s) (simp_all add: rev_map)

lemma sorted_matched_levels:
  assumes "sorted_keys ls" and "map fst ls' = map fst (best_first s ls)"
  shows "sorted_keys (best_first s (drop d ls'))"
proof -
  have "map fst (best_first s (drop d ls')) = best_first s (drop d (best_first s (map fst ls)))"
    by (simp add: best_first_map [symmetric] drop_map [symmetric] assms(2))
  moreover have "sorted_wrt (<) (best_first s (drop d (best_first s (map fst ls))))"
    using assms(1)
    by (cases s) (simp_all add: sorted_keys_def sorted_wrt_drop sorted_wrt_take rev_drop)
  ultimately show ?thesis by (simp add: sorted_keys_def)
qed

lemma keys_matched_levels:
  assumes "map fst ls' = map fst (best_first s ls)"
  shows "keys (best_first s (drop d ls')) \<subseteq> keys ls"
proof -
  have "keys (drop d ls') \<subseteq> keys ls'" by (auto simp: keys_def dest: in_set_dropD)
  also have "keys ls' = keys ls" using keys_cong [OF assms] by simp
  finally show ?thesis by simp
qed

text \<open>The three ways out of an insertion.\<close>

lemma ob_insert_order_cases:
  assumes "ob_insert_order b order ob buf = Some (res, ob', buf')"
  obtains
    (rejected) err where "check_volume b order ob = Some (Inl err)"
      and "res = Inl err" and "ob' = ob" and "buf' = buf"
  | (self_trade) ls where "check_volume b order ob = Some (Inr ())"
      and "match_levels order (best_first (opposite (oi_side order))
             (book_side (opposite (oi_side order)) ob)) (oi_volume order) buf 0
           = Loop_self_trade ls buf'"
      and "res = Inl SelfTrade" and "ob' = matched_book order ls 0 ob"
  | (inserted) ls m l d where "check_volume b order ob = Some (Inr ())"
      and "match_levels order (best_first (opposite (oi_side order))
             (book_side (opposite (oi_side order)) ob)) (oi_volume order) buf 0
           = Loop_done ls m buf' l d"
      and "res = Inr \<lparr>ef_status = (if 0 < m then AwaitingFill else Filled),
                      ef_last_traded_price = l\<rparr>"
      and "ob' = (if 0 < m then insert_limit_order_no_matching (order\<lparr>oi_volume := m\<rparr>)
                                 (matched_book order ls d ob)
                  else matched_book order ls d ob)"
  using assms
  by (auto simp: ob_insert_order_def Let_def matched_book_def delete_levels_best_first
      split: option.splits sum.splits loop_outcome.splits if_splits)

lemma matched_book_sorted:
  assumes "book_sorted ob"
    and "map fst ls = map fst (best_first (opposite (oi_side order))
           (book_side (opposite (oi_side order)) ob))"
  shows "book_sorted (matched_book order ls d ob)"
  using book_sorted_set [OF assms(1) sorted_matched_levels [OF book_sorted_side [OF assms(1)] assms(2)]]
  by (simp add: matched_book_def Let_def)

lemma matched_book_uncrossed:
  assumes "book_uncrossed ob"
    and "map fst ls = map fst (best_first (opposite (oi_side order))
           (book_side (opposite (oi_side order)) ob))"
  shows "book_uncrossed (matched_book order ls d ob)"
  using book_uncrossed_set_subset [OF assms(1) keys_matched_levels [OF assms(2)]]
  by (simp add: matched_book_def Let_def)

lemma insert_keeps_sorted:
  assumes "book_sorted ob" and "ob_insert_order b order ob buf = Some (res, ob', buf')"
  shows "book_sorted ob'"
  using assms(2)
proof (cases rule: ob_insert_order_cases)
  case (self_trade ls)
  then have "map fst ls = map fst (best_first (opposite (oi_side order))
      (book_side (opposite (oi_side order)) ob))"
    using match_levels_prices by blast
  with assms(1) self_trade(4) show ?thesis by (simp add: matched_book_sorted)
next
  case (inserted ls m l d)
  then have "map fst ls = map fst (best_first (opposite (oi_side order))
      (book_side (opposite (oi_side order)) ob))"
    using match_levels_prices by blast
  with assms(1) inserted(4) show ?thesis
    by (simp add: matched_book_sorted insert_no_matching_sorted)
qed (use assms(1) in simp)

text \<open>
  What is left of an order rests out of reach of everything that is left on the other side.
\<close>

lemma left_over_rests_uncrossed:
  assumes "book_sorted ob" and "check_volume b order ob = Some (Inr ())"
    and "match_levels order (best_first (opposite (oi_side order))
           (book_side (opposite (oi_side order)) ob)) (oi_volume order) buf 0
         = Loop_done ls m buf' l d"
    and "m \<noteq> 0"
  shows "rests_uncrossed (order\<lparr>oi_volume := m\<rparr>) (matched_book order ls d ob)"
proof -
  let ?s = "opposite (oi_side order)"
  let ?ls = "best_first ?s (book_side ?s ob)"
  note sorted = book_sorted_side [OF assms(1), of ?s]
  have n: "oi_volume order \<noteq> 0" using match_levels_zero assms(3,4) by metis
  then have cm: "can_match order ob" by (simp add: can_match_def matchable_volume)
  have limit: "oi_order_type order \<noteq> Market"
  proof
    assume mk: "oi_order_type order = Market"
    show False
    proof (cases "fill order (oi_volume order) (crossing_queue order ob)")
      case Own_order_reached
      from match_levels_own [of ?ls "oi_volume order" order buf 0] this n assms(3) show False
        by (simp add: crossing_within_reach [OF sorted] matchable_volume)
    next
      case (Traded ts k r)
      from match_levels_fill [of ?ls "oi_volume order" order ts k r buf 0] this n assms(3)
      have "k = m" by (auto simp: crossing_within_reach [OF sorted] matchable_volume)
      moreover have "k = 0" using checked_order_used_up [OF assms(2) _ Traded] mk by simp
      ultimately show False using assms(4) by simp
    qed
  qed
  have "drop d ls = beyond_reach order ?ls"
    using match_levels_prices [of order ?ls "oi_volume order" buf 0] assms(3,4) by simp
  then have out: "price_out_of_reach order p" if "p \<in> keys (drop d ls)" for p
    using that reach_filter(2) [OF sorted, of order] by (auto elim!: keysE)
  show ?thesis
    using out limit
    by (cases "oi_side order")
      (auto simp: rests_uncrossed_def matched_book_def price_out_of_reach_def)
qed

lemma insert_keeps_uncrossed:
  assumes "book_sorted ob" and "book_uncrossed ob"
    and "ob_insert_order b order ob buf = Some (res, ob', buf')"
  shows "book_uncrossed ob'"
  using assms(3)
proof (cases rule: ob_insert_order_cases)
  case (self_trade ls)
  then have "map fst ls = map fst (best_first (opposite (oi_side order))
      (book_side (opposite (oi_side order)) ob))"
    using match_levels_prices by blast
  with assms(2) self_trade(4) show ?thesis by (simp add: matched_book_uncrossed)
next
  case (inserted ls m l d)
  then have "map fst ls = map fst (best_first (opposite (oi_side order))
      (book_side (opposite (oi_side order)) ob))"
    using match_levels_prices by blast
  then have "book_uncrossed (matched_book order ls d ob)" using assms(2) by (rule matched_book_uncrossed [rotated])
  moreover have "m \<noteq> 0 \<Longrightarrow> rests_uncrossed (order\<lparr>oi_volume := m\<rparr>) (matched_book order ls d ob)"
    by (rule left_over_rests_uncrossed [OF assms(1) inserted(1,2)])
  ultimately show ?thesis
    using inserted(4) by (auto intro: insert_no_matching_uncrossed)
qed (use assms(2) in simp)

text \<open>A successful insertion leaves no empty level and no order without volume.\<close>

lemma insert_keeps_clean:
  assumes "book_sorted ob" and "book_clean ob"
    and "ob_insert_order b order ob buf = Some (Inr ef, ob', buf')"
  shows "book_clean ob'"
  using assms(3)
proof (cases rule: ob_insert_order_cases)
  case (inserted ls m l d)
  let ?s = "opposite (oi_side order)"
  let ?ls = "best_first ?s (book_side ?s ob)"
  note sorted = book_sorted_side [OF assms(1), of ?s]
  have prices: "map fst ls = map fst ?ls" using match_levels_prices inserted(2) by blast
  have cl: "clean ?ls" using assms(2) by (simp add: book_clean_side)
  have "clean (drop d ls)"
  proof (cases "fill order (oi_volume order) (crossing_queue order ob)")
    case Own_order_reached
    from match_levels_own [OF matchable_clean [OF cl], of order "oi_volume order" buf 0] this
      inserted(2)
    show ?thesis by (simp add: crossing_within_reach [OF sorted])
  next
    case (Traded ts k r)
    from match_levels_fill [OF matchable_clean [OF cl], of order "oi_volume order" ts k r buf 0]
      this inserted(2) cl
    show ?thesis by (auto simp: crossing_within_reach [OF sorted])
  qed
  then have "book_clean (matched_book order ls d ob)"
    using assms(2) by (simp add: matched_book_def Let_def book_clean_set)
  moreover have "book_sorted (matched_book order ls d ob)"
    using assms(1) prices by (rule matched_book_sorted)
  ultimately show ?thesis
    using inserted(4) by (auto intro: insert_no_matching_clean)
qed (use assms(2) in auto)

end
