(* ===== verification/Book_Views.thy ===== *)
theory Book_Views
  imports Insertion
begin

text \<open>
  The views of an order book that clients read: \<open>Orderbook::get_l1\<close> and \<open>Orderbook::get_l2\<close> of
  \<open>src/orderbook.rs\<close>. Each level is aggregated with \<open>Iterator::sum\<close> on \<open>u32\<close>, which
  panics on overflow in a build with overflow checks and wraps otherwise.
\<close>

record 'p price_level_aggregate =
  ag_price :: 'p
  ag_volume :: volume

record 'p orderbook_l1 =
  best_bid :: "'p price_level_aggregate option"
  best_ask :: "'p price_level_aggregate option"

record 'p orderbook_l2 =
  l2_bids :: "'p price_level_aggregate list"
  l2_asks :: "'p price_level_aggregate list"

definition aggregate_level ::
    "build \<Rightarrow> 'p \<times> orderbook_entry list \<Rightarrow> 'p price_level_aggregate option" where
  "aggregate_level b l =
     (case u32_sum b (map en_remaining_volume (snd l)) of
        None \<Rightarrow> None
      | Some v \<Rightarrow> Some \<lparr>ag_price = fst l, ag_volume = v\<rparr>)"

definition aggregate_best ::
    "build \<Rightarrow> ('p \<times> orderbook_entry list) option \<Rightarrow> 'p price_level_aggregate option option" where
  "aggregate_best b kv =
     (case kv of None \<Rightarrow> Some None | Some l \<Rightarrow> map_option Some (aggregate_level b l))"

definition ob_get_l1 :: "build \<Rightarrow> 'p orderbook \<Rightarrow> 'p orderbook_l1 option" where
  "ob_get_l1 b ob =
     (case aggregate_best b (last_key_value (bids ob)) of
        None \<Rightarrow> None
      | Some bb \<Rightarrow>
          (case aggregate_best b (first_key_value (asks ob)) of
             None \<Rightarrow> None
           | Some ba \<Rightarrow> Some \<lparr>best_bid = bb, best_ask = ba\<rparr>))"

fun aggregate_levels :: "build \<Rightarrow> 'p levels \<Rightarrow> 'p price_level_aggregate list option" where
  "aggregate_levels b [] = Some []"
| "aggregate_levels b (l # ls) =
     (case aggregate_level b l of
        None \<Rightarrow> None
      | Some a \<Rightarrow> (case aggregate_levels b ls of None \<Rightarrow> None | Some as \<Rightarrow> Some (a # as)))"

definition ob_get_l2 :: "build \<Rightarrow> 'p orderbook \<Rightarrow> 'p orderbook_l2 option" where
  "ob_get_l2 b ob =
     (case aggregate_levels b (bids ob) of
        None \<Rightarrow> None
      | Some bs \<Rightarrow>
          (case aggregate_levels b (asks ob) of
             None \<Rightarrow> None
           | Some as \<Rightarrow> Some \<lparr>l2_bids = bs, l2_asks = as\<rparr>))"

section \<open>Levels whose volume fits\<close>

definition level_total :: "orderbook_entry list \<Rightarrow> nat" where
  "level_total es = sum_list (map (unat \<circ> en_remaining_volume) es)"

definition levels_fit :: "'p levels \<Rightarrow> bool" where
  "levels_fit ls \<longleftrightarrow> (\<forall>l \<in> set ls. level_total (snd l) < 2 ^ 32)"

definition book_fits :: "'p orderbook \<Rightarrow> bool" where
  "book_fits ob \<longleftrightarrow> levels_fit (bids ob) \<and> levels_fit (asks ob)"

text \<open>What an aggregate says of a level.\<close>

definition describes :: "'p price_level_aggregate \<Rightarrow> 'p \<times> orderbook_entry list \<Rightarrow> bool" where
  "describes a l \<longleftrightarrow> ag_price a = fst l \<and> unat (ag_volume a) = level_total (snd l)"

lemma levels_fit_simps [simp]:
  "levels_fit []"
  "levels_fit (l # ls) \<longleftrightarrow> level_total (snd l) < 2 ^ 32 \<and> levels_fit ls"
  by (auto simp: levels_fit_def)

lemma aggregate_level_fits:
  assumes "level_total (snd l) < 2 ^ 32"
  shows "\<exists>a. aggregate_level b l = Some a \<and> describes a l"
proof -
  have "sum_list (map unat (map en_remaining_volume (snd l))) < 2 ^ 32"
    using assms by (simp add: level_total_def comp_def)
  then obtain r where "u32_sum b (map en_remaining_volume (snd l)) = Some r"
    and "unat r = sum_list (map unat (map en_remaining_volume (snd l)))"
    by (rule u32_sum_exact)
  then show ?thesis by (simp add: aggregate_level_def describes_def level_total_def comp_def)
qed

lemma aggregate_levels_fit:
  "levels_fit ls \<Longrightarrow> \<exists>as. aggregate_levels b ls = Some as \<and> list_all2 describes as ls"
proof (induction ls)
  case (Cons l ls)
  then show ?case using aggregate_level_fits [of l b] by auto
qed simp

lemma aggregate_level_Release: "\<exists>a. aggregate_level Release l = Some a"
  using u32_sum_from_Release [of 0 "map en_remaining_volume (snd l)"]
  by (auto simp: aggregate_level_def u32_sum_def)

lemma aggregate_levels_Release: "\<exists>as. aggregate_levels Release ls = Some as"
  using aggregate_level_Release by (induction ls) (force split: option.split)+

lemma get_l2_Release: "\<exists>v. ob_get_l2 Release ob = Some v"
  using aggregate_levels_Release [of "bids ob"] aggregate_levels_Release [of "asks ob"]
  by (auto simp: ob_get_l2_def)

section \<open>The best prices\<close>

definition last_opt :: "'a list \<Rightarrow> 'a option" where
  "last_opt xs = (if xs = [] then None else Some (last xs))"

definition hd_opt :: "'a list \<Rightarrow> 'a option" where
  "hd_opt xs = (if xs = [] then None else Some (hd xs))"

text \<open>The L1 view is the ends of the L2 view.\<close>

lemma aggregate_levels_Some_iff:
  "aggregate_levels b ls = Some as \<longleftrightarrow> map (aggregate_level b) ls = map Some as"
proof (induction ls arbitrary: as)
  case (Cons l ls)
  show ?case
  proof (cases as)
    case Nil
    then show ?thesis by (auto split: option.split)
  next
    case (Cons a as')
    then show ?thesis using Cons.IH [of as'] by (auto split: option.split)
  qed
qed auto

lemma aggregate_best_last:
  assumes "aggregate_levels b ls = Some as"
  shows "aggregate_best b (last_key_value ls) = Some (last_opt as)"
proof -
  have "map (aggregate_level b) ls = map Some as"
    using assms by (simp add: aggregate_levels_Some_iff)
  then show ?thesis
    by (cases ls rule: rev_cases; cases as rule: rev_cases)
      (auto simp: aggregate_best_def last_key_value_def first_key_value_def last_opt_def)
qed

lemma aggregate_best_first:
  assumes "aggregate_levels b ls = Some as"
  shows "aggregate_best b (first_key_value ls) = Some (hd_opt as)"
proof -
  have "map (aggregate_level b) ls = map Some as"
    using assms by (simp add: aggregate_levels_Some_iff)
  then show ?thesis
    by (cases ls; cases as)
      (auto simp: aggregate_best_def first_key_value_def hd_opt_def)
qed

lemma get_l1_of_l2:
  assumes "ob_get_l2 b ob = Some v"
  shows "ob_get_l1 b ob =
    Some \<lparr>best_bid = last_opt (l2_bids v), best_ask = hd_opt (l2_asks v)\<rparr>"
  using assms
  by (auto simp: ob_get_l2_def ob_get_l1_def aggregate_best_last aggregate_best_first
      split: option.splits)

lemma get_l1_Release: "\<exists>v. ob_get_l1 Release ob = Some v"
  using get_l1_of_l2 get_l2_Release by blast

lemma sorted_last_greatest:
  "sorted_keys ls \<Longrightarrow> ls \<noteq> [] \<Longrightarrow> p \<in> keys ls \<Longrightarrow> p \<le> fst (last ls)"
  by (cases ls rule: rev_cases) (auto simp: sorted_keys_append keys_def less_imp_le)

lemma sorted_hd_least:
  "sorted_keys ls \<Longrightarrow> ls \<noteq> [] \<Longrightarrow> p \<in> keys ls \<Longrightarrow> fst (hd ls) \<le> p"
  by (cases ls) (auto simp: keys_def sorted_keys_def less_imp_le)

end
