(* ===== verification/Volume_Checks.thy ===== *)
theory Volume_Checks
  imports Book_Views
begin

text \<open>
  What the volume checks before a Fill-or-Kill or Market order decide, exactly, on a side whose volume
  fits in 32 bits: \<open>enough_volume_market\<close> compares with the volume of the side, and
  \<open>enough_volume_fok\<close> with the volume of the levels from the lowest price up to the first price
  beyond the limit. For a bid these are the levels it can trade with. For an ask they are not: the
  scan starts at the lowest bid, the last one an ask would trade with.
\<close>

lemma level_total_simps [simp]:
  "level_total [] = 0"
  "level_total (e # es) = unat (en_remaining_volume e) + level_total es"
  by (simp_all add: level_total_def)

lemma volume_of_flat_Cons: "volume_of (flat ((p, es) # ls)) = level_total es + volume_of (flat ls)"
  by (simp add: volume_of_map_Pair level_total_def)

lemma unat_add_of_nat:
  "unat (a :: u32) + n < 2 ^ 32 \<Longrightarrow> unat (a + of_nat n) = unat a + n"
  by (subst unat_add_exact) (simp_all add: unat_of_nat take_bit_nat_eq_self)

lemma scan_orders_exact:
  "a < v \<Longrightarrow> unat a + level_total es < 2 ^ 32 \<Longrightarrow> scan_orders b v a es =
     Some (if unat v \<le> unat a + level_total es then Inl () else Inr (a + of_nat (level_total es)))"
proof (induction es arbitrary: a)
  case Nil
  then show ?case by (simp add: word_less_nat_alt)
next
  case (Cons e es)
  let ?a = "a + en_remaining_volume e"
  have fits: "unat a + unat (en_remaining_volume e) < 2 ^ 32" using Cons.prems(2) by simp
  then have a: "unat ?a = unat a + unat (en_remaining_volume e)" by (rule unat_add_exact)
  show ?case
  proof (cases "v \<le> ?a")
    case True
    with a fits show ?thesis by (simp add: word_le_nat_alt)
  next
    case False
    with Cons.IH [of ?a] Cons.prems(2) a fits show ?thesis by (simp add: not_le add.assoc)
  qed
qed

lemma scan_orders_on:
  assumes "(a :: u32) < v" and "unat a + level_total es < 2 ^ 32" and "\<not> unat v \<le> unat a + level_total es"
  shows "a + of_nat (level_total es) < v"
    and "unat (a + of_nat (level_total es)) = unat a + level_total es"
  using assms unat_add_of_nat [OF assms(2)] by (simp_all add: word_less_nat_alt)

definition scanned :: "'p::linorder order_insertion \<Rightarrow> 'p levels \<Rightarrow> 'p levels" where
  "scanned order ls = takeWhile (\<lambda>l. \<not> price_out_of_reach order (fst l)) ls"

lemma scan_levels_fok_exact:
  assumes "oi_order_type order = FillOrKill"
  shows "a < v \<Longrightarrow> unat a + volume_of (flat ls) < 2 ^ 32 \<Longrightarrow>
    scan_levels_fok b (oi_side order) v (oi_price order) a ls =
      Some (if unat v \<le> unat a + volume_of (flat (scanned order ls)) then Inr () else Inl OrderKilled)"
proof (induction ls arbitrary: a)
  case Nil
  then show ?case by (simp add: scanned_def word_less_nat_alt)
next
  case (Cons l ls)
  obtain p es where l: "l = (p, es)" by (cases l)
  have reach: "((oi_side order = Bid \<and> p > oi_price order) \<or> (oi_side order = Ask \<and> p < oi_price order))
      = price_out_of_reach order p"
    using assms by (auto simp: price_out_of_reach_def)
  show ?case
  proof (cases "price_out_of_reach order p")
    case True
    with Cons.prems(1) show ?thesis
      by (simp add: l Let_def reach scanned_def word_less_nat_alt)
  next
    case False
    have fits: "unat a + level_total es < 2 ^ 32"
      using Cons.prems(2) by (simp only: l volume_of_flat_Cons)
    note exact = scan_orders_exact [OF Cons.prems(1) fits, of b]
    have vol: "volume_of (flat (scanned order (l # ls))) = level_total es + volume_of (flat (scanned order ls))"
      using False by (simp add: scanned_def l volume_of_map_Pair level_total_def)
    show ?thesis
    proof (cases "unat v \<le> unat a + level_total es")
      case True
      with exact False show ?thesis unfolding vol by (simp add: l Let_def reach)
    next
      case more: False
      note on = scan_orders_on [OF Cons.prems(1) fits more]
      have "unat (a + of_nat (level_total es)) + volume_of (flat ls) < 2 ^ 32"
        using Cons.prems(2) by (simp only: on(2) l volume_of_flat_Cons add.assoc)
      from Cons.IH [OF on(1) this] exact more False show ?thesis
        unfolding vol by (simp add: l Let_def reach on(2) add.assoc)
    qed
  qed
qed

lemma scan_levels_market_exact:
  "a < v \<Longrightarrow> unat a + volume_of (flat ls) < 2 ^ 32 \<Longrightarrow>
   scan_levels_market b v a ls =
     Some (if unat v \<le> unat a + volume_of (flat ls) then Inr () else Inl InadequateVolume)"
proof (induction ls arbitrary: a)
  case Nil
  then show ?case by (simp add: word_less_nat_alt)
next
  case (Cons l ls)
  obtain p es where l: "l = (p, es)" by (cases l)
  have fits: "unat a + level_total es < 2 ^ 32"
    using Cons.prems(2) by (simp only: l volume_of_flat_Cons)
  note exact = scan_orders_exact [OF Cons.prems(1) fits, of b]
  show ?case
  proof (cases "unat v \<le> unat a + level_total es")
    case True
    with exact show ?thesis unfolding l volume_of_flat_Cons by simp
  next
    case more: False
    note on = scan_orders_on [OF Cons.prems(1) fits more]
    have "unat (a + of_nat (level_total es)) + volume_of (flat ls) < 2 ^ 32"
      using Cons.prems(2) by (simp only: on(2) l volume_of_flat_Cons add.assoc)
    from Cons.IH [OF on(1) this] exact more show ?thesis
      unfolding l volume_of_flat_Cons by (simp add: on(2) add.assoc)
  qed
qed

lemma check_volume_fok_exact:
  assumes "oi_order_type order = FillOrKill" and "0 < oi_volume order"
    and "volume_of (flat (book_side (opposite (oi_side order)) ob)) < 2 ^ 32"
  shows "check_volume b order ob =
    Some (if unat (oi_volume order) \<le> volume_of (flat (scanned order (book_side (opposite (oi_side order)) ob)))
          then Inr () else Inl OrderKilled)"
proof -
  have "check_volume b order ob = scan_levels_fok b (oi_side order) (oi_volume order) (oi_price order) 0
      (book_side (opposite (oi_side order)) ob)"
    using assms(1) by (cases "oi_side order") (simp_all add: check_volume_def enough_volume_fok_def)
  with scan_levels_fok_exact [OF assms(1,2), of "book_side (opposite (oi_side order)) ob" b] assms(3)
  show ?thesis by simp
qed

lemma check_volume_market_exact:
  assumes "oi_order_type order = Market" and "0 < oi_volume order"
    and "volume_of (flat (book_side (opposite (oi_side order)) ob)) < 2 ^ 32"
  shows "check_volume b order ob =
    Some (if unat (oi_volume order) \<le> volume_of (crossing_queue order ob)
          then Inr () else Inl InadequateVolume)"
proof -
  have "check_volume b order ob = scan_levels_market b (oi_volume order) 0
      (book_side (opposite (oi_side order)) ob)"
    using assms(1) by (cases "oi_side order") (simp_all add: check_volume_def enough_volume_market_def)
  moreover have "volume_of (crossing_queue order ob) = volume_of (flat (book_side (opposite (oi_side order)) ob))"
    using assms(1) by (simp add: crossing_volume price_out_of_reach_def)
  ultimately show ?thesis
    using scan_levels_market_exact [OF assms(2), of "book_side (opposite (oi_side order)) ob" b] assms(3) by simp
qed

lemma scanned_bid:
  assumes "oi_side order = Bid" and "oi_order_type order = FillOrKill" and "sorted_keys (asks ob)"
  shows "flat (scanned order (asks ob)) = crossing_queue order ob"
proof -
  have "scanned order (asks ob) = filter (\<lambda>l. \<not> price_out_of_reach order (fst l)) (asks ob)"
    using asks_within.takeWhile_reach [of "asks ob" "oi_price order"] assms
    by (simp add: scanned_def price_out_of_reach_def sorted_keys_def not_less)
  then show ?thesis
    using flat_filter [of "\<lambda>p. \<not> price_out_of_reach order p" "asks ob"] assms(1)
    by (simp add: crossing_queue_def opposite_queue_def)
qed

lemma scanned_ask:
  assumes "oi_side order = Ask" and "oi_order_type order = FillOrKill"
    and "first_key_value (bids ob) = Some (p, es)" and "p < oi_price order"
  shows "scanned order (bids ob) = []"
  using assms
  by (cases "bids ob") (auto simp: scanned_def price_out_of_reach_def first_key_value_def)

end
