(* ===== verification/Samples.thy ===== *)
theory Samples
  imports Volume_Checks
begin

text \<open>
  Concrete books and orders on which the properties of the order book are shown to apply. Prices are
  integers here: the order book only compares them.
\<close>

definition entry :: "order_id \<Rightarrow> account_id \<Rightarrow> volume \<Rightarrow> orderbook_entry" where
  "entry i a v = \<lparr>en_order_id = i, en_account_id = a, en_remaining_volume = v\<rparr>"

definition demo_pair :: asset_id_pair where
  "demo_pair = \<lparr>primary = 0, secondary = 1\<rparr>"

definition demo_book :: "int orderbook" where
  "demo_book =
     \<lparr>bids = [(90, [entry 0 1 5]), (95, [entry 1 2 4])],
      asks = [(100, [entry 2 1 3, entry 3 2 4]), (105, [entry 4 1 6])]\<rparr>"

definition demo_order :: "order_type \<Rightarrow> account_id \<Rightarrow> side \<Rightarrow> volume \<Rightarrow> int \<Rightarrow> int order_insertion" where
  "demo_order t a s v p =
     \<lparr>oi_id = 9, oi_account_id = a, oi_order_type = t, oi_pair = demo_pair, oi_side = s,
      oi_volume = v, oi_price = p\<rparr>"

definition demo_cancellation :: "int order_cancellation" where
  "demo_cancellation = \<lparr>oc_pair = demo_pair, oc_order_id = 3, oc_side = Ask, oc_price = 100\<rparr>"

definition demo_modification :: "int order_modification" where
  "demo_modification =
     \<lparr>om_pair = demo_pair, om_order_id = 4, om_volume_reduction = 2, om_side = Ask, om_price = 105\<rparr>"

lemmas demo_defs = demo_book_def demo_order_def entry_def demo_pair_def demo_cancellation_def
  demo_modification_def

text \<open>A level that holds more volume than a \<open>u32\<close>.\<close>

definition heavy_book :: "int orderbook" where
  "heavy_book = \<lparr>bids = [], asks = [(100, [entry 0 1 2147483648, entry 1 1 2147483648])]\<rparr>"

lemma demo_book_sorted: "book_sorted demo_book"
  by (simp add: demo_defs book_sorted_def)

lemma demo_book_clean: "book_clean demo_book"
  by (simp add: demo_defs book_clean_def clean_level_def)

lemma demo_book_uncrossed: "book_uncrossed demo_book"
  by (simp add: demo_defs book_uncrossed_def)

lemma demo_book_ids: "distinct (book_ids demo_book)"
  by (simp add: demo_defs book_ids_def)

lemma demo_book_fits: "book_fits demo_book"
  by (simp add: demo_defs book_fits_def)

lemma heavy_arith:
  "(2147483648 + 2147483648 :: u32) = 0" "\<not> (4294967295 :: u32) \<le> 2147483648"
  "unat (2147483648 :: u32) = 2147483648" "\<not> (4294967295 :: u32) \<le> 0"
  by (simp_all add: word_le_nat_alt)

lemma heavy_scan:
  "scan_orders Debug 4294967295 0 [entry 0 1 2147483648, entry 1 1 2147483648] = None"
  "scan_orders Release 4294967295 0 [entry 0 1 2147483648, entry 1 1 2147483648] = Some (Inr 0)"
  by (simp_all only: scan_orders.simps entry_def orderbook_entry.simps u32_add_def heavy_arith
      add_0_left simp_thms unat_0 if_True if_False option.case build.distinct) simp_all

end
