(* ===== verification/Book_Properties.thy ===== *)
theory Book_Properties
  imports Samples
begin

text \<open>
  The properties of the order book: insertion, cancellation, modification, the volume checks and the
  views, each with a concrete instance.
\<close>

section \<open>Insertion\<close>

text \<open>What a result says of the run: a success filled the order, and only filling up to an own order
  is a self-trade.\<close>

lemma insertion_success:
  assumes "book_sorted ob" and "can_match order ob"
    and "ob_insert_order b order ob buf = Some (Inr ef, ob', buf')"
  obtains ts m r ls d where "check_volume b order ob = Some (Inr ())"
    and "fill order (oi_volume order) (crossing_queue order ob) = Traded ts m r"
    and "flat (drop d ls) = r @ untouched_queue order ob" and "buf' = buf @ ts"
    and "ef_status ef = (if 0 < m then AwaitingFill else Filled)"
    and "ob' = (if 0 < m then insert_limit_order_no_matching (order\<lparr>oi_volume := m\<rparr>) (matched_book order ls d ob)
        else matched_book order ls d ob)"
proof -
  note sorted = book_sorted_side [OF assms(1)]
  have check: "check_volume b order ob = Some (Inr ())"
    using assms(3) by (auto simp: ob_insert_order_def split: option.splits sum.splits)
  show thesis
  proof (cases "fill order (oi_volume order) (crossing_queue order ob)")
    case Own_order_reached
    obtain ob1 buf1 where "ob_insert_order b order ob buf = Some (Inl SelfTrade, ob1, buf1)"
      by (rule ob_insert_order_Own [OF check sorted assms(2) Own_order_reached])
    with assms(3) show thesis by simp
  next
    case (Traded ts m r)
    from ob_insert_order_Traded [OF check sorted assms(2) Traded, of buf] obtain ls d where
      "ob_insert_order b order ob buf = Some (Inr \<lparr>ef_status = (if 0 < m then AwaitingFill else Filled),
          ef_last_traded_price = last_price ts m\<rparr>,
        (if 0 < m then insert_limit_order_no_matching (order\<lparr>oi_volume := m\<rparr>) (matched_book order ls d ob)
         else matched_book order ls d ob), buf @ ts)"
      and "flat (drop d ls) = r @ untouched_queue order ob" by metis
    with assms(3) show thesis by (intro that [OF check Traded, of d ls]) auto
  qed
qed

text \<open>C1: An accepted order trades by price-time priority: the transactions and what is left of the
  opposite side are those of filling the queue of orders it reaches, best price first and oldest first;
  what is left of the order rests behind the orders at its price. A last traded price is reported only when
  nothing is left of the order.\<close>

theorem insertion_fills_by_priority:
  assumes "book_sorted ob" and "can_match order ob" and "check_volume b order ob = Some (Inr ())"
    and "fill order (oi_volume order) (crossing_queue order ob) = Traded ts m r"
  shows "\<exists>ob'. ob_insert_order b order ob buf =
      Some (Inr \<lparr>ef_status = (if 0 < m then AwaitingFill else Filled),
                 ef_last_traded_price = last_price ts m\<rparr>, ob', buf @ ts) \<and>
    opposite_queue order ob' = r @ untouched_queue order ob \<and>
    flat (book_side (oi_side order) ob') =
      (if 0 < m
       then insert_by_price (oi_price order)
         \<lparr>en_order_id = oi_id order, en_account_id = oi_account_id order, en_remaining_volume = m\<rparr>
         (flat (book_side (oi_side order) ob))
       else flat (book_side (oi_side order) ob))"
proof -
  let ?s = "oi_side order"
  note sorted = book_sorted_side [OF assms(1)]
  from ob_insert_order_Traded [OF assms(3) sorted assms(2,4), of buf] obtain ls d where
    res: "ob_insert_order b order ob buf = Some (Inr \<lparr>ef_status = (if 0 < m then AwaitingFill else Filled),
        ef_last_traded_price = last_price ts m\<rparr>,
      (if 0 < m then insert_limit_order_no_matching (order\<lparr>oi_volume := m\<rparr>) (matched_book order ls d ob)
       else matched_book order ls d ob), buf @ ts)"
    and fl: "flat (drop d ls) = r @ untouched_queue order ob" by metis
  let ?m = "matched_book order ls d ob" and ?o = "order\<lparr>oi_volume := m\<rparr>"
  have own: "book_side ?s ?m = book_side ?s ob" and opp: "opposite_queue order ?m = r @ untouched_queue order ob"
    by (simp_all add: matched_book_def opposite_queue_def Let_def fl)
  have "opposite_queue order (insert_limit_order_no_matching ?o ?m) = opposite_queue order ?m"
    using insert_no_matching_other [of "opposite ?s" ?o ?m] by (simp add: opposite_queue_def Let_def)
  moreover have "flat (book_side ?s (insert_limit_order_no_matching ?o ?m)) =
      insert_by_price (oi_price order)
        \<lparr>en_order_id = oi_id order, en_account_id = oi_account_id order, en_remaining_volume = m\<rparr>
        (flat (book_side ?s ob))"
    using flat_insert_no_matching [of ?o ?m] sorted [of ?s] by (simp add: own entry_from_insertion_def)
  ultimately show ?thesis using res own opp by auto
qed

theorem insertion_fills_by_priority_witness:
  "\<exists>ob'. ob_insert_order Debug (demo_order Limit 7 Bid 9 102) demo_book [] =
      Some (Inr \<lparr>ef_status = AwaitingFill, ef_last_traded_price = None\<rparr>, ob',
        [\<lparr>tx_price = 100, tx_volume = 3, tx_taker_side = Bid, tx_order_id_maker = 2, tx_order_id_taker = 9\<rparr>,
         \<lparr>tx_price = 100, tx_volume = 4, tx_taker_side = Bid, tx_order_id_maker = 3, tx_order_id_taker = 9\<rparr>]) \<and>
    opposite_queue (demo_order Limit 7 Bid 9 102) ob' = [(105, entry 4 1 6)] \<and>
    flat (bids ob') = [(90, entry 0 1 5), (95, entry 1 2 4), (102, entry 9 7 2)]"
  using insertion_fills_by_priority [OF demo_book_sorted can_match_clean [OF demo_book_clean],
      of Debug "demo_order Limit 7 Bid 9 102"
        "[\<lparr>tx_price = 100, tx_volume = 3, tx_taker_side = Bid, tx_order_id_maker = 2, tx_order_id_taker = 9\<rparr>,
         \<lparr>tx_price = 100, tx_volume = 4, tx_taker_side = Bid, tx_order_id_maker = 3, tx_order_id_taker = 9\<rparr>]"
        2 "[]" "[]"]
  by (simp add: demo_defs check_volume_def crossing_queue_def untouched_queue_def opposite_queue_def
      price_out_of_reach_def trade_with_def last_price_def insert_by_price_def)

text \<open>C13: No insertion crosses the book: whatever its result, also when it is refused as a self-trade,
  afterwards every bid is below every ask and both sides are in price order.\<close>

theorem insertion_never_crosses:
  assumes "book_sorted ob" and "book_uncrossed ob"
    and "ob_insert_order b order ob buf = Some (res, ob', buf')"
  shows "book_uncrossed ob' \<and> book_sorted ob'"
  using insert_keeps_uncrossed [OF assms] insert_keeps_sorted [OF assms(1,3)] by blast

theorem insertion_never_crosses_witness:
  "case ob_insert_order Release (demo_order Limit 7 Ask 20 85) demo_book [] of
     Some (res, ob', buf') \<Rightarrow> book_uncrossed ob' \<and> book_sorted ob' | None \<Rightarrow> False"
proof -
  have "ob_insert_order Release (demo_order Limit 7 Ask 20 85) demo_book [] \<noteq> None"
    by (simp add: demo_defs ob_insert_order_def check_volume_def match_level_Cons price_out_of_reach_def)
  then show ?thesis
    using insertion_never_crosses [OF demo_book_sorted demo_book_uncrossed,
        of Release "demo_order Limit 7 Ask 20 85" "[]"]
    by (auto split: option.split)
qed

text \<open>C14: A Fill-or-Kill or Market order trades its whole volume and leaves its own side alone, or it is
  refused and, unless for a self-trade, changes nothing.\<close>

theorem all_or_nothing:
  assumes "oi_order_type order \<noteq> Limit" and "book_sorted ob" and "can_match order ob"
    and "ob_insert_order b order ob buf = Some (res, ob', buf')"
  shows "(case res of
      Inr ef \<Rightarrow> ef_status ef = Filled \<and> book_side (oi_side order) ob' = book_side (oi_side order) ob \<and>
        (\<exists>ts. buf' = buf @ ts \<and> traded_volume ts = unat (oi_volume order))
    | Inl err \<Rightarrow> err = SelfTrade \<or> ob' = ob \<and> buf' = buf)"
proof (cases res)
  case (Inl err)
  with assms(4) show ?thesis by (cases rule: ob_insert_order_cases) auto
next
  case (Inr ef)
  with assms(4) have "ob_insert_order b order ob buf = Some (Inr ef, ob', buf')" by simp
  from insertion_success [OF assms(2,3) this] obtain ts m r ls d where
    check: "check_volume b order ob = Some (Inr ())"
    and fill: "fill order (oi_volume order) (crossing_queue order ob) = Traded ts m r"
    and buf': "buf' = buf @ ts" and status: "ef_status ef = (if 0 < m then AwaitingFill else Filled)"
    and ob': "ob' = (if 0 < m then insert_limit_order_no_matching (order\<lparr>oi_volume := m\<rparr>) (matched_book order ls d ob)
        else matched_book order ls d ob)" .
  have "m = 0" by (rule checked_order_used_up [OF check assms(1) fill])
  with Inr buf' status ob' fill_conserves [OF fill] show ?thesis
    by (simp add: matched_book_def Let_def)
qed

theorem all_or_nothing_witness:
  "\<exists>ef ob' buf'. ob_insert_order Release (demo_order Market 7 Bid 10 0) demo_book [] = Some (Inr ef, ob', buf') \<and>
     ef_status ef = Filled \<and> bids ob' = bids demo_book \<and> traded_volume buf' = 10"
proof -
  have "\<exists>ef ob' buf'. ob_insert_order Release (demo_order Market 7 Bid 10 0) demo_book [] = Some (Inr ef, ob', buf')"
    by (simp add: demo_defs ob_insert_order_def check_volume_def match_level_Cons price_out_of_reach_def
        enough_volume_market_def)
  then obtain ef ob' buf' where
    res: "ob_insert_order Release (demo_order Market 7 Bid 10 0) demo_book [] = Some (Inr ef, ob', buf')" by blast
  have "ef_status ef = Filled \<and> bids ob' = bids demo_book \<and> (\<exists>ts. buf' = [] @ ts \<and> traded_volume ts = 10)"
    using all_or_nothing [OF _ demo_book_sorted can_match_clean [OF demo_book_clean] res]
    by (simp add: demo_order_def)
  with res show ?thesis by (intro exI [of _ ef] exI [of _ ob'] exI [of _ buf']) simp
qed

text \<open>C15: No volume is created or lost by a successful insertion: what the order asked for is what it
  traded and what came to rest, and the opposite side lost what was traded.\<close>

theorem insertion_conserves_volume:
  assumes "book_sorted ob" and "can_match order ob"
    and "ob_insert_order b order ob buf = Some (Inr ef, ob', buf')"
  shows "\<exists>ts. buf' = buf @ ts \<and>
    volume_of (opposite_queue order ob) = volume_of (opposite_queue order ob') + traded_volume ts \<and>
    volume_of (flat (book_side (oi_side order) ob)) + unat (oi_volume order) =
      volume_of (flat (book_side (oi_side order) ob')) + traded_volume ts"
proof -
  let ?s = "oi_side order"
  note sorted = book_sorted_side [OF assms(1)]
  from insertion_success [OF assms] obtain ts m r ls d where
    fill: "fill order (oi_volume order) (crossing_queue order ob) = Traded ts m r"
    and fl: "flat (drop d ls) = r @ untouched_queue order ob" and buf': "buf' = buf @ ts"
    and ob': "ob' = (if 0 < m then insert_limit_order_no_matching (order\<lparr>oi_volume := m\<rparr>) (matched_book order ls d ob)
        else matched_book order ls d ob)" .
  let ?m = "matched_book order ls d ob" and ?o = "order\<lparr>oi_volume := m\<rparr>"
  have side: "volume_of (insert_by_price p e q) = unat (en_remaining_volume e) + volume_of q" for p :: 'a and e q
    by (induction q) (auto simp: insert_by_price_def not_le dest: leD)
  have zero: "\<not> 0 < m \<Longrightarrow> unat m = 0" by (simp add: word_less_nat_alt)
  have own: "volume_of (flat (book_side ?s ob')) = volume_of (flat (book_side ?s ob)) + unat m"
    using flat_insert_no_matching [of ?o ?m] sorted [of ?s] side zero
    by (auto simp: ob' matched_book_def Let_def)
  have opp: "opposite_queue order ob' = r @ untouched_queue order ob"
    using insert_no_matching_other [of "opposite ?s" ?o ?m] fl
    by (simp add: ob' opposite_queue_def Let_def matched_book_def)
  have split: "volume_of q = volume_of (filter (\<lambda>x. \<not> price_out_of_reach order (fst x)) q) +
      volume_of (filter (\<lambda>x. price_out_of_reach order (fst x)) q)" for q
    by (induction q) auto
  have "volume_of (opposite_queue order ob) =
      volume_of (crossing_queue order ob) + volume_of (untouched_queue order ob)"
    unfolding crossing_queue_def untouched_queue_def by (rule split)
  then show ?thesis
    using fill_conserves [OF fill] own opp buf' by (intro exI [of _ ts]) simp
qed

theorem insertion_conserves_volume_witness:
  "\<exists>ef ob' ts. ob_insert_order Release (demo_order Limit 7 Bid 9 102) demo_book [] = Some (Inr ef, ob', ts) \<and>
     13 = volume_of (flat (asks ob')) + traded_volume ts \<and>
     9 + 9 = volume_of (flat (bids ob')) + traded_volume ts"
proof -
  have "\<exists>ef ob' ts. ob_insert_order Release (demo_order Limit 7 Bid 9 102) demo_book [] = Some (Inr ef, ob', ts)"
    by (simp add: demo_defs ob_insert_order_def check_volume_def match_level_Cons price_out_of_reach_def)
  then obtain ef ob' ts where
    res: "ob_insert_order Release (demo_order Limit 7 Bid 9 102) demo_book [] = Some (Inr ef, ob', ts)" by blast
  have "volume_of (flat (asks demo_book)) = volume_of (flat (asks ob')) + traded_volume ts \<and>
      volume_of (flat (bids demo_book)) + 9 = volume_of (flat (bids ob')) + traded_volume ts"
    using insertion_conserves_volume [OF demo_book_sorted can_match_clean [OF demo_book_clean] res]
    by (simp add: demo_order_def opposite_queue_def)
  with res show ?thesis by (intro exI [of _ ef] exI [of _ ob'] exI [of _ ts]) (simp add: demo_defs)
qed

text \<open>C18: Every transaction of a successful insertion is with an order of the opposite side, at that
  order's price and for no more than its volume, never beyond the taker's limit and never between two
  orders of one account.\<close>

theorem trades_are_fair:
  assumes "book_sorted ob" and "can_match order ob"
    and "ob_insert_order b order ob buf = Some (Inr ef, ob', buf')"
  shows "\<exists>ts. buf' = buf @ ts \<and> (\<forall>t \<in> set ts. \<exists>e.
    (tx_price t, e) \<in> set (flat (book_side (opposite (oi_side order)) ob)) \<and>
    tx_order_id_maker t = en_order_id e \<and> tx_order_id_taker t = oi_id order \<and>
    tx_taker_side t = oi_side order \<and> tx_volume t \<le> en_remaining_volume e \<and>
    en_account_id e \<noteq> oi_account_id order \<and>
    (oi_order_type order = Market \<or>
     (case oi_side order of Bid \<Rightarrow> tx_price t \<le> oi_price order | Ask \<Rightarrow> oi_price order \<le> tx_price t)))"
proof -
  from insertion_success [OF assms] obtain ts m r where
    fill: "fill order (oi_volume order) (crossing_queue order ob) = Traded ts m r" and buf': "buf' = buf @ ts" by metis
  have reach: "(p, e) \<in> set (flat (book_side (opposite (oi_side order)) ob)) \<and> (oi_order_type order = Market \<or>
      (case oi_side order of Bid \<Rightarrow> p \<le> oi_price order | Ask \<Rightarrow> oi_price order \<le> p))"
    if "(p, e) \<in> set (crossing_queue order ob)" for p e
    using that by (cases "oi_side order")
      (auto simp: crossing_queue_def opposite_queue_def price_out_of_reach_def set_flat)
  show ?thesis
  proof (intro exI [of _ ts] conjI ballI)
    fix t
    assume "t \<in> set ts"
    from fill_trades [OF fill this] reach show "\<exists>e.
      (tx_price t, e) \<in> set (flat (book_side (opposite (oi_side order)) ob)) \<and>
      tx_order_id_maker t = en_order_id e \<and> tx_order_id_taker t = oi_id order \<and>
      tx_taker_side t = oi_side order \<and> tx_volume t \<le> en_remaining_volume e \<and>
      en_account_id e \<noteq> oi_account_id order \<and>
      (oi_order_type order = Market \<or>
       (case oi_side order of Bid \<Rightarrow> tx_price t \<le> oi_price order | Ask \<Rightarrow> oi_price order \<le> tx_price t))"
      by blast
  qed (rule buf')
qed

theorem trades_are_fair_witness:
  "\<exists>ef ob' ts. ob_insert_order Release (demo_order Limit 7 Bid 9 102) demo_book [] = Some (Inr ef, ob', ts) \<and>
     (\<forall>t \<in> set ts. tx_price t \<le> 102 \<and> tx_order_id_taker t = 9)"
proof -
  have "\<exists>ef ob' ts. ob_insert_order Release (demo_order Limit 7 Bid 9 102) demo_book [] = Some (Inr ef, ob', ts)"
    by (simp add: demo_defs ob_insert_order_def check_volume_def match_level_Cons price_out_of_reach_def)
  then obtain ef ob' ts where
    res: "ob_insert_order Release (demo_order Limit 7 Bid 9 102) demo_book [] = Some (Inr ef, ob', ts)" by blast
  have "\<forall>t \<in> set ts. tx_price t \<le> 102 \<and> tx_order_id_taker t = 9"
    using trades_are_fair [OF demo_book_sorted can_match_clean [OF demo_book_clean] res]
    by (auto simp: demo_order_def)
  with res show ?thesis by blast
qed

text \<open>An order is refused as a self-trade exactly when its own account's first order in the queue
  it reaches is ahead of the volume that would fill it.\<close>

theorem self_trade_iff:
  assumes "book_sorted ob" and "can_match order ob" and "check_volume b order ob = Some (Inr ())"
  shows "(\<exists>ob' buf'. ob_insert_order b order ob buf = Some (Inl SelfTrade, ob', buf')) \<longleftrightarrow>
    own_order_within order (oi_volume order) (crossing_queue order ob)"
proof (cases "fill order (oi_volume order) (crossing_queue order ob)")
  case Own_order_reached
  with ob_insert_order_Own [OF assms(3) book_sorted_side [OF assms(1)] assms(2) this, of buf]
  show ?thesis by (metis fill_own_iff)
next
  case (Traded ts m r)
  then have "\<not> own_order_within order (oi_volume order) (crossing_queue order ob)"
    by (simp flip: fill_own_iff)
  with ob_insert_order_Traded [OF assms(3) book_sorted_side [OF assms(1)] assms(2) Traded, of buf]
  show ?thesis by (metis Inl_Inr_False Pair_inject option.inject)
qed

theorem self_trade_iff_witness:
  "(\<exists>ob' buf'. ob_insert_order Release (demo_order Limit 2 Bid 4 102) demo_book [] = Some (Inl SelfTrade, ob', buf')) \<longleftrightarrow>
   own_order_within (demo_order Limit 2 Bid 4 102) 4 [(100, entry 2 1 3), (100, entry 3 2 4)]"
  using self_trade_iff [OF demo_book_sorted can_match_clean [OF demo_book_clean],
      of Release "demo_order Limit 2 Bid 4 102" "[]"]
  by (simp add: demo_defs check_volume_def crossing_queue_def opposite_queue_def price_out_of_reach_def)



section \<open>The volume checks\<close>

text \<open>A Fill-or-Kill bid passes its check exactly when the asks within its limit hold its volume, on
  a side whose volume fits in 32 bits.\<close>

theorem fok_bid_check_exact:
  assumes "oi_order_type order = FillOrKill" and "oi_side order = Bid" and "0 < oi_volume order"
    and "book_sorted ob" and "volume_of (flat (asks ob)) < 2 ^ 32"
  shows "check_volume b order ob =
    Some (if unat (oi_volume order) \<le> volume_of (crossing_queue order ob)
          then Inr () else Inl OrderKilled)"
  using check_volume_fok_exact [OF assms(1,3), of ob b] assms(2,5)
    scanned_bid [OF assms(2,1), of ob] book_sorted_side [OF assms(4), of Ask]
  by simp

theorem fok_bid_check_exact_witness:
  "check_volume Debug (demo_order FillOrKill 7 Bid 8 104) demo_book = Some (Inl OrderKilled)"
  using fok_bid_check_exact [of "demo_order FillOrKill 7 Bid 8 104" demo_book Debug] demo_book_sorted
  by (simp add: demo_defs crossing_queue_def opposite_queue_def price_out_of_reach_def)



text \<open>A Market order passes its check exactly when the opposite side holds its volume, on a side
  whose volume fits in 32 bits.\<close>

theorem market_check_exact:
  assumes "oi_order_type order = Market" and "0 < oi_volume order"
    and "volume_of (flat (book_side (opposite (oi_side order)) ob)) < 2 ^ 32"
  shows "check_volume b order ob =
    Some (if unat (oi_volume order) \<le> volume_of (flat (book_side (opposite (oi_side order)) ob))
          then Inr () else Inl InadequateVolume)"
  using check_volume_market_exact [OF assms, of b] assms(1)
  by (simp add: crossing_volume price_out_of_reach_def)

theorem market_check_exact_witness:
  "check_volume Debug (demo_order Market 7 Ask 10 0) demo_book = Some (Inl InadequateVolume)"
  using market_check_exact [of "demo_order Market 7 Ask 10 0" demo_book Debug]
  by (simp add: demo_defs)




section \<open>Cancellation and modification\<close>

text \<open>C30: Cancelling removes the order's entry, and only it, when it rests at the price and side the
  cancellation names; otherwise it answers that the order was filled and changes nothing.\<close>

theorem cancel_removes_one_order:
  assumes "book_sorted ob" and "distinct (book_ids ob)"
  shows "if resting (oc_side c) (oc_price c) (oc_order_id c) ob
    then \<exists>ob'. ob_cancel_order c ob = (Inr (), ob') \<and> book_sorted ob' \<and>
      flat (book_side (oc_side c) ob') =
        filter (\<lambda>x. en_order_id (snd x) \<noteq> oc_order_id c) (flat (book_side (oc_side c) ob)) \<and>
      book_side (opposite (oc_side c)) ob' = book_side (opposite (oc_side c)) ob
    else ob_cancel_order c ob = (Inl order_cancellation_error.AlreadyFilled, ob)"
proof (cases "resting (oc_side c) (oc_price c) (oc_order_id c) ob")
  case True
  have "distinct (entry_ids (flat (book_side (oc_side c) ob)))"
    using assms(2) by (cases "oc_side c") (simp_all add: book_ids_def)
  from cancel_resting [OF assms(1) this True] obtain ls where
    "ob_cancel_order c ob = (Inr (), set_book_side (oc_side c) ls ob)"
    "flat ls = filter (\<lambda>x. en_order_id (snd x) \<noteq> oc_order_id c) (flat (book_side (oc_side c) ob))"
    "sorted_keys ls" by metis
  with True assms(1) show ?thesis by (simp add: book_sorted_set)
next
  case False
  with cancel_not_resting [OF assms(1)] show ?thesis by simp
qed

theorem cancel_removes_one_order_witness:
  "\<exists>ob'. ob_cancel_order demo_cancellation demo_book = (Inr (), ob') \<and>
     flat (asks ob') = [(100, entry 2 1 3), (105, entry 4 1 6)]"
proof -
  have "resting Ask 100 3 demo_book" by (simp add: demo_defs resting_def)
  then show ?thesis
    using cancel_removes_one_order [OF demo_book_sorted demo_book_ids, of demo_cancellation]
    by (simp add: demo_cancellation_def) (auto simp: demo_defs)
qed

text \<open>Modifying takes the reduction off the order's entry in place, or removes the entry when the
  reduction takes all its volume, and keeps every other entry and its position.\<close>

theorem modify_reduces_one_order:
  assumes "book_sorted ob" and "distinct (book_ids ob)"
  shows "if resting (om_side m) (om_price m) (om_order_id m) ob
    then \<exists>ob'. ob_modify_order m ob = (Inr (), ob') \<and> book_sorted ob' \<and>
      flat (book_side (om_side m) ob') =
        map (\<lambda>(p, e). (p, if en_order_id e = om_order_id m
                         then e\<lparr>en_remaining_volume := en_remaining_volume e - om_volume_reduction m\<rparr> else e))
          (filter (\<lambda>(p, e). en_order_id e \<noteq> om_order_id m \<or> om_volume_reduction m < en_remaining_volume e)
            (flat (book_side (om_side m) ob))) \<and>
      book_side (opposite (om_side m)) ob' = book_side (opposite (om_side m)) ob
    else ob_modify_order m ob = (Inl OrderNotFound, ob)"
proof (cases "resting (om_side m) (om_price m) (om_order_id m) ob")
  case True
  have ids: "distinct (entry_ids (flat (book_side (om_side m) ob)))"
    using assms(2) by (cases "om_side m") (simp_all add: book_ids_def)
  obtain ls where
    res: "ob_modify_order m ob = (Inr (), set_book_side (om_side m) ls ob)"
    and fl: "flat ls = map (\<lambda>x. (fst x, reduce_entry m (snd x)))
      (filter (\<lambda>x. survives m (snd x)) (flat (book_side (om_side m) ob)))"
    and srt: "sorted_keys ls"
    by (rule modify_resting [OF assms(1) ids True])
  have "(\<lambda>x. (fst x, reduce_entry m (snd x))) = (\<lambda>(p, e). (p, if en_order_id e = om_order_id m
      then e\<lparr>en_remaining_volume := en_remaining_volume e - om_volume_reduction m\<rparr> else e))"
    "(\<lambda>x. survives m (snd x)) =
      (\<lambda>(p, e). en_order_id e \<noteq> om_order_id m \<or> om_volume_reduction m < en_remaining_volume e)"
    by (intro ext, simp only: split_beta reduce_entry_def survives_def)+
  note fl = fl [unfolded this]
  show ?thesis unfolding if_P [OF True]
    by (intro exI [of _ "set_book_side (om_side m) ls ob"] conjI)
      (simp_all only: res fl book_side_set book_sorted_set [OF assms(1) srt])
next
  case False
  with modify_not_resting [OF assms(1)] show ?thesis by simp
qed

theorem modify_reduces_one_order_witness:
  "\<exists>ob'. ob_modify_order demo_modification demo_book = (Inr (), ob') \<and>
     flat (asks ob') = [(100, entry 2 1 3), (100, entry 3 2 4), (105, entry 4 1 4)]"
proof -
  have "resting Ask 105 4 demo_book" by (simp add: demo_defs resting_def)
  then show ?thesis
    using modify_reduces_one_order [OF demo_book_sorted demo_book_ids, of demo_modification]
    by (simp add: demo_modification_def) (auto simp: demo_defs)
qed

section \<open>The views\<close>

text \<open>C32: The L2 view has one aggregate per price level, in price order, with the level's volume
  modulo \<open>2^32\<close> in a build without overflow checks; one with overflow checks panics exactly when some
  level holds \<open>2^32\<close> or more.\<close>

theorem l2_aggregates_levels:
  "ob_get_l2 Release ob =
     Some \<lparr>l2_bids = map (\<lambda>(p, es). \<lparr>ag_price = p, ag_volume = of_nat (level_total es)\<rparr>) (bids ob),
           l2_asks = map (\<lambda>(p, es). \<lparr>ag_price = p, ag_volume = of_nat (level_total es)\<rparr>) (asks ob)\<rparr> \<and>
   (ob_get_l2 Debug ob = (if book_fits ob then ob_get_l2 Release ob else None))"
proof -
  have wraps: "u32_sum_from Release a xs = Some (a + of_nat (sum_list (map unat xs)))" for a xs
    by (induction xs arbitrary: a) (simp_all add: add.assoc)
  have release: "aggregate_level Release l = Some \<lparr>ag_price = fst l, ag_volume = of_nat (level_total (snd l))\<rparr>"
    for l :: "'a \<times> orderbook_entry list"
    by (simp add: aggregate_level_def u32_sum_def wraps level_total_def comp_def)
  have levels: "aggregate_levels Release ls =
      Some (map (\<lambda>(p, es). \<lparr>ag_price = p, ag_volume = of_nat (level_total es)\<rparr>) ls)" for ls :: "'a levels"
    by (induction ls) (simp_all add: release split_beta)
  have checked: "u32_sum_from Debug a xs =
      (if unat a + sum_list (map unat xs) < 2 ^ 32 then u32_sum_from Release a xs else None)" for a xs
  proof (induction xs arbitrary: a)
    case Nil
    then show ?case using unat_u32_lt [of a] by simp
  next
    case (Cons x xs)
    show ?case
    proof (cases "unat a + unat x < 2 ^ 32")
      case True
      with Cons show ?thesis by (simp add: unat_add_exact add.assoc)
    qed (simp add: u32_add_def)
  qed
  have debug: "aggregate_level Debug l = (if level_total (snd l) < 2 ^ 32 then aggregate_level Release l else None)"
    for l :: "'a \<times> orderbook_entry list"
    using checked [of 0 "map en_remaining_volume (snd l)"]
    by (simp add: aggregate_level_def u32_sum_def level_total_def comp_def)
  have "aggregate_levels Debug ls = (if levels_fit ls then aggregate_levels Release ls else None)"
    for ls :: "'a levels"
    by (induction ls) (simp_all add: debug release levels)
  with levels show ?thesis by (simp add: ob_get_l2_def book_fits_def)
qed



end
