(* ===== verification/Markets.thy ===== *)
theory Markets
  imports Book_Views
begin

text \<open>
  A market and the vector of markets of \<open>src/market.rs\<close>. A \<open>Market\<close> is an order book, its
  asset pair and its last traded price; \<open>Markets\<close> finds the market of a pair by a linear search.

  The locale \<open>registry\<close> is what the exchange relies on when it looks a market up, changes it
  through the mutable reference and goes on: the other markets are as they were.
\<close>

section \<open>The interface\<close>

locale registry =
  fixes lookup :: "'r \<Rightarrow> 'k \<Rightarrow> 'v option"
    and store :: "'k \<Rightarrow> 'v \<Rightarrow> 'r \<Rightarrow> 'r"
    and key_of :: "'v \<Rightarrow> 'k"
    and ok :: "'r \<Rightarrow> bool"
  assumes lookup_key: "lookup r k = Some v \<Longrightarrow> key_of v = k"
    and lookup_store: "lookup r k \<noteq> None \<Longrightarrow> key_of v = k \<Longrightarrow>
      lookup (store k v r) k' = (if k' = k then Some v else lookup r k')"
    and store_ok: "ok r \<Longrightarrow> key_of v = k \<Longrightarrow> ok (store k v r)"
begin

lemma all_store:
  assumes "lookup r k \<noteq> None" and "key_of v = k"
    and "\<And>k v. lookup r k = Some v \<Longrightarrow> P k v" and "P k v"
    and "lookup (store k v r) k' = Some v'"
  shows "P k' v'"
  using assms by (auto simp: lookup_store split: if_splits)

lemma dom_store:
  "lookup r k \<noteq> None \<Longrightarrow> key_of v = k \<Longrightarrow> lookup (store k v r) k' = None \<longleftrightarrow> lookup r k' = None"
  by (auto simp: lookup_store)

end

section \<open>A market\<close>

record order_insertion_effects =
  ie_id :: order_id
  ie_status :: order_execution_status

type_synonym order_insertion_result = "order_insertion_error + order_insertion_effects"
type_synonym order_cancellation_result = "order_cancellation_error + unit"
type_synonym order_modification_result = "order_modification_error + unit"

record 'p market =
  mk_asset_pair :: asset_id_pair
  mk_last_traded_price :: 'p
  mk_orderbook :: "'p orderbook"

definition market_new :: "'p \<Rightarrow> asset_id_pair \<Rightarrow> 'p market" where
  "market_new zero asset_pair =
     \<lparr>mk_asset_pair = asset_pair, mk_last_traded_price = zero, mk_orderbook = new_orderbook\<rparr>"

definition market_insert_order ::
    "build \<Rightarrow> 'p::linorder order_insertion \<Rightarrow> 'p market \<Rightarrow> 'p ob_transaction_buffer
     \<Rightarrow> ('p ob_order_insertion_result
         \<times> 'p market \<times> 'p ob_transaction_buffer) option" where
  "market_insert_order b order m buf =
     (case ob_insert_order b order (mk_orderbook m) buf of
        None \<Rightarrow> None
      | Some (execution_result, ob, buf') \<Rightarrow>
          (let m' = m\<lparr>mk_orderbook := ob\<rparr>
           in Some (execution_result,
                (case execution_result of
                   Inl _ \<Rightarrow> m'
                 | Inr ef \<Rightarrow>
                     (case ef_last_traded_price ef of
                        None \<Rightarrow> m'
                      | Some last_traded_price \<Rightarrow> m'\<lparr>mk_last_traded_price := last_traded_price\<rparr>)),
                buf')))"

definition market_cancel_order ::
    "'p::linorder order_cancellation \<Rightarrow> 'p market \<Rightarrow> order_cancellation_result \<times> 'p market" where
  "market_cancel_order cancellation m =
     (case ob_cancel_order cancellation (mk_orderbook m) of
        (result, ob) \<Rightarrow> (result, m\<lparr>mk_orderbook := ob\<rparr>))"

definition market_modify_order ::
    "'p::linorder order_modification \<Rightarrow> 'p market \<Rightarrow> order_modification_result \<times> 'p market" where
  "market_modify_order modification m =
     (case ob_modify_order modification (mk_orderbook m) of
        (result, ob) \<Rightarrow> (result, m\<lparr>mk_orderbook := ob\<rparr>))"

fun add_lengths :: "'p levels \<Rightarrow> nat \<Rightarrow> nat" where
  "add_lengths [] result = result"
| "add_lengths ((k, v) # ls) result = add_lengths ls (result + length v)"

definition market_get_orderbook_size :: "'p market \<Rightarrow> nat" where
  "market_get_orderbook_size m =
     add_lengths (asks (mk_orderbook m)) (add_lengths (bids (mk_orderbook m)) 0)"

definition market_get_l1 :: "build \<Rightarrow> 'p market \<Rightarrow> 'p orderbook_l1 option" where
  "market_get_l1 b m = ob_get_l1 b (mk_orderbook m)"

definition market_get_l2 :: "build \<Rightarrow> 'p market \<Rightarrow> 'p orderbook_l2 option" where
  "market_get_l2 b m = ob_get_l2 b (mk_orderbook m)"

text \<open>\<open>Display\<close> of an asset pair.\<close>

definition asset_pair_display :: "asset_pair \<Rightarrow> string" where
  "asset_pair_display p = as_symbol (ap_primary p) @ ''/'' @ as_symbol (ap_secondary p)"

section \<open>The markets\<close>

record 'p markets =
  ms_keys :: "asset_id_pair list"
  ms_inner :: "'p market list"

definition markets_new :: "'p markets" where
  "markets_new = \<lparr>ms_keys = [], ms_inner = []\<rparr>"

definition markets_contains :: "asset_id_pair \<Rightarrow> 'p markets \<Rightarrow> bool" where
  "markets_contains key ms \<longleftrightarrow> key \<in> set (ms_keys ms)"

fun find_market :: "asset_id_pair \<Rightarrow> 'p market list \<Rightarrow> 'p market option" where
  "find_market key [] = None"
| "find_market key (m # inner) = (if mk_asset_pair m = key then Some m else find_market key inner)"

definition markets_get :: "'p markets \<Rightarrow> asset_id_pair \<Rightarrow> 'p market option" where
  "markets_get ms key = find_market key (ms_inner ms)"

text \<open>\<open>get_mut\<close> is the lookup and, for what is written through the reference, this store.\<close>

fun replace_market :: "asset_id_pair \<Rightarrow> 'p market \<Rightarrow> 'p market list \<Rightarrow> 'p market list" where
  "replace_market key m' [] = []"
| "replace_market key m' (m # inner) =
     (if mk_asset_pair m = key then m' # inner else m # replace_market key m' inner)"

definition markets_store :: "asset_id_pair \<Rightarrow> 'p market \<Rightarrow> 'p markets \<Rightarrow> 'p markets" where
  "markets_store key m ms = ms\<lparr>ms_inner := replace_market key m (ms_inner ms)\<rparr>"

definition markets_add_market ::
    "'p \<Rightarrow> asset_id_pair \<Rightarrow> 'p markets \<Rightarrow> (market_creation_error + unit) \<times> 'p markets" where
  "markets_add_market zero asset_pair ms =
     (if markets_contains asset_pair ms then (Inl MarketAlreadyExists, ms)
      else (Inr (), ms\<lparr>ms_keys := ms_keys ms @ [asset_pair],
              ms_inner := ms_inner ms @ [market_new zero asset_pair]\<rparr>))"

section \<open>Correctness\<close>

definition markets_ok :: "'p markets \<Rightarrow> bool" where
  "markets_ok ms \<longleftrightarrow> map mk_asset_pair (ms_inner ms) = ms_keys ms \<and> distinct (ms_keys ms)"

lemma markets_new_ok [simp]: "markets_ok markets_new"
  by (simp add: markets_ok_def markets_new_def)

lemma find_market_key: "find_market key inner = Some m \<Longrightarrow> mk_asset_pair m = key"
  by (induction inner) (auto split: if_splits)

lemma find_market_None: "find_market key inner = None \<longleftrightarrow> key \<notin> mk_asset_pair ` set inner"
  by (induction inner) auto

lemma find_market_append:
  "find_market key (inner @ inner') =
     (case find_market key inner of Some m \<Rightarrow> Some m | None \<Rightarrow> find_market key inner')"
  by (induction inner) auto

lemma find_market_replace:
  "find_market key inner \<noteq> None \<Longrightarrow> mk_asset_pair m = key \<Longrightarrow>
   find_market key' (replace_market key m inner) =
     (if key' = key then Some m else find_market key' inner)"
  by (induction inner) auto

lemma replace_market_pairs:
  "mk_asset_pair m = key \<Longrightarrow>
   map mk_asset_pair (replace_market key m inner) = map mk_asset_pair inner"
  by (induction inner) auto

interpretation pair_markets: registry markets_get markets_store mk_asset_pair markets_ok
  by unfold_locales
    (simp_all add: markets_get_def markets_store_def find_market_key find_market_replace
      replace_market_pairs markets_ok_def)

lemma markets_get_None:
  "markets_ok ms \<Longrightarrow> markets_get ms key = None \<longleftrightarrow> key \<notin> set (ms_keys ms)"
  by (auto simp: markets_get_def find_market_None markets_ok_def simp flip: set_map)

lemma add_market_spec:
  assumes "markets_ok ms"
  shows "if markets_get ms pair = None
    then fst (markets_add_market zero pair ms) = Inr () \<and>
      markets_get (snd (markets_add_market zero pair ms)) =
        (markets_get ms)(pair \<mapsto> market_new zero pair)
    else markets_add_market zero pair ms = (Inl MarketAlreadyExists, ms)"
proof (cases "markets_get ms pair")
  case None
  then have "pair \<notin> set (ms_keys ms)" using assms by (simp add: markets_get_None)
  with None show ?thesis
    by (auto simp: markets_add_market_def markets_contains_def fun_eq_iff
        markets_get_def find_market_append market_new_def split: option.split)
next
  case (Some m)
  then have "pair \<in> set (ms_keys ms)" using assms by (metis markets_get_None option.distinct(1))
  with Some show ?thesis by (simp add: markets_add_market_def markets_contains_def)
qed

lemma add_market_ok:
  "markets_ok ms \<Longrightarrow> markets_ok (snd (markets_add_market zero pair ms))"
  by (simp add: markets_ok_def markets_add_market_def markets_contains_def market_new_def)

lemma add_lengths_flat: "add_lengths ls result = result + length (flat ls)"
  by (induction ls result rule: add_lengths.induct) auto

lemma market_insert_order_eq:
  assumes "market_insert_order b order m buf = Some (res, m', buf')"
  obtains ob' where "ob_insert_order b order (mk_orderbook m) buf = Some (res, ob', buf')"
    and "mk_orderbook m' = ob'" and "mk_asset_pair m' = mk_asset_pair m"
  using assms
  by (auto simp: market_insert_order_def Let_def split: option.splits sum.splits)

end
