(* ===== verification/Balance_Book.thy ===== *)
theory Balance_Book
  imports Prelude
begin

text \<open>
  The balances of \<open>src/balance_book.rs\<close>: one vector, a row of accounts per asset. The zero
  balance is an argument, since \<open>Balance\<close> is a number of the crate \<open>fixed\<close>.

  The locale \<open>ledger\<close> is what settlement needs of a store of balances; it is interpreted on
  the balance book, addressed by account and asset.
\<close>

section \<open>The interface\<close>

locale ledger =
  fixes read :: "'k \<Rightarrow> 's \<Rightarrow> 'b option"
    and "write" :: "'k \<Rightarrow> 'b \<Rightarrow> 's \<Rightarrow> 's"
    and cells :: "'s \<Rightarrow> 'k set"
    and ok :: "'s \<Rightarrow> bool"
  assumes read_cell: "ok s \<Longrightarrow> k \<in> cells s \<Longrightarrow> read k s \<noteq> None"
    and read_write: "ok s \<Longrightarrow> k \<in> cells s \<Longrightarrow> k' \<in> cells s \<Longrightarrow>
      read k' (write k v s) = (if k' = k then Some v else read k' s)"
    and write_ok: "ok s \<Longrightarrow> ok (write k v s)"
    and cells_write: "cells (write k v s) = cells s"
begin

definition total :: "('b \<Rightarrow> int) \<Rightarrow> 'k set \<Rightarrow> 's \<Rightarrow> int" where
  "total f K s = (\<Sum>k\<in>K. f (the (read k s)))"

lemma total_write:
  assumes "ok s" and "finite K" and "K \<subseteq> cells s" and "k \<in> cells s"
  shows "total f K (write k v s) =
    total f K s + (if k \<in> K then f v - f (the (read k s)) else 0)"
proof (cases "k \<in> K")
  case False
  then have "total f K (write k v s) = total f K s"
    unfolding total_def using assms by (intro sum.cong) (auto simp: read_write)
  with False show ?thesis by simp
next
  case True
  have "(\<Sum>j\<in>K - {k}. f (the (read j (write k v s)))) = (\<Sum>j\<in>K - {k}. f (the (read j s)))"
    using assms by (intro sum.cong) (auto simp: read_write)
  then show ?thesis
    using True assms(1,4) by (simp add: total_def sum.remove [OF assms(2) True] read_write)
qed

end

section \<open>The balance book\<close>

record 'b balance_book =
  bb_accounts :: account_id
  bb_assets :: asset_id
  bb_balances :: "'b list"

definition bb_new :: "'b balance_book" where
  "bb_new = \<lparr>bb_accounts = 0, bb_assets = 0, bb_balances = []\<rparr>"

definition bb_get_index :: "'b balance_book \<Rightarrow> asset_id \<Rightarrow> account_id \<Rightarrow> nat" where
  "bb_get_index bk asset_id account_id =
     unat (bb_accounts bk) * unat asset_id + unat account_id"

definition bb_get :: "account_id \<Rightarrow> asset_id \<Rightarrow> 'b balance_book \<Rightarrow> 'b option" where
  "bb_get account_id asset_id bk =
     (let index = bb_get_index bk asset_id account_id
      in if index < length (bb_balances bk) then Some (bb_balances bk ! index) else None)"

text \<open>
  A write through the reference of \<open>get_mut\<close>; \<open>None\<close> when there is no reference to write through.
\<close>

definition bb_write_mut :: "account_id \<Rightarrow> asset_id \<Rightarrow> 'b \<Rightarrow> 'b balance_book \<Rightarrow> 'b balance_book option" where
  "bb_write_mut account_id asset_id v bk =
     (let index = bb_get_index bk asset_id account_id
      in if index < length (bb_balances bk)
         then Some (bk\<lparr>bb_balances := (bb_balances bk)[index := v]\<rparr>) else None)"

text \<open>
  \<open>get_disjoint_mut\<close>: the slice method refuses an index out of bounds and two equal indices. The
  references it returns are represented by their indices.
\<close>

definition bb_get_disjoint_mut :: "(asset_id \<times> account_id) list \<Rightarrow> 'b balance_book \<Rightarrow> nat list option" where
  "bb_get_disjoint_mut indexing_pairs bk =
     (let indices = map (\<lambda>(asset_id, account_id). bb_get_index bk asset_id account_id) indexing_pairs
      in if (\<forall>i \<in> set indices. i < length (bb_balances bk)) \<and> distinct indices
         then Some indices else None)"

definition bb_add_asset :: "build \<Rightarrow> 'b \<Rightarrow> 'b balance_book \<Rightarrow> 'b balance_book option" where
  "bb_add_asset b zero bk =
     (let balances = bb_balances bk @ replicate (unat (bb_accounts bk)) zero
      in case u32_add b (bb_assets bk) 1 of
           None \<Rightarrow> None
         | Some assets \<Rightarrow> Some (bk\<lparr>bb_balances := balances, bb_assets := assets\<rparr>))"

text \<open>\<open>Vec::insert\<close>, which panics beyond the length, and the loop over the asset rows.\<close>

definition vec_insert :: "nat \<Rightarrow> 'a \<Rightarrow> 'a list \<Rightarrow> 'a list option" where
  "vec_insert index x xs =
     (if index \<le> length xs then Some (take index xs @ x # drop index xs) else None)"

fun insert_rows :: "nat \<Rightarrow> 'b \<Rightarrow> nat list \<Rightarrow> 'b list \<Rightarrow> 'b list option" where
  "insert_rows accounts zero [] balances = Some balances"
| "insert_rows accounts zero (i # is) balances =
     (let index = (i + 1) * accounts + i
      in case vec_insert index zero balances of
           None \<Rightarrow> None
         | Some balances' \<Rightarrow> insert_rows accounts zero is balances')"

definition bb_add_account :: "build \<Rightarrow> 'b \<Rightarrow> 'b balance_book \<Rightarrow> 'b balance_book option" where
  "bb_add_account b zero bk =
     (case insert_rows (unat (bb_accounts bk)) zero [0..<unat (bb_assets bk)] (bb_balances bk) of
        None \<Rightarrow> None
      | Some balances \<Rightarrow>
          (case u32_add b (bb_accounts bk) 1 of
             None \<Rightarrow> None
           | Some accounts \<Rightarrow> Some (bk\<lparr>bb_balances := balances, bb_accounts := accounts\<rparr>)))"

section \<open>Rows and columns\<close>

definition bb_ok :: "'b balance_book \<Rightarrow> bool" where
  "bb_ok bk \<longleftrightarrow> length (bb_balances bk) = unat (bb_assets bk) * unat (bb_accounts bk)"

definition bb_cells :: "'b balance_book \<Rightarrow> (account_id \<times> asset_id) set" where
  "bb_cells bk = {(account, asset). account < bb_accounts bk \<and> asset < bb_assets bk}"

lemma bb_new_ok: "bb_ok bb_new"
  by (simp add: bb_ok_def bb_new_def)

text \<open>The index stays within \<open>usize\<close>: its computation on \<open>nat\<close> is the code's on 64 bits.\<close>

lemma get_index_no_overflow: "bb_get_index bk asset_id account_id < 2 ^ 64"
proof -
  let ?n = "2 ^ 32 :: nat"
  have "unat (bb_accounts bk) \<le> ?n - 1" "unat asset_id \<le> ?n - 1" "unat account_id \<le> ?n - 1"
    using unat_u32_lt [of "bb_accounts bk"] unat_u32_lt [of asset_id] unat_u32_lt [of account_id]
    by simp_all
  then have "bb_get_index bk asset_id account_id \<le> (?n - 1) * (?n - 1) + (?n - 1)"
    unfolding bb_get_index_def by (intro add_mono mult_le_mono)
  also have "\<dots> < 2 ^ 64" by simp
  finally show ?thesis .
qed

lemma row_index_lt: "a < n \<Longrightarrow> s < m \<Longrightarrow> n * s + a < m * (n :: nat)"
proof -
  assume "a < n" and "s < m"
  then have "n * s + a < n * s + n" by simp
  also have "\<dots> = n * Suc s" by simp
  also have "\<dots> \<le> n * m" using \<open>s < m\<close> by (intro mult_le_mono2) simp
  finally show ?thesis by (simp add: mult.commute)
qed

lemma row_index_inj:
  assumes "n * s + a = n * t + (c :: nat)" and "a < n" and "c < n"
  shows "s = t \<and> a = c"
proof -
  from assms(1) have "(n * s + a) div n = (n * t + c) div n" "(n * s + a) mod n = (n * t + c) mod n"
    by simp_all
  with assms(2,3) show ?thesis by simp
qed

lemma get_index_lt:
  "bb_ok bk \<Longrightarrow> (account, asset) \<in> bb_cells bk \<Longrightarrow>
   bb_get_index bk asset account < length (bb_balances bk)"
  by (simp add: bb_ok_def bb_cells_def bb_get_index_def word_less_nat_alt row_index_lt)

lemma get_index_inj:
  assumes "(account, asset) \<in> bb_cells bk" and "(account', asset') \<in> bb_cells bk"
    and "bb_get_index bk asset account = bb_get_index bk asset' account'"
  shows "account = account' \<and> asset = asset'"
  using row_index_inj [of "unat (bb_accounts bk)" "unat asset" "unat account" "unat asset'" "unat account'"]
    assms by (simp add: bb_cells_def bb_get_index_def word_less_nat_alt word_unat_eq_iff)

lemma get_cell:
  "bb_ok bk \<Longrightarrow> (account, asset) \<in> bb_cells bk \<Longrightarrow>
   bb_get account asset bk = Some (bb_balances bk ! bb_get_index bk asset account)"
  by (simp add: bb_get_def Let_def get_index_lt)

section \<open>Writing a balance\<close>

definition bb_put :: "account_id \<times> asset_id \<Rightarrow> 'b \<Rightarrow> 'b balance_book \<Rightarrow> 'b balance_book" where
  "bb_put k v bk = (case bb_write_mut (fst k) (snd k) v bk of Some bk' \<Rightarrow> bk' | None \<Rightarrow> bk)"

definition bb_read :: "account_id \<times> asset_id \<Rightarrow> 'b balance_book \<Rightarrow> 'b option" where
  "bb_read k bk = bb_get (fst k) (snd k) bk"

lemma bb_put_fields [simp]:
  "bb_accounts (bb_put k v bk) = bb_accounts bk"
  "bb_assets (bb_put k v bk) = bb_assets bk"
  "length (bb_balances (bb_put k v bk)) = length (bb_balances bk)"
  by (simp_all add: bb_put_def bb_write_mut_def Let_def)

lemma bb_put_cells [simp]: "bb_cells (bb_put k v bk) = bb_cells bk"
  by (simp add: bb_cells_def)

lemma bb_put_index [simp]: "bb_get_index (bb_put k v bk) = bb_get_index bk"
  by (simp add: bb_get_index_def fun_eq_iff)

lemma bb_put_ok [simp]: "bb_ok (bb_put k v bk) = bb_ok bk"
  by (simp add: bb_ok_def)

lemma bb_put_store:
  assumes "bb_ok bk" and "(account, asset) \<in> bb_cells bk"
  shows "bb_put (account, asset) v bk =
    bk\<lparr>bb_balances := (bb_balances bk)[bb_get_index bk asset account := v]\<rparr>"
  using get_index_lt [OF assms] by (simp add: bb_put_def bb_write_mut_def Let_def)

lemma bb_read_put:
  assumes "bb_ok bk" and "k \<in> bb_cells bk" and "k' \<in> bb_cells bk"
  shows "bb_read k' (bb_put k v bk) = (if k' = k then Some v else bb_read k' bk)"
proof -
  obtain account asset account' asset' where k: "k = (account, asset)" "k' = (account', asset')"
    by (cases k; cases k')
  have lt: "bb_get_index bk asset account < length (bb_balances bk)"
    "bb_get_index bk asset' account' < length (bb_balances bk)"
    using assms k get_index_lt by blast+
  have "bb_get_index bk asset account = bb_get_index bk asset' account' \<Longrightarrow> k' = k"
    using get_index_inj assms k by blast
  then show ?thesis
    using lt by (auto simp: bb_read_def bb_get_def Let_def k nth_list_update
        bb_put_store [OF assms(1) assms(2) [unfolded k]] bb_get_index_def)
qed

interpretation balances: ledger bb_read bb_put bb_cells bb_ok
proof unfold_locales
  fix k and bk :: "'b balance_book"
  assume "bb_ok bk" "k \<in> bb_cells bk"
  then show "bb_read k bk \<noteq> None"
    by (cases k) (simp add: bb_read_def get_cell)
qed (simp_all add: bb_read_put)

text \<open>Distinct cells: \<open>get_disjoint_mut\<close> gives their references.\<close>

lemma get_disjoint_cells:
  assumes "bb_ok bk" and "\<And>asset account. (asset, account) \<in> set ps \<Longrightarrow> (account, asset) \<in> bb_cells bk"
    and "distinct ps"
  shows "bb_get_disjoint_mut ps bk = Some (map (\<lambda>(asset, account). bb_get_index bk asset account) ps)"
proof -
  let ?i = "\<lambda>(asset, account). bb_get_index bk asset account"
  have "inj_on ?i (set ps)"
  proof (rule inj_onI)
    fix x y
    assume "x \<in> set ps" and "y \<in> set ps" and "?i x = ?i y"
    then show "x = y"
      using get_index_inj [OF assms(2) assms(2), of "fst x" "snd x" "fst y" "snd y"]
      by (simp add: split_beta prod_eq_iff)
  qed
  moreover have "?i x < length (bb_balances bk)" if "x \<in> set ps" for x
    using get_index_lt [OF assms(1) assms(2), of "fst x" "snd x"] that by (simp add: split_beta)
  ultimately show ?thesis
    using assms(3) by (simp add: bb_get_disjoint_mut_def Let_def distinct_map)
qed

section \<open>New assets and accounts\<close>

lemma add_asset_spec:
  assumes "bb_ok bk" and "unat (bb_assets bk) + 1 < 2 ^ 32"
  obtains bk' where "bb_add_asset b zero bk = Some bk'" and "bb_ok bk'"
    and "bb_accounts bk' = bb_accounts bk" and "unat (bb_assets bk') = unat (bb_assets bk) + 1"
    and "\<And>k. k \<in> bb_cells bk \<Longrightarrow> bb_read k bk' = bb_read k bk"
    and "\<And>account. account < bb_accounts bk \<Longrightarrow> bb_read (account, bb_assets bk) bk' = Some zero"
proof -
  let ?bk = "bk\<lparr>bb_balances := bb_balances bk @ replicate (unat (bb_accounts bk)) zero,
    bb_assets := bb_assets bk + 1\<rparr>"
  have assets: "unat (bb_assets bk + 1) = unat (bb_assets bk) + 1"
    using assms(2) by (subst unat_add_exact) simp_all
  have "bb_add_asset b zero bk = Some ?bk"
    using assms(2) by (simp add: bb_add_asset_def Let_def)
  moreover have "bb_ok ?bk" using assms(1) by (simp add: bb_ok_def assets)
  moreover have "bb_read k ?bk = bb_read k bk" if "k \<in> bb_cells bk" for k
    using that get_index_lt [OF assms(1), of "fst k" "snd k"]
    by (simp add: bb_read_def bb_get_def bb_get_index_def nth_append Let_def)
  moreover have "bb_read (account, bb_assets bk) ?bk = Some zero" if "account < bb_accounts bk" for account
    using that assms(1)
    by (simp add: bb_read_def bb_get_def bb_get_index_def nth_append Let_def bb_ok_def
        word_less_nat_alt mult.commute)
  ultimately show thesis using that [of ?bk] by (simp add: assets)
qed

text \<open>Inserting a zero at the end of every row.\<close>

fun pad_rows :: "nat \<Rightarrow> 'b \<Rightarrow> nat \<Rightarrow> 'b list \<Rightarrow> 'b list" where
  "pad_rows n zero 0 xs = []"
| "pad_rows n zero (Suc m) xs = take n xs @ zero # pad_rows n zero m (drop n xs)"

lemma pad_rows_length: "length xs = m * n \<Longrightarrow> length (pad_rows n zero m xs) = m * Suc n"
  by (induction m arbitrary: xs) auto

lemma insert_rows_pads:
  "length xs = m * n \<Longrightarrow> length done_rows = k * Suc n \<Longrightarrow>
   insert_rows n zero [k..<k + m] (done_rows @ xs) = Some (done_rows @ pad_rows n zero m xs)"
proof (induction m arbitrary: k xs done_rows)
  case 0
  then show ?case by simp
next
  case (Suc m)
  have idx: "(k + 1) * n + k = length done_rows + n"
    by (simp add: Suc.prems)
  have ins: "vec_insert ((k + 1) * n + k) zero (done_rows @ xs) =
      Some ((done_rows @ take n xs @ [zero]) @ drop n xs)"
    unfolding idx using Suc.prems by (simp add: vec_insert_def)
  have "insert_rows n zero [Suc k..<Suc k + m] ((done_rows @ take n xs @ [zero]) @ drop n xs) =
      Some ((done_rows @ take n xs @ [zero]) @ pad_rows n zero m (drop n xs))"
    using Suc.prems by (intro Suc.IH) simp_all
  moreover have "[k..<k + Suc m] = k # [Suc k..<Suc k + m]"
    by (simp add: upt_conv_Cons del: upt_Suc)
  moreover have "insert_rows n zero (k # js) (done_rows @ xs) =
      insert_rows n zero js ((done_rows @ take n xs @ [zero]) @ drop n xs)" for js
    by (simp only: insert_rows.simps Let_def ins option.case)
  ultimately show ?case by (simp only:) simp
qed

lemma pad_rows_nth:
  "length xs = m * n \<Longrightarrow> s < m \<Longrightarrow> a \<le> n \<Longrightarrow>
   pad_rows n zero m xs ! (Suc n * s + a) = (if a < n then xs ! (n * s + a) else zero)"
proof (induction m arbitrary: xs s)
  case 0
  then show ?case by simp
next
  case (Suc m)
  have len: "length (take n xs) = n" using Suc.prems(1) by simp
  show ?case
  proof (cases s)
    case 0
    then show ?thesis using Suc.prems len by (auto simp: nth_append)
  next
    case (Suc t)
    have "(take n xs @ [zero]) @ pad_rows n zero m (drop n xs) = pad_rows n zero (Suc m) xs" by simp
    then have "pad_rows n zero (Suc m) xs ! (Suc n * s + a) =
        pad_rows n zero m (drop n xs) ! (Suc n * t + a)"
      using nth_append_length_plus [of "take n xs @ [zero]" "pad_rows n zero m (drop n xs)" "Suc n * t + a"]
        len Suc by (simp add: algebra_simps)
    also have "\<dots> = (if a < n then drop n xs ! (n * t + a) else zero)"
      using Suc.prems Suc by (intro Suc.IH) simp_all
    finally show ?thesis using Suc.prems(1) Suc by (simp add: add.assoc)
  qed
qed

lemma add_account_spec:
  assumes "bb_ok bk" and "unat (bb_accounts bk) + 1 < 2 ^ 32"
  obtains bk' where "bb_add_account b zero bk = Some bk'" and "bb_ok bk'"
    and "bb_assets bk' = bb_assets bk" and "unat (bb_accounts bk') = unat (bb_accounts bk) + 1"
    and "\<And>k. k \<in> bb_cells bk \<Longrightarrow> bb_read k bk' = bb_read k bk"
    and "\<And>asset. asset < bb_assets bk \<Longrightarrow> bb_read (bb_accounts bk, asset) bk' = Some zero"
proof -
  let ?n = "unat (bb_accounts bk)" and ?m = "unat (bb_assets bk)"
  let ?rows = "pad_rows ?n zero ?m (bb_balances bk)"
  let ?bk = "bk\<lparr>bb_balances := ?rows, bb_accounts := bb_accounts bk + 1\<rparr>"
  have accounts: "unat (bb_accounts bk + 1) = Suc ?n"
    using assms(2) by (subst unat_add_exact) simp_all
  have len: "length (bb_balances bk) = ?m * ?n" using assms(1) by (simp add: bb_ok_def)
  have "bb_add_account b zero bk = Some ?bk"
    using assms(2) insert_rows_pads [OF len, of "[]" 0 zero] by (simp add: bb_add_account_def)
  moreover have "bb_ok ?bk"
    using pad_rows_length [OF len, of zero] by (simp add: bb_ok_def accounts)
  moreover have read: "bb_read (account, asset) ?bk =
      Some (if account < bb_accounts bk then bb_balances bk ! bb_get_index bk asset account else zero)"
    if "account \<le> bb_accounts bk" "asset < bb_assets bk" for account asset
  proof -
    have "unat account \<le> ?n" "unat asset < ?m"
      using that by (simp_all add: word_le_nat_alt word_less_nat_alt)
    then have lt: "Suc ?n * unat asset + unat account < ?m * Suc ?n"
      by (intro row_index_lt) simp_all
    show ?thesis
      using lt pad_rows_nth [OF len \<open>unat asset < ?m\<close> \<open>unat account \<le> ?n\<close>, of zero]
      by (simp add: bb_read_def bb_get_def bb_get_index_def Let_def accounts
          pad_rows_length [OF len] word_less_nat_alt del: mult_Suc mult_Suc_right)
  qed
  moreover have "bb_read k ?bk = bb_read k bk" if "k \<in> bb_cells bk" for k
    using that read [of "fst k" "snd k"] get_cell [OF assms(1), of "fst k" "snd k"]
    by (auto simp: bb_cells_def bb_read_def)
  ultimately show thesis using that [of ?bk] by (simp add: accounts)
qed

end
