(* ===== verification/Recent_Transactions.thy ===== *)
theory Recent_Transactions
  imports Prelude
begin

text \<open>
  \<open>RecentTransactions\<close> of \<open>src/exchange.rs\<close>: a ring buffer over a \<open>Vec\<close>. The capacity is
  the \<open>Vec\<close>'s, which \<open>Vec::with_capacity\<close> makes at least what was asked for; the allocator's
  choice is the argument \<open>alloc\<close>. The abstract view of a buffer is the list of the transactions it
  holds, oldest first, and the locale \<open>bounded_log\<close> is what the exchange needs of it.
\<close>

section \<open>The interface\<close>

definition last_n :: "nat \<Rightarrow> 'a list \<Rightarrow> 'a list" where
  "last_n n xs = drop (length xs - n) xs"

lemma length_last_n [simp]: "length (last_n n xs) = min n (length xs)"
  by (auto simp: last_n_def)

lemma last_n_all [simp]: "length xs \<le> n \<Longrightarrow> last_n n xs = xs"
  by (simp add: last_n_def)

lemma last_n_append: "last_n n (last_n n xs @ ys) = last_n n (xs @ ys)"
  by (cases "length xs \<le> n") (auto simp: last_n_def add.commute)

lemma last_n_snoc: "length xs = n \<Longrightarrow> xs \<noteq> [] \<Longrightarrow> last_n n (xs @ [x]) = tl xs @ [x]"
  by (cases xs) (simp_all add: last_n_def)

locale bounded_log =
  fixes push :: "'t \<Rightarrow> 'l \<Rightarrow> 'l option"
    and get :: "'l \<Rightarrow> 't list option"
    and view :: "'l \<Rightarrow> 't list"
    and capacity :: "'l \<Rightarrow> nat"
    and ok :: "'l \<Rightarrow> bool"
  assumes get_view: "ok l \<Longrightarrow> get l = Some (view l)"
    and push_view: "ok l \<Longrightarrow> \<exists>l'. push t l = Some l' \<and> ok l' \<and> capacity l' = capacity l \<and>
      view l' = last_n (capacity l) (view l @ [t])"
    and view_bound: "ok l \<Longrightarrow> length (view l) \<le> capacity l"
begin

text \<open>Pushing a list of transactions one by one.\<close>

primrec push_all :: "'t list \<Rightarrow> 'l \<Rightarrow> 'l option" where
  "push_all [] l = Some l"
| "push_all (t # ts) l = (case push t l of None \<Rightarrow> None | Some l' \<Rightarrow> push_all ts l')"

lemma push_all_view:
  "ok l \<Longrightarrow> \<exists>l'. push_all ts l = Some l' \<and> ok l' \<and> capacity l' = capacity l \<and>
     view l' = last_n (capacity l) (view l @ ts)"
proof (induction ts arbitrary: l)
  case Nil
  then show ?case using view_bound by simp
next
  case (Cons t ts)
  obtain l' where l': "push t l = Some l'" "ok l'" "capacity l' = capacity l"
    "view l' = last_n (capacity l) (view l @ [t])"
    using push_view [OF Cons.prems] by blast
  from Cons.IH [OF l'(2)] l' show ?case by (auto simp: last_n_append)
qed

end

section \<open>The ring buffer\<close>

record 't recent_transactions =
  rt_inner :: "'t list"
  rt_capacity :: nat
  rt_write_idx :: nat

definition rt_with_capacity :: "(nat \<Rightarrow> nat) \<Rightarrow> nat \<Rightarrow> 't recent_transactions" where
  "rt_with_capacity alloc capacity =
     \<lparr>rt_inner = [], rt_capacity = alloc capacity, rt_write_idx = 0\<rparr>"

text \<open>\<open>rotate_left\<close> panics beyond the length, \<open>%\<close> on a zero capacity.\<close>

definition rt_get :: "'t recent_transactions \<Rightarrow> 't list option" where
  "rt_get r =
     (if rt_capacity r = 0 then None
      else let mid = rt_write_idx r mod rt_capacity r
           in if mid \<le> length (rt_inner r) then Some (rotate mid (rt_inner r)) else None)"

definition rt_push :: "'t \<Rightarrow> 't recent_transactions \<Rightarrow> 't recent_transactions option" where
  "rt_push t r =
     (let cap = rt_capacity r in
      if length (rt_inner r) < cap
      then Some (r\<lparr>rt_inner := rt_inner r @ [t], rt_write_idx := rt_write_idx r + 1\<rparr>)
      else if cap = 0 then None
      else let i = rt_write_idx r mod cap
           in if i < length (rt_inner r)
              then Some (r\<lparr>rt_inner := (rt_inner r)[i := t], rt_write_idx := rt_write_idx r + 1\<rparr>)
              else None)"

text \<open>
  The invariant: while the buffer fills up the write index is its length; a full buffer has exactly
  its capacity.
\<close>

definition rt_ok :: "'t recent_transactions \<Rightarrow> bool" where
  "rt_ok r \<longleftrightarrow> 0 < rt_capacity r \<and> length (rt_inner r) \<le> rt_capacity r \<and>
     (length (rt_inner r) < rt_capacity r \<longrightarrow> rt_write_idx r = length (rt_inner r))"

definition rt_view :: "'t recent_transactions \<Rightarrow> 't list" where
  "rt_view r = rotate (rt_write_idx r mod rt_capacity r) (rt_inner r)"

lemma rt_view_length [simp]: "length (rt_view r) = length (rt_inner r)"
  by (simp add: rt_view_def)

lemma rt_ok_filling:
  "rt_ok r \<Longrightarrow> length (rt_inner r) < rt_capacity r \<Longrightarrow> rt_view r = rt_inner r"
  by (simp add: rt_ok_def rt_view_def)

lemma rotate_length_append_eq: "rotate1 (rotate (length xs) (xs @ [t])) = xs @ [t]"
  by (simp add: rotate_append)

lemma rotate_overwrite:
  assumes "k < length xs" and "length xs = c"
  shows "rotate (Suc k mod c) (xs[k := t]) = tl (rotate k xs) @ [t]"
proof -
  have r: "tl (rotate k xs) = drop (Suc k) xs @ take k xs"
    using assms(1) by (simp add: rotate_drop_take Cons_nth_drop_Suc [symmetric])
  show ?thesis
  proof (cases "Suc k < c")
    case True
    then have "rotate (Suc k mod c) (xs[k := t]) = drop (Suc k) xs @ take (Suc k) (xs[k := t])"
      using assms by (simp add: rotate_drop_take)
    also have "take (Suc k) (xs[k := t]) = take k xs @ [t]"
      using assms by (simp add: take_Suc_conv_app_nth)
    finally show ?thesis by (simp add: r)
  next
    case False
    with assms have "Suc k = c" by simp
    then have "rotate (Suc k mod c) (xs[k := t]) = xs[k := t]" by simp
    also have "\<dots> = take k xs @ [t]"
      using assms \<open>Suc k = c\<close> by (simp add: upd_conv_take_nth_drop)
    finally show ?thesis using \<open>Suc k = c\<close> assms by (simp add: r)
  qed
qed

lemma rt_push_filling:
  assumes "rt_ok r" and "length (rt_inner r) < rt_capacity r"
  shows "\<exists>r'. rt_push t r = Some r' \<and> rt_ok r' \<and> rt_capacity r' = rt_capacity r \<and>
    rt_view r' = rt_view r @ [t]"
proof -
  let ?r = "r\<lparr>rt_inner := rt_inner r @ [t], rt_write_idx := rt_write_idx r + 1\<rparr>"
  have idx: "rt_write_idx r = length (rt_inner r)" using assms by (simp add: rt_ok_def)
  have "rt_push t r = Some ?r" using assms(2) by (simp add: rt_push_def)
  moreover have "rt_ok ?r" using assms idx by (simp add: rt_ok_def)
  moreover have "rt_view ?r = rt_view r @ [t]"
  proof (cases "Suc (length (rt_inner r)) = rt_capacity r")
    case True
    then show ?thesis using rt_ok_filling [OF assms] idx by (simp add: rt_view_def)
  next
    case False
    with assms(2) have "Suc (length (rt_inner r)) < rt_capacity r" by simp
    then show ?thesis using rt_ok_filling [OF assms] idx
      by (simp add: rt_view_def rotate_length_append_eq)
  qed
  ultimately show ?thesis by (intro exI [of _ ?r]) simp
qed

lemma rt_push_full:
  assumes "rt_ok r" and "\<not> length (rt_inner r) < rt_capacity r"
  shows "\<exists>r'. rt_push t r = Some r' \<and> rt_ok r' \<and> rt_capacity r' = rt_capacity r \<and>
    rt_view r' = tl (rt_view r) @ [t]"
proof -
  let ?i = "rt_write_idx r mod rt_capacity r"
  let ?r = "r\<lparr>rt_inner := (rt_inner r)[?i := t], rt_write_idx := rt_write_idx r + 1\<rparr>"
  have len: "length (rt_inner r) = rt_capacity r" and cap: "0 < rt_capacity r"
    using assms by (simp_all add: rt_ok_def)
  then have i: "?i < length (rt_inner r)" by simp
  have "rt_push t r = Some ?r" using len cap i by (simp add: rt_push_def Let_def)
  moreover have "rt_ok ?r" using len cap by (simp add: rt_ok_def)
  moreover have "rt_view ?r = tl (rt_view r) @ [t]"
    using rotate_overwrite [OF i len, of t] by (simp add: rt_view_def mod_Suc_eq)
  ultimately show ?thesis by (intro exI [of _ ?r]) simp
qed

interpretation recent: bounded_log rt_push rt_get rt_view rt_capacity rt_ok
proof unfold_locales
  fix r :: "'t recent_transactions" and t :: 't
  assume ok: "rt_ok r"
  then have "rt_write_idx r mod rt_capacity r \<le> length (rt_inner r)"
    by (cases "length (rt_inner r) < rt_capacity r") (auto simp: rt_ok_def)
  with ok show "rt_get r = Some (rt_view r)"
    by (simp add: rt_get_def rt_view_def rt_ok_def)
  show bound: "length (rt_view r) \<le> rt_capacity r" using ok by (simp add: rt_ok_def)
  show "\<exists>r'. rt_push t r = Some r' \<and> rt_ok r' \<and> rt_capacity r' = rt_capacity r \<and>
      rt_view r' = last_n (rt_capacity r) (rt_view r @ [t])"
  proof (cases "length (rt_inner r) < rt_capacity r")
    case True
    with rt_push_filling [OF ok True, of t] show ?thesis by simp
  next
    case False
    then have "length (rt_view r) = rt_capacity r" "rt_view r \<noteq> []"
      using ok by (auto simp: rt_ok_def simp flip: length_0_conv)
    with rt_push_full [OF ok False, of t] show ?thesis by (simp add: last_n_snoc)
  qed
qed

lemma rt_with_capacity_ok:
  "0 < alloc c \<Longrightarrow> rt_ok (rt_with_capacity alloc c) \<and> rt_view (rt_with_capacity alloc c) = []"
  by (simp add: rt_with_capacity_def rt_ok_def rt_view_def)

lemma rt_push_idx: "rt_push t r = Some r' \<Longrightarrow> rt_write_idx r' = Suc (rt_write_idx r)"
  by (auto simp: rt_push_def Let_def split: if_splits)

end
