(* ===== verification/Fixed_Price.thy ===== *)
theory Fixed_Price
  imports Prelude
begin

text \<open>
  Prices and balances are \<open>I33F31\<close> of the crate \<open>fixed\<close> (\<open>src/util/types.rs\<close>), which is
  not part of the repository: its arithmetic is a parameter of the model, the record
  \<open>fixed_ops\<close>. An operation returns \<open>None\<close> where the crate panics on overflow (a build with
  overflow checks); without checks it wraps and returns a value.

  The locale \<open>fixed_price\<close> is what the crate documents of a signed 64-bit fixed-point number with
  31 fractional bits, through its bits. It is interpreted on \<open>i33f31_ops\<close>, such numbers as 64-bit
  words, which is also the instance the concrete examples use.
\<close>

record 'p fixed_ops =
  fx_zero :: 'p
  fx_from_u32 :: "u32 \<Rightarrow> 'p"
  fx_add :: "'p \<Rightarrow> 'p \<Rightarrow> 'p option"
  fx_sub :: "'p \<Rightarrow> 'p \<Rightarrow> 'p option"
  fx_mul :: "'p \<Rightarrow> 'p \<Rightarrow> 'p option"

definition in_i64 :: "int \<Rightarrow> bool" where
  "in_i64 i \<longleftrightarrow> - (2 ^ 63) \<le> i \<and> i < 2 ^ 63"

locale fixed_price =
  fixes fx :: "('p::linorder) fixed_ops" and bits :: "'p \<Rightarrow> int"
  assumes bits_range: "in_i64 (bits a)"
    and bits_le: "a \<le> b \<longleftrightarrow> bits a \<le> bits b"
    and bits_zero: "bits (fx_zero fx) = 0"
    and bits_from_u32: "bits (fx_from_u32 fx v) = uint v * 2 ^ 31"
    and add_wraps: "fx_add fx a b = Some c \<Longrightarrow> bits c mod 2 ^ 64 = (bits a + bits b) mod 2 ^ 64"
    and sub_wraps: "fx_sub fx a b = Some c \<Longrightarrow> bits c mod 2 ^ 64 = (bits a - bits b) mod 2 ^ 64"
    and add_defined: "in_i64 (bits a + bits b) \<Longrightarrow> fx_add fx a b \<noteq> None"
    and sub_defined: "in_i64 (bits a - bits b) \<Longrightarrow> fx_sub fx a b \<noteq> None"
    and mul_exact: "bits a * bits b = d * 2 ^ 31 \<Longrightarrow> in_i64 d \<Longrightarrow>
      \<exists>c. fx_mul fx a b = Some c \<and> bits c = d"
begin

lemma in_i64_mod_eq: "in_i64 i \<Longrightarrow> in_i64 j \<Longrightarrow> i mod 2 ^ 64 = j mod 2 ^ 64 \<Longrightarrow> i = j"
proof -
  assume i: "in_i64 i" and j: "in_i64 j" and "i mod 2 ^ 64 = j mod 2 ^ 64"
  then have "(i + 2 ^ 63) mod 2 ^ 64 = (j + 2 ^ 63) mod 2 ^ 64" by (intro mod_add_cong refl)
  moreover have "(i + 2 ^ 63) mod 2 ^ 64 = i + 2 ^ 63"
    using i by (intro mod_pos_pos_trivial) (simp_all add: in_i64_def)
  moreover have "(j + 2 ^ 63) mod 2 ^ 64 = j + 2 ^ 63"
    using j by (intro mod_pos_pos_trivial) (simp_all add: in_i64_def)
  ultimately show "i = j" by simp
qed

lemma add_exact:
  assumes "in_i64 (bits a + bits b)"
  shows "\<exists>c. fx_add fx a b = Some c \<and> bits c = bits a + bits b"
  using add_defined [OF assms] add_wraps [of a b] in_i64_mod_eq [OF bits_range assms] by blast

lemma sub_exact:
  assumes "in_i64 (bits a - bits b)"
  shows "\<exists>c. fx_sub fx a b = Some c \<and> bits c = bits a - bits b"
  using sub_defined [OF assms] sub_wraps [of a b] in_i64_mod_eq [OF bits_range assms] by blast

text \<open>A volume times a price has no rounding: the volume has no fractional bits.\<close>

lemma volume_times_price:
  assumes "in_i64 (uint v * bits p)"
  shows "\<exists>c. fx_mul fx (fx_from_u32 fx v) p = Some c \<and> bits c = uint v * bits p"
  by (rule mul_exact [OF _ assms]) (simp add: bits_from_u32)

end

section \<open>The numbers as 64-bit words\<close>

datatype i33f31 = From_bits (to_bits: "64 word")

definition i33f31_bits :: "i33f31 \<Rightarrow> int" where
  "i33f31_bits a = sint (to_bits a)"

lemma i33f31_eqI: "sint (to_bits x) = sint (to_bits y) \<Longrightarrow> x = y"
  by (rule i33f31.expand) (rule signed_word_eqI)

instantiation i33f31 :: linorder
begin

definition less_eq_i33f31 :: "i33f31 \<Rightarrow> i33f31 \<Rightarrow> bool" where
  "less_eq_i33f31 a b \<longleftrightarrow> sint (to_bits a) \<le> sint (to_bits b)"

definition less_i33f31 :: "i33f31 \<Rightarrow> i33f31 \<Rightarrow> bool" where
  "less_i33f31 a b \<longleftrightarrow> sint (to_bits a) < sint (to_bits b)"

instance
  by standard
    (auto simp: less_eq_i33f31_def less_i33f31_def intro: i33f31_eqI)

end

definition i33f31_of_int :: "build \<Rightarrow> int \<Rightarrow> i33f31 option" where
  "i33f31_of_int b i = (if in_i64 i \<or> b = Release then Some (From_bits (word_of_int i)) else None)"

definition i33f31_ops :: "build \<Rightarrow> i33f31 fixed_ops" where
  "i33f31_ops b =
     \<lparr>fx_zero = From_bits 0,
      fx_from_u32 = (\<lambda>v. From_bits (word_of_int (uint v * 2 ^ 31))),
      fx_add = (\<lambda>x y. i33f31_of_int b (i33f31_bits x + i33f31_bits y)),
      fx_sub = (\<lambda>x y. i33f31_of_int b (i33f31_bits x - i33f31_bits y)),
      fx_mul = (\<lambda>x y. i33f31_of_int b (i33f31_bits x * i33f31_bits y div 2 ^ 31))\<rparr>"

lemma sint_word_of_int: "in_i64 i \<Longrightarrow> sint (word_of_int i :: 64 word) = i"
  by (simp add: in_i64_def signed_take_bit_int_eq_self sint_sbintrunc')

lemma uint_lt2p_u32: "0 \<le> uint (v :: u32) \<and> uint v < 2 ^ 32"
  using unsigned_less [of v, where 'a = int] by simp

lemma in_i64_sint: "in_i64 (sint (w :: 64 word))"
  using sint_range_size [of w] by (simp add: in_i64_def word_size)

lemma sint_word_of_int_mod: "sint (word_of_int i :: 64 word) mod 2 ^ 64 = i mod 2 ^ 64"
proof -
  have "sint (word_of_int i :: 64 word) mod 2 ^ 64 = uint (word_of_int i :: 64 word)"
    by (simp add: uint_sint take_bit_eq_mod)
  also have "\<dots> = i mod 2 ^ 64" by (simp add: uint_word_of_int)
  finally show ?thesis .
qed

lemma i33f31_of_int_bits:
  "i33f31_of_int b i = Some c \<Longrightarrow> i33f31_bits c mod 2 ^ 64 = i mod 2 ^ 64"
  using sint_word_of_int_mod [of i] by (auto simp: i33f31_of_int_def i33f31_bits_def split: if_splits)

interpretation fixed_i33f31: fixed_price "i33f31_ops b" i33f31_bits for b
proof unfold_locales
  fix v :: u32
  have "in_i64 (uint v * 2 ^ 31)"
    using uint_lt2p_u32 [of v] order_trans [of "- (2 ^ 32)" 0 "uint v"] by (simp add: in_i64_def)
  from sint_word_of_int [OF this]
  show "i33f31_bits (fx_from_u32 (i33f31_ops b) v) = uint v * 2 ^ 31"
    by (simp only: i33f31_ops_def fixed_ops.simps i33f31_bits_def i33f31.sel)
next
  fix x y :: i33f31 and d :: int
  assume eq: "i33f31_bits x * i33f31_bits y = d * 2 ^ 31" and d: "in_i64 d"
  have "i33f31_bits x * i33f31_bits y div 2 ^ 31 = d" by (simp only: eq) simp
  with d show "\<exists>c. fx_mul (i33f31_ops b) x y = Some c \<and> i33f31_bits c = d"
    by (simp add: i33f31_ops_def i33f31_of_int_def i33f31_bits_def sint_word_of_int)
next
  fix x y c :: i33f31
  show "fx_add (i33f31_ops b) x y = Some c \<Longrightarrow>
      i33f31_bits c mod 2 ^ 64 = (i33f31_bits x + i33f31_bits y) mod 2 ^ 64"
    by (simp only: i33f31_ops_def fixed_ops.simps i33f31_of_int_bits)
  show "fx_sub (i33f31_ops b) x y = Some c \<Longrightarrow>
      i33f31_bits c mod 2 ^ 64 = (i33f31_bits x - i33f31_bits y) mod 2 ^ 64"
    by (simp only: i33f31_ops_def fixed_ops.simps i33f31_of_int_bits)
qed (auto simp: i33f31_ops_def i33f31_of_int_def i33f31_bits_def less_eq_i33f31_def in_i64_sint)

end
