(* ===== verification/Exchange.thy ===== *)
theory Exchange
  imports Markets Balance_Book Recent_Transactions Fixed_Price "HOL-Library.AList"
begin

text \<open>
  The exchange of \<open>src/exchange.rs\<close>: its state, the administrative operations, order handling,
  settlement of the transactions an insertion produced, and the command loop.

  Arguments stand for what is outside the repository: \<open>fx\<close> is the arithmetic of the crate
  \<open>fixed\<close>, \<open>clock\<close> the system clock in milliseconds since the Unix epoch (its \<open>n\<close>-th
  reading for the \<open>n\<close>-th recorded transaction; \<open>None\<close> is a clock before the epoch, on which
  \<open>unwrap\<close> panics), and \<open>alloc\<close> the capacity \<open>Vec::with_capacity\<close> gives. \<open>None\<close> is a
  panic.

  \<open>accounts\<close> is a \<open>HashMap\<close>, here an association list of which only the length and the lookup
  matter. \<open>session_orders\<close> is a vector of pairs of an id and an order.
\<close>

section \<open>State\<close>

record account =
  ac_id :: account_id
  ac_username :: string

record 'p transaction =
  tr_market :: asset_id_pair
  tr_price :: 'p
  tr_volume :: volume
  tr_taker_side :: side
  tr_maker :: account_id
  tr_taker :: account_id
  tr_timestamp_ms :: u64

type_synonym 'p session_orders = "(order_id \<times> 'p placed_order) list"

record 'p exchange =
  ex_accounts :: "(account_id \<times> account) list"
  ex_traded_assets :: "asset list"
  ex_balance_book :: "'p balance_book"
  ex_markets :: "'p markets"
  ex_session_orders :: "'p session_orders"
  ex_last_100_tx :: "'p transaction recent_transactions"
  ex_transaction_buf :: "'p ob_transaction_buffer"

type_synonym clock = "nat \<Rightarrow> nat option"

definition exchange_new :: "(nat \<Rightarrow> nat) \<Rightarrow> 'p exchange" where
  "exchange_new alloc =
     \<lparr>ex_accounts = [], ex_traded_assets = [], ex_balance_book = bb_new, ex_markets = markets_new,
      ex_session_orders = [], ex_last_100_tx = rt_with_capacity alloc 100, ex_transaction_buf = []\<rparr>"

section \<open>Administration\<close>

definition exchange_add_asset ::
    "build \<Rightarrow> 'p fixed_ops \<Rightarrow> string \<Rightarrow> string \<Rightarrow> 'p exchange \<Rightarrow> (asset_id \<times> 'p exchange) option" where
  "exchange_add_asset b fx name symbol ex =
     (let new_id = of_nat (length (ex_traded_assets ex));
          new_asset = \<lparr>as_id = new_id, as_name = name, as_symbol = symbol\<rparr>;
          ex' = ex\<lparr>ex_traded_assets := ex_traded_assets ex @ [new_asset]\<rparr>
      in case bb_add_asset b (fx_zero fx) (ex_balance_book ex') of
           None \<Rightarrow> None
         | Some bk \<Rightarrow> Some (new_id, ex'\<lparr>ex_balance_book := bk\<rparr>))"

definition is_traded_asset :: "asset_id \<Rightarrow> 'p exchange \<Rightarrow> bool" where
  "is_traded_asset asset_id ex = list_ex (\<lambda>i. i = asset_id) (map as_id (ex_traded_assets ex))"

definition create_account ::
    "build \<Rightarrow> 'p fixed_ops \<Rightarrow> 'p exchange \<Rightarrow> (account_id \<times> 'p exchange) option" where
  "create_account b fx ex =
     (let new_id = of_nat (length (ex_accounts ex));
          ex' = ex\<lparr>ex_accounts :=
            AList.update new_id \<lparr>ac_id = new_id, ac_username = ''''\<rparr> (ex_accounts ex)\<rparr>
      in case bb_add_account b (fx_zero fx) (ex_balance_book ex') of
           None \<Rightarrow> None
         | Some bk \<Rightarrow> Some (new_id, ex'\<lparr>ex_balance_book := bk\<rparr>))"

definition create_account_with_name :: "string \<Rightarrow> 'p exchange \<Rightarrow> account_id \<times> 'p exchange" where
  "create_account_with_name username ex =
     (let new_id = of_nat (length (ex_accounts ex))
      in (new_id, ex\<lparr>ex_accounts :=
            AList.update new_id \<lparr>ac_id = new_id, ac_username = username\<rparr> (ex_accounts ex)\<rparr>))"

definition exchange_add_market ::
    "'p fixed_ops \<Rightarrow> asset_id_pair \<Rightarrow> 'p exchange
     \<Rightarrow> (market_creation_error + unit) \<times> 'p exchange" where
  "exchange_add_market fx pair ex =
     (if \<not> is_traded_asset (primary pair) ex \<or> \<not> is_traded_asset (secondary pair) ex
      then (Inl AssetNotTraded, ex)
      else (case markets_add_market (fx_zero fx) pair (ex_markets ex) of
              (result, ms) \<Rightarrow> (result, ex\<lparr>ex_markets := ms\<rparr>)))"

section \<open>Settlement\<close>

text \<open>
  \<open>get_disjoint_mut\<close> on the session's orders, and a write through one of its references: the
  reference is the index.
\<close>

definition get_disjoint_orders ::
    "order_id \<Rightarrow> order_id \<Rightarrow> 'p session_orders \<Rightarrow> ('p placed_order \<times> 'p placed_order) option" where
  "get_disjoint_orders i j orders =
     (if i < length orders \<and> j < length orders \<and> i \<noteq> j
      then Some (snd (orders ! i), snd (orders ! j)) else None)"

definition write_order :: "nat \<Rightarrow> 'p placed_order \<Rightarrow> 'p session_orders \<Rightarrow> 'p session_orders" where
  "write_order i order orders = orders[i := (fst (orders ! i), order)]"

text \<open>\<open>remaining_volume -= volume\<close>, then \<open>Filled\<close> when nothing is left.\<close>

definition take_volume :: "build \<Rightarrow> volume \<Rightarrow> 'p placed_order \<Rightarrow> 'p placed_order option" where
  "take_volume b volume order =
     (case u32_sub b (po_remaining_volume order) volume of
        None \<Rightarrow> None
      | Some remaining \<Rightarrow>
          (let order' = order\<lparr>po_remaining_volume := remaining\<rparr>
           in Some (if po_remaining_volume order' = 0 then order'\<lparr>po_status := Filled\<rparr> else order')))"

text \<open>\<open>*balance += amount\<close> or \<open>-=\<close> through the reference at an index.\<close>

definition apply_at ::
    "('b \<Rightarrow> 'b \<Rightarrow> 'b option) \<Rightarrow> nat \<Rightarrow> 'b \<Rightarrow> 'b balance_book \<Rightarrow> 'b balance_book option" where
  "apply_at f i amount bk =
     (case f (bb_balances bk ! i) amount of
        None \<Rightarrow> None
      | Some v \<Rightarrow> Some (bk\<lparr>bb_balances := (bb_balances bk)[i := v]\<rparr>))"

text \<open>The four updates of a transaction, in the code's order. The references are those of the primary
  asset of maker and taker, and of the secondary asset of maker and taker.\<close>

definition update_balances ::
    "'p fixed_ops \<Rightarrow> side \<Rightarrow> 'p \<Rightarrow> 'p \<Rightarrow> nat list \<Rightarrow> 'p balance_book \<Rightarrow> 'p balance_book option" where
  "update_balances fx taker_side volume_primary volume_secondary refs bk =
     (case refs of
        [balance_primary_maker, balance_primary_taker, balance_secondary_maker, balance_secondary_taker] \<Rightarrow>
          (case taker_side of
             Ask \<Rightarrow> do {
               bk1 \<leftarrow> apply_at (fx_sub fx) balance_primary_taker volume_primary bk;
               bk2 \<leftarrow> apply_at (fx_add fx) balance_secondary_taker volume_secondary bk1;
               bk3 \<leftarrow> apply_at (fx_add fx) balance_primary_maker volume_primary bk2;
               apply_at (fx_sub fx) balance_secondary_maker volume_secondary bk3
             }
           | Bid \<Rightarrow> do {
               bk1 \<leftarrow> apply_at (fx_add fx) balance_primary_taker volume_primary bk;
               bk2 \<leftarrow> apply_at (fx_sub fx) balance_secondary_taker volume_secondary bk1;
               bk3 \<leftarrow> apply_at (fx_sub fx) balance_primary_maker volume_primary bk2;
               apply_at (fx_add fx) balance_secondary_maker volume_secondary bk3
             })
      | _ \<Rightarrow> None)"

text \<open>One iteration of the loop of \<open>process_transactions\<close>.\<close>

definition settle_transaction ::
    "build \<Rightarrow> 'p fixed_ops \<Rightarrow> clock \<Rightarrow> asset_id_pair \<Rightarrow> 'p ob_transaction \<Rightarrow> 'p exchange
     \<Rightarrow> 'p exchange option" where
  "settle_transaction b fx clock pair t ex = do {
     let volume_primary = fx_from_u32 fx (tx_volume t);
     volume_secondary \<leftarrow> fx_mul fx volume_primary (tx_price t);
     (maker_order, taker_order) \<leftarrow>
       get_disjoint_orders (tx_order_id_maker t) (tx_order_id_taker t) (ex_session_orders ex);
     maker_order' \<leftarrow> take_volume b (tx_volume t) maker_order;
     taker_order' \<leftarrow> take_volume b (tx_volume t) taker_order;
     let orders = write_order (tx_order_id_taker t) taker_order'
                    (write_order (tx_order_id_maker t) maker_order' (ex_session_orders ex));
     let maker_id = po_account_id maker_order';
     let taker_id = po_account_id taker_order';
     refs \<leftarrow> bb_get_disjoint_mut
       [(primary pair, maker_id), (primary pair, taker_id),
        (secondary pair, maker_id), (secondary pair, taker_id)] (ex_balance_book ex);
     bk \<leftarrow> update_balances fx (tx_taker_side t) volume_primary volume_secondary refs (ex_balance_book ex);
     timestamp_ms \<leftarrow> clock (rt_write_idx (ex_last_100_tx ex));
     last_100_tx \<leftarrow> rt_push
       \<lparr>tr_market = pair, tr_price = tx_price t, tr_volume = tx_volume t,
        tr_taker_side = tx_taker_side t, tr_maker = maker_id, tr_taker = taker_id,
        tr_timestamp_ms = of_nat timestamp_ms\<rparr> (ex_last_100_tx ex);
     Some (ex\<lparr>ex_session_orders := orders, ex_balance_book := bk, ex_last_100_tx := last_100_tx\<rparr>)
   }"

text \<open>
  \<open>while let Some(transaction) = self.transaction_buf.pop()\<close>: the buffer is consumed from its end.
  The list is the buffer reversed, so that the transaction popped next is its head.
\<close>

fun settle_popped ::
    "build \<Rightarrow> 'p fixed_ops \<Rightarrow> clock \<Rightarrow> asset_id_pair \<Rightarrow> 'p ob_transaction_buffer \<Rightarrow> 'p exchange
     \<Rightarrow> 'p exchange option" where
  "settle_popped b fx clock pair [] ex = Some (ex\<lparr>ex_transaction_buf := []\<rparr>)"
| "settle_popped b fx clock pair (t # ts) ex =
     (case settle_transaction b fx clock pair t (ex\<lparr>ex_transaction_buf := rev ts\<rparr>) of
        None \<Rightarrow> None
      | Some ex' \<Rightarrow> settle_popped b fx clock pair ts ex')"

definition process_transactions ::
    "build \<Rightarrow> 'p fixed_ops \<Rightarrow> clock \<Rightarrow> asset_id_pair \<Rightarrow> 'p exchange \<Rightarrow> 'p exchange option" where
  "process_transactions b fx clock pair ex =
     settle_popped b fx clock pair (rev (ex_transaction_buf ex)) ex"

section \<open>Order handling\<close>

definition exchange_insert_order ::
    "build \<Rightarrow> 'p::linorder fixed_ops \<Rightarrow> clock \<Rightarrow> 'p order_insertion_request \<Rightarrow> 'p exchange
     \<Rightarrow> (order_insertion_result \<times> 'p exchange) option" where
  "exchange_insert_order b fx clock req ex =
     (case markets_get (ex_markets ex) (rq_pair req) of
        None \<Rightarrow> Some (Inl order_insertion_error.MarketDoesNotExist, ex)
      | Some market \<Rightarrow>
          if length (ex_accounts ex) \<le> unat (rq_account_id req)
          then Some (Inl AccountDoesNotExist, ex)
          else
            (let new_id = length (ex_session_orders ex);
                 insertion = into_insertion req new_id
             in case market_insert_order b insertion market (ex_transaction_buf ex) of
                  None \<Rightarrow> None
                | Some (ob_result, market', buf) \<Rightarrow>
                    (let ex1 = ex\<lparr>ex_markets := markets_store (rq_pair req) market' (ex_markets ex),
                                  ex_transaction_buf := buf\<rparr>
                     in case ob_result of
                          Inl err \<Rightarrow> Some (Inl err, ex1)
                        | Inr ef \<Rightarrow>
                            (let ex2 = ex1\<lparr>ex_session_orders :=
                                   ex_session_orders ex1 @ [(new_id, from_insertion insertion)]\<rparr>
                             in case process_transactions b fx clock (rq_pair req) ex2 of
                                  None \<Rightarrow> None
                                | Some ex3 \<Rightarrow>
                                    Some (Inr \<lparr>ie_id = new_id, ie_status = ef_status ef\<rparr>, ex3)))))"

text \<open>
  \<open>iter_mut().find\<close> by id, as an index into the vector: the references to the order are to that
  element.
\<close>

fun find_order :: "order_id \<Rightarrow> nat \<Rightarrow> 'p session_orders \<Rightarrow> nat option" where
  "find_order oid i [] = None"
| "find_order oid i ((order_id, order) # orders) =
     (if order_id = oid then Some i else find_order oid (Suc i) orders)"

definition exchange_cancel_order ::
    "order_cancellation_request \<Rightarrow> 'p::linorder exchange
     \<Rightarrow> order_cancellation_result \<times> 'p exchange" where
  "exchange_cancel_order req ex =
     (case find_order (cr_order_id req) 0 (ex_session_orders ex) of
        None \<Rightarrow> (Inl order_cancellation_error.OrderDoesNotExist, ex)
      | Some i \<Rightarrow>
          (let order = snd (ex_session_orders ex ! i) in
           if po_account_id order \<noteq> cr_account_id req
           then (Inl order_cancellation_error.Unauthorized, ex)
           else if po_status order = Cancelled then (Inl AlreadyCancelled, ex)
           else if po_status order = Filled then (Inl order_cancellation_error.AlreadyFilled, ex)
           else
             (case markets_get (ex_markets ex) (po_pair order) of
                None \<Rightarrow> (Inl order_cancellation_error.MarketDoesNotExist, ex)
              | Some market \<Rightarrow>
                  (case market_cancel_order
                          (into_cancellation req (po_pair order) (po_side order) (po_price order)) market of
                     (result, market') \<Rightarrow>
                       (let ex1 = ex\<lparr>ex_markets := markets_store (po_pair order) market' (ex_markets ex)\<rparr>
                        in (result,
                            (case result of
                               Inl _ \<Rightarrow> ex1
                             | Inr _ \<Rightarrow> ex1\<lparr>ex_session_orders :=
                                 write_order i (order\<lparr>po_status := Cancelled\<rparr>)
                                   (ex_session_orders ex1)\<rparr>)))))))"

text \<open>The update of the session's order after its market accepted the modification.\<close>

definition modified_order :: "build \<Rightarrow> volume \<Rightarrow> 'p placed_order \<Rightarrow> 'p placed_order option" where
  "modified_order b new_volume order =
     (case u32_sub b (po_volume order) (po_remaining_volume order) of
        None \<Rightarrow> None
      | Some volume_filled \<Rightarrow>
          Some (if volume_filled > new_volume
                then order\<lparr>po_volume := volume_filled, po_status := Filled\<rparr>
                else order\<lparr>po_volume := new_volume\<rparr>))"

definition exchange_modify_order ::
    "build \<Rightarrow> order_modification_request \<Rightarrow> 'p::linorder exchange
     \<Rightarrow> (order_modification_result \<times> 'p exchange) option" where
  "exchange_modify_order b req ex =
     (case find_order (mr_order_id req) 0 (ex_session_orders ex) of
        None \<Rightarrow> Some (Inl order_modification_error.OrderDoesNotExist, ex)
      | Some i \<Rightarrow>
          (let order = snd (ex_session_orders ex ! i) in
           if po_account_id order \<noteq> mr_account_id req
           then Some (Inl order_modification_error.Unauthorized, ex)
           else if po_status order = Filled then Some (Inl order_modification_error.AlreadyFilled, ex)
           else if mr_new_volume req > po_volume order then Some (Inl VolumeNotLower, ex)
           else
             (case markets_get (ex_markets ex) (po_pair order) of
                None \<Rightarrow> Some (Inl order_modification_error.MarketDoesNotExist, ex)
              | Some market \<Rightarrow>
                  (case into_order_modification b req (po_pair order) (po_side order) (po_price order)
                          (po_volume order) of
                     None \<Rightarrow> None
                   | Some modification \<Rightarrow>
                       (case market_modify_order modification market of
                          (result, market') \<Rightarrow>
                            (let ex1 = ex\<lparr>ex_markets :=
                                   markets_store (po_pair order) market' (ex_markets ex)\<rparr>
                             in case result of
                                  Inl _ \<Rightarrow> Some (result, ex1)
                                | Inr _ \<Rightarrow>
                                    (case modified_order b (mr_new_volume req) order of
                                       None \<Rightarrow> None
                                     | Some order' \<Rightarrow>
                                         Some (result, ex1\<lparr>ex_session_orders :=
                                           write_order i order' (ex_session_orders ex1)\<rparr>))))))))"

section \<open>Queries\<close>

definition get_orderbook_l1 ::
    "build \<Rightarrow> asset_id_pair \<Rightarrow> 'p exchange \<Rightarrow> (get_orderbook_error + 'p orderbook_l1) option" where
  "get_orderbook_l1 b pair ex =
     (case markets_get (ex_markets ex) pair of
        None \<Rightarrow> Some (Inl get_orderbook_error.MarketDoesNotExist)
      | Some market \<Rightarrow> map_option Inr (market_get_l1 b market))"

definition get_orderbook_l2 ::
    "build \<Rightarrow> asset_id_pair \<Rightarrow> 'p exchange \<Rightarrow> (get_orderbook_error + 'p orderbook_l2) option" where
  "get_orderbook_l2 b pair ex =
     (case markets_get (ex_markets ex) pair of
        None \<Rightarrow> Some (Inl get_orderbook_error.MarketDoesNotExist)
      | Some market \<Rightarrow> map_option Inr (market_get_l2 b market))"

fun collect_l1 :: "build \<Rightarrow> 'p market list \<Rightarrow> (asset_id_pair \<times> 'p orderbook_l1) list option" where
  "collect_l1 b [] = Some []"
| "collect_l1 b (m # inner) =
     (case market_get_l1 b m of
        None \<Rightarrow> None
      | Some l1 \<Rightarrow> map_option ((#) (mk_asset_pair m, l1)) (collect_l1 b inner))"

definition get_all_orderbook_l1 ::
    "build \<Rightarrow> 'p exchange \<Rightarrow> (asset_id_pair \<times> 'p orderbook_l1) list option" where
  "get_all_orderbook_l1 b ex = collect_l1 b (ms_inner (ex_markets ex))"

definition get_last_100_transactions :: "'p exchange \<Rightarrow> 'p transaction list option" where
  "get_last_100_transactions ex = rt_get (ex_last_100_tx ex)"

end
