(* ===== verification/Settlement.thy ===== *)
theory Settlement
  imports Exchange
begin

text \<open>
  What settling a batch of transactions does: every order loses what it traded and is filled when
  nothing is left, every balance moves by the double entry of the transactions, and the log of
  recent transactions grows by them. The specification is \<open>order_after\<close> and \<open>posting\<close>; the
  lemmas show that \<open>settle_transaction\<close> and the loop over the buffer implement it, and that
  neither panics when the orders have the volume.
\<close>

section \<open>Orders\<close>

definition order_at :: "'p session_orders \<Rightarrow> nat \<Rightarrow> 'p placed_order" where
  "order_at orders i = snd (orders ! i)"

definition involves :: "order_id \<Rightarrow> 'p ob_transaction \<Rightarrow> bool" where
  "involves i t \<longleftrightarrow> tx_order_id_maker t = i \<or> tx_order_id_taker t = i"

definition traded_in :: "order_id \<Rightarrow> 'p ob_transaction_buffer \<Rightarrow> nat" where
  "traded_in i ts = (\<Sum>t\<leftarrow>ts. if involves i t then unat (tx_volume t) else 0)"

definition order_after :: "order_id \<Rightarrow> 'p ob_transaction_buffer \<Rightarrow> 'p placed_order \<Rightarrow> 'p placed_order" where
  "order_after i ts order =
     (if \<exists>t \<in> set ts. involves i t
      then let r = po_remaining_volume order - of_nat (traded_in i ts)
           in order\<lparr>po_remaining_volume := r,
                    po_status := if r = 0 then Filled else po_status order\<rparr>
      else order)"

lemma traded_in_simps [simp]:
  "traded_in i [] = 0"
  "traded_in i (t # ts) = (if involves i t then unat (tx_volume t) else 0) + traded_in i ts"
  "traded_in i (ts @ ts') = traded_in i ts + traded_in i ts'"
  by (simp_all add: traded_in_def)

lemma traded_in_rev [simp]: "traded_in i (rev ts) = traded_in i ts"
  by (induction ts) auto

lemma traded_in_none: "\<forall>t \<in> set ts. \<not> involves i t \<Longrightarrow> traded_in i ts = 0"
  by (induction ts) auto

lemma order_after_Nil [simp]: "order_after i [] order = order"
  by (simp add: order_after_def)

lemma order_after_rev [simp]: "order_after i (rev ts) order = order_after i ts order"
  by (simp add: order_after_def)

lemma order_after_fields [simp]:
  "po_id (order_after i ts order) = po_id order"
  "po_account_id (order_after i ts order) = po_account_id order"
  "po_pair (order_after i ts order) = po_pair order"
  "po_side (order_after i ts order) = po_side order"
  "po_price (order_after i ts order) = po_price order"
  "po_volume (order_after i ts order) = po_volume order"
  by (simp_all add: order_after_def Let_def)

lemma unat_sub_of_nat:
  assumes "n \<le> unat (v :: u32)"
  shows "unat (v - of_nat n) = unat v - n"
proof -
  have "n < 2 ^ 32" using assms unat_u32_lt [of v] by simp
  then have n: "unat (of_nat n :: u32) = n" by (simp add: unat_of_nat take_bit_nat_eq_self)
  then have "(of_nat n :: u32) \<le> v" using assms by (simp add: word_le_nat_alt)
  from unat_sub_exact [OF this] n show ?thesis by simp
qed

lemma order_after_remaining:
  assumes "traded_in i ts \<le> unat (po_remaining_volume order)"
  shows "unat (po_remaining_volume (order_after i ts order)) =
    unat (po_remaining_volume order) - traded_in i ts"
  using assms unat_sub_of_nat [OF assms]
  by (auto simp: order_after_def Let_def traded_in_none)

lemma order_after_status:
  "po_status (order_after i ts order) = Filled \<or> po_status (order_after i ts order) = po_status order"
  by (simp add: order_after_def Let_def)

lemma order_after_Cons:
  assumes "traded_in i (t # ts) \<le> unat (po_remaining_volume order)"
  shows "order_after i ts (order_after i [t] order) = order_after i (t # ts) order"
proof -
  let ?r = "po_remaining_volume order"
  have split: "?r - (tx_volume t + of_nat n) = ?r - tx_volume t - of_nat n" for n by simp
  show ?thesis
  proof (cases "involves i t")
    case False
    then show ?thesis by (simp add: order_after_def)
  next
    case True
    have "?r - tx_volume t = 0 \<Longrightarrow> traded_in i ts = 0"
      using assms True by simp
    with True show ?thesis by (auto simp: order_after_def Let_def split traded_in_none)
  qed
qed

lemma take_volume_exact:
  assumes "v \<le> po_remaining_volume order"
  shows "take_volume b v order = Some (let r = po_remaining_volume order - v in
    order\<lparr>po_remaining_volume := r, po_status := if r = 0 then Filled else po_status order\<rparr>)"
  using assms by (simp add: take_volume_def Let_def)

lemma order_after_single:
  "involves i t \<Longrightarrow> order_after i [t] order =
    (let r = po_remaining_volume order - tx_volume t in
     order\<lparr>po_remaining_volume := r, po_status := if r = 0 then Filled else po_status order\<rparr>)"
  by (simp add: order_after_def)

text \<open>The orders a transaction names exist, are two, and belong to two accounts with balances.\<close>

definition can_settle ::
    "asset_id_pair \<Rightarrow> 'p session_orders \<Rightarrow> 'p balance_book \<Rightarrow> 'p ob_transaction \<Rightarrow> bool" where
  "can_settle pair orders bk t \<longleftrightarrow>
     (let maker = tx_order_id_maker t; taker = tx_order_id_taker t;
          maker_id = po_account_id (order_at orders maker);
          taker_id = po_account_id (order_at orders taker)
      in maker < length orders \<and> taker < length orders \<and> maker \<noteq> taker \<and> maker_id \<noteq> taker_id \<and>
         primary pair \<noteq> secondary pair \<and>
         (\<forall>a \<in> {maker_id, taker_id}. \<forall>s \<in> {primary pair, secondary pair}. (a, s) \<in> bb_cells bk))"

section \<open>Balances\<close>

definition fx_total :: "'p fixed_ops \<Rightarrow> bool" where
  "fx_total fx \<longleftrightarrow>
     (\<forall>x y. fx_add fx x y \<noteq> None \<and> fx_sub fx x y \<noteq> None \<and> fx_mul fx x y \<noteq> None)"

lemma i33f31_Release_total: "fx_total (i33f31_ops Release)"
  by (simp add: fx_total_def i33f31_ops_def i33f31_of_int_def)

text \<open>What a transaction adds to each balance, in bits of the fixed-point number.\<close>

definition value_primary :: "'p fixed_ops \<Rightarrow> 'p ob_transaction \<Rightarrow> 'p" where
  "value_primary fx t = fx_from_u32 fx (tx_volume t)"

definition value_secondary :: "'p fixed_ops \<Rightarrow> 'p ob_transaction \<Rightarrow> 'p" where
  "value_secondary fx t = the (fx_mul fx (value_primary fx t) (tx_price t))"

definition entry_of :: "'k \<Rightarrow> int \<Rightarrow> 'k \<Rightarrow> int" where
  "entry_of k amount = (\<lambda>k'. if k' = k then amount else 0)"

text \<open>
  The double entry: the buyer of the primary asset gets \<open>x\<close> of it and pays \<open>y\<close> of the secondary.
\<close>

definition double_entry ::
    "asset_id_pair \<Rightarrow> side \<Rightarrow> account_id \<Rightarrow> account_id \<Rightarrow> int \<Rightarrow> int \<Rightarrow> account_id \<times> asset_id \<Rightarrow> int" where
  "double_entry pair taker_side maker_id taker_id x y k =
     (let (buyer, seller) = (case taker_side of Bid \<Rightarrow> (taker_id, maker_id) | Ask \<Rightarrow> (maker_id, taker_id))
      in entry_of (buyer, primary pair) x k + entry_of (seller, primary pair) (- x) k
         + entry_of (buyer, secondary pair) (- y) k + entry_of (seller, secondary pair) y k)"

definition posting ::
    "'p fixed_ops \<Rightarrow> ('p \<Rightarrow> int) \<Rightarrow> asset_id_pair \<Rightarrow> 'p session_orders \<Rightarrow> 'p ob_transaction
     \<Rightarrow> account_id \<times> asset_id \<Rightarrow> int" where
  "posting fx bits pair orders t =
     double_entry pair (tx_taker_side t)
       (po_account_id (order_at orders (tx_order_id_maker t)))
       (po_account_id (order_at orders (tx_order_id_taker t)))
       (bits (value_primary fx t)) (bits (value_secondary fx t))"

definition postings ::
    "'p fixed_ops \<Rightarrow> ('p \<Rightarrow> int) \<Rightarrow> asset_id_pair \<Rightarrow> 'p session_orders \<Rightarrow> 'p ob_transaction_buffer
     \<Rightarrow> account_id \<times> asset_id \<Rightarrow> int" where
  "postings fx bits pair orders ts k = (\<Sum>t\<leftarrow>ts. posting fx bits pair orders t k)"

lemma postings_simps [simp]:
  "postings fx bits pair orders [] k = 0"
  "postings fx bits pair orders (t # ts) k =
     posting fx bits pair orders t k + postings fx bits pair orders ts k"
  by (simp_all add: postings_def)

lemma postings_rev [simp]:
  "postings fx bits pair orders (rev ts) k = postings fx bits pair orders ts k"
  by (simp add: postings_def sum_list_rev flip: rev_map)

lemma postings_single [simp]: "postings fx bits pair orders [t] = posting fx bits pair orders t"
  by (simp add: fun_eq_iff)

definition balance_bits :: "('p \<Rightarrow> int) \<Rightarrow> 'p balance_book \<Rightarrow> account_id \<times> asset_id \<Rightarrow> int" where
  "balance_bits bits bk k = bits (the (bb_read k bk))"

text \<open>A book that differs from another by given amounts, up to the wrap-around of 64 bits.\<close>

definition moved ::
    "('p \<Rightarrow> int) \<Rightarrow> 'p balance_book \<Rightarrow> 'p balance_book \<Rightarrow> (account_id \<times> asset_id \<Rightarrow> int) \<Rightarrow> bool" where
  "moved bits bk bk' delta \<longleftrightarrow>
     bb_ok bk' \<and> bb_accounts bk' = bb_accounts bk \<and> bb_assets bk' = bb_assets bk \<and>
     (\<forall>k \<in> bb_cells bk. balance_bits bits bk' k mod 2 ^ 64 = (balance_bits bits bk k + delta k) mod 2 ^ 64)"

lemma moved_cells: "moved bits bk bk' d \<Longrightarrow> bb_cells bk' = bb_cells bk"
  by (simp add: moved_def bb_cells_def)

lemma moved_index: "moved bits bk bk' d \<Longrightarrow> bb_get_index bk' = bb_get_index bk"
  by (simp add: moved_def bb_get_index_def fun_eq_iff)

lemma moved_trans:
  assumes "moved bits bk bk1 d1" and "moved bits bk1 bk2 d2"
    and "\<And>k. d k = d1 k + d2 k"
  shows "moved bits bk bk2 d"
proof -
  have "balance_bits bits bk2 k mod 2 ^ 64 = (balance_bits bits bk k + d k) mod 2 ^ 64"
    if "k \<in> bb_cells bk" for k
  proof -
    have "balance_bits bits bk2 k mod 2 ^ 64 = (balance_bits bits bk1 k + d2 k) mod 2 ^ 64"
      using that moved_cells [OF assms(1)] assms(2) by (simp add: moved_def)
    also have "\<dots> = ((balance_bits bits bk k + d1 k) + d2 k) mod 2 ^ 64"
      using that assms(1) by (intro mod_add_cong) (simp_all add: moved_def)
    finally show ?thesis by (simp add: assms(3) add.assoc)
  qed
  with assms(1,2) show ?thesis by (simp add: moved_def)
qed

lemma apply_at_moves:
  assumes "bb_ok bk" and "(account, asset) \<in> bb_cells bk"
    and "\<And>x. f x v \<noteq> None"
    and "\<And>x c. f x v = Some c \<Longrightarrow> bits c mod 2 ^ 64 = (bits x + amount) mod 2 ^ 64"
  obtains bk' where "apply_at f (bb_get_index bk asset account) v bk = Some bk'"
    and "moved bits bk bk' (entry_of (account, asset) amount)"
proof -
  let ?i = "bb_get_index bk asset account"
  obtain c where c: "f (bb_balances bk ! ?i) v = Some c" using assms(3) by blast
  let ?bk = "bb_put (account, asset) c bk"
  have "apply_at f ?i v bk = Some ?bk"
    using c by (simp add: apply_at_def bb_put_store [OF assms(1,2)])
  moreover have "the (bb_read (account, asset) bk) = bb_balances bk ! ?i"
    by (simp add: bb_read_def get_cell [OF assms(1,2)])
  then have "moved bits bk ?bk (entry_of (account, asset) amount)"
    using assms(1,2) assms(4) [OF c]
    by (simp add: moved_def balance_bits_def bb_read_put entry_of_def)
  ultimately show thesis using that by blast
qed

context fixed_price
begin

lemma total_ops:
  assumes "fx_total fx"
  shows "fx_add fx x y \<noteq> None" and "fx_sub fx x y \<noteq> None" and "fx_mul fx x y \<noteq> None"
  using assms by (simp_all add: fx_total_def)

lemma credit_at:
  assumes "fx_total fx" and "bb_ok bk" and "(account, asset) \<in> bb_cells bk"
  obtains bk' where "apply_at (fx_add fx) (bb_get_index bk asset account) v bk = Some bk'"
    and "moved bits bk bk' (entry_of (account, asset) (bits v))"
  by (rule apply_at_moves [OF assms(2,3), where f = "fx_add fx" and v = v and bits = bits
        and amount = "bits v"])
    (use total_ops [OF assms(1)] add_wraps in auto)

lemma debit_at:
  assumes "fx_total fx" and "bb_ok bk" and "(account, asset) \<in> bb_cells bk"
  obtains bk' where "apply_at (fx_sub fx) (bb_get_index bk asset account) v bk = Some bk'"
    and "moved bits bk bk' (entry_of (account, asset) (- bits v))"
  by (rule apply_at_moves [OF assms(2,3), where f = "fx_sub fx" and v = v and bits = bits
        and amount = "- bits v"])
    (use total_ops [OF assms(1)] sub_wraps in auto)

text \<open>Four updates of four cells, whatever their direction.\<close>

lemma four_moves:
  assumes "moved bits bk bk1 d1" and "moved bits bk1 bk2 d2" and "moved bits bk2 bk3 d3"
    and "moved bits bk3 bk4 d4" and "\<And>k. d k = d1 k + d2 k + d3 k + d4 k"
  shows "moved bits bk bk4 d"
  by (rule moved_trans [OF moved_trans [OF moved_trans [OF assms(1,2) refl] assms(3) refl] assms(4)])
    (simp add: assms(5))

lemma moved_credit_at:
  assumes "fx_total fx" and "bb_ok bk" and "moved bits bk bk1 d" and "(account, asset) \<in> bb_cells bk"
  shows "\<exists>bk'. apply_at (fx_add fx) (bb_get_index bk asset account) v bk1 = Some bk' \<and>
    moved bits bk1 bk' (entry_of (account, asset) (bits v))"
  using credit_at [of bk1 account asset v] assms moved_cells [OF assms(3)] moved_index [OF assms(3)]
  by (metis moved_def)

lemma moved_debit_at:
  assumes "fx_total fx" and "bb_ok bk" and "moved bits bk bk1 d" and "(account, asset) \<in> bb_cells bk"
  shows "\<exists>bk'. apply_at (fx_sub fx) (bb_get_index bk asset account) v bk1 = Some bk' \<and>
    moved bits bk1 bk' (entry_of (account, asset) (- bits v))"
  using debit_at [of bk1 account asset v] assms moved_cells [OF assms(3)] moved_index [OF assms(3)]
  by (metis moved_def)

lemma moved_refl: "bb_ok bk \<Longrightarrow> moved bits bk bk (\<lambda>_. 0)"
  by (simp add: moved_def)

lemma update_balances_moves:
  assumes total: "fx_total fx" and ok: "bb_ok bk"
    and cells: "\<And>a s. a = maker_id \<or> a = taker_id \<Longrightarrow> s = primary pair \<or> s = secondary pair \<Longrightarrow>
      (a, s) \<in> bb_cells bk"
  shows "\<exists>bk'. update_balances fx sd x y
      (map (\<lambda>(s, a). bb_get_index bk s a)
        [(primary pair, maker_id), (primary pair, taker_id),
         (secondary pair, maker_id), (secondary pair, taker_id)]) bk = Some bk' \<and>
    moved bits bk bk' (double_entry pair sd maker_id taker_id (bits x) (bits y))"
proof (cases sd)
  case Bid
  note credit = moved_credit_at [OF total ok _ cells] and debit = moved_debit_at [OF total ok _ cells]
  obtain bk1 where 1: "apply_at (fx_add fx) (bb_get_index bk (primary pair) taker_id) x bk = Some bk1"
    "moved bits bk bk1 (entry_of (taker_id, primary pair) (bits x))"
    using credit [OF moved_refl [OF ok]] by blast
  obtain bk2 where 2: "apply_at (fx_sub fx) (bb_get_index bk (secondary pair) taker_id) y bk1 = Some bk2"
    "moved bits bk1 bk2 (entry_of (taker_id, secondary pair) (- bits y))"
    using debit [OF 1(2)] by blast
  note m2 = moved_trans [OF 1(2) 2(2) refl]
  obtain bk3 where 3: "apply_at (fx_sub fx) (bb_get_index bk (primary pair) maker_id) x bk2 = Some bk3"
    "moved bits bk2 bk3 (entry_of (maker_id, primary pair) (- bits x))"
    using debit [OF m2] by blast
  note m3 = moved_trans [OF m2 3(2) refl]
  obtain bk4 where 4: "apply_at (fx_add fx) (bb_get_index bk (secondary pair) maker_id) y bk3 = Some bk4"
    "moved bits bk3 bk4 (entry_of (maker_id, secondary pair) (bits y))"
    using credit [OF m3] by blast
  have "moved bits bk bk4 (double_entry pair sd maker_id taker_id (bits x) (bits y))"
    by (rule four_moves [OF 1(2) 2(2) 3(2) 4(2)]) (simp add: double_entry_def Bid)
  with 1(1) 2(1) 3(1) 4(1) Bid show ?thesis by (simp add: update_balances_def)
next
  case Ask
  note credit = moved_credit_at [OF total ok _ cells] and debit = moved_debit_at [OF total ok _ cells]
  obtain bk1 where 1: "apply_at (fx_sub fx) (bb_get_index bk (primary pair) taker_id) x bk = Some bk1"
    "moved bits bk bk1 (entry_of (taker_id, primary pair) (- bits x))"
    using debit [OF moved_refl [OF ok]] by blast
  obtain bk2 where 2: "apply_at (fx_add fx) (bb_get_index bk (secondary pair) taker_id) y bk1 = Some bk2"
    "moved bits bk1 bk2 (entry_of (taker_id, secondary pair) (bits y))"
    using credit [OF 1(2)] by blast
  note m2 = moved_trans [OF 1(2) 2(2) refl]
  obtain bk3 where 3: "apply_at (fx_add fx) (bb_get_index bk (primary pair) maker_id) x bk2 = Some bk3"
    "moved bits bk2 bk3 (entry_of (maker_id, primary pair) (bits x))"
    using credit [OF m2] by blast
  note m3 = moved_trans [OF m2 3(2) refl]
  obtain bk4 where 4: "apply_at (fx_sub fx) (bb_get_index bk (secondary pair) maker_id) y bk3 = Some bk4"
    "moved bits bk3 bk4 (entry_of (maker_id, secondary pair) (- bits y))"
    using debit [OF m3] by blast
  have "moved bits bk bk4 (double_entry pair sd maker_id taker_id (bits x) (bits y))"
    by (rule four_moves [OF 1(2) 2(2) 3(2) 4(2)]) (simp add: double_entry_def Ask)
  with 1(1) 2(1) 3(1) 4(1) Ask show ?thesis by (simp add: update_balances_def)
qed

end

section \<open>One transaction\<close>

definition record_of ::
    "clock \<Rightarrow> nat \<Rightarrow> asset_id_pair \<Rightarrow> 'p session_orders \<Rightarrow> 'p ob_transaction \<Rightarrow> 'p transaction" where
  "record_of clock n pair orders t =
     \<lparr>tr_market = pair, tr_price = tx_price t, tr_volume = tx_volume t,
      tr_taker_side = tx_taker_side t,
      tr_maker = po_account_id (order_at orders (tx_order_id_maker t)),
      tr_taker = po_account_id (order_at orders (tx_order_id_taker t)),
      tr_timestamp_ms = of_nat (the (clock n))\<rparr>"

fun records_of ::
    "clock \<Rightarrow> nat \<Rightarrow> asset_id_pair \<Rightarrow> 'p session_orders \<Rightarrow> 'p ob_transaction_buffer \<Rightarrow> 'p transaction list" where
  "records_of clock n pair orders [] = []"
| "records_of clock n pair orders (t # ts) =
     record_of clock n pair orders t # records_of clock (Suc n) pair orders ts"

text \<open>The state after settling \<open>ts\<close>, in this order, against the state before.\<close>

definition settled ::
    "'p fixed_ops \<Rightarrow> ('p \<Rightarrow> int) \<Rightarrow> clock \<Rightarrow> asset_id_pair \<Rightarrow> 'p ob_transaction_buffer
     \<Rightarrow> 'p exchange \<Rightarrow> 'p exchange \<Rightarrow> bool" where
  "settled fx bits clock pair ts ex ex' \<longleftrightarrow>
     (let orders = ex_session_orders ex; orders' = ex_session_orders ex';
          log = ex_last_100_tx ex; log' = ex_last_100_tx ex'
      in map fst orders' = map fst orders \<and>
         (\<forall>i < length orders. order_at orders' i = order_after i ts (order_at orders i)) \<and>
         moved bits (ex_balance_book ex) (ex_balance_book ex') (postings fx bits pair orders ts) \<and>
         rt_ok log' \<and> rt_capacity log' = rt_capacity log \<and>
         rt_write_idx log' = rt_write_idx log + length ts \<and>
         rt_view log' = last_n (rt_capacity log)
           (rt_view log @ records_of clock (rt_write_idx log) pair orders ts) \<and>
         ex_accounts ex' = ex_accounts ex \<and> ex_traded_assets ex' = ex_traded_assets ex \<and>
         ex_markets ex' = ex_markets ex)"

definition ready_to_settle :: "asset_id_pair \<Rightarrow> 'p ob_transaction_buffer \<Rightarrow> 'p exchange \<Rightarrow> bool" where
  "ready_to_settle pair ts ex \<longleftrightarrow>
     bb_ok (ex_balance_book ex) \<and> rt_ok (ex_last_100_tx ex) \<and>
     (\<forall>t \<in> set ts. can_settle pair (ex_session_orders ex) (ex_balance_book ex) t) \<and>
     (\<forall>i < length (ex_session_orders ex).
        traded_in i ts \<le> unat (po_remaining_volume (order_at (ex_session_orders ex) i)))"

lemma order_at_write:
  "i < length orders \<Longrightarrow>
   order_at (write_order i order orders) j = (if j = i then order else order_at orders j)"
  by (simp add: order_at_def write_order_def nth_list_update)

lemma write_order_ids [simp]:
  "map fst (write_order i order orders) = map fst orders"
  "length (write_order i order orders) = length orders"
  by (cases "i < length orders") (simp_all add: write_order_def list_eq_iff_nth_eq nth_list_update)

context fixed_price
begin

text \<open>
  When the volume times the price and the four updates are defined, the rest of a settlement is: the
  orders have the volume, the references are disjoint, the log takes the record.
\<close>

lemma settle_transaction_runs:
  assumes clock: "clock (rt_write_idx (ex_last_100_tx ex)) \<noteq> None" and ready: "ready_to_settle pair [t] ex"
    and mul: "fx_mul fx (value_primary fx t) (tx_price t) = Some y"
    and upd: "update_balances fx (tx_taker_side t) (value_primary fx t) y
      (map (\<lambda>(s, a). bb_get_index (ex_balance_book ex) s a)
        [(primary pair, po_account_id (order_at (ex_session_orders ex) (tx_order_id_maker t))),
         (primary pair, po_account_id (order_at (ex_session_orders ex) (tx_order_id_taker t))),
         (secondary pair, po_account_id (order_at (ex_session_orders ex) (tx_order_id_maker t))),
         (secondary pair, po_account_id (order_at (ex_session_orders ex) (tx_order_id_taker t)))])
      (ex_balance_book ex) = Some bk'"
  obtains ex' where "settle_transaction b fx clock pair t ex = Some ex'" and "ex_balance_book ex' = bk'"
    and "moved bits (ex_balance_book ex) bk' (posting fx bits pair (ex_session_orders ex) t) \<Longrightarrow>
      settled fx bits clock pair [t] ex ex'"
proof -
  let ?orders = "ex_session_orders ex" and ?bk = "ex_balance_book ex" and ?log = "ex_last_100_tx ex"
  let ?mk = "tx_order_id_maker t" and ?tk = "tx_order_id_taker t"
  let ?mo = "order_at ?orders ?mk" and ?to = "order_at ?orders ?tk"
  let ?maker = "po_account_id ?mo" and ?taker = "po_account_id ?to"
  have bk: "bb_ok ?bk" and rt: "rt_ok ?log" and can: "can_settle pair ?orders ?bk t"
    using ready by (simp_all add: ready_to_settle_def)
  then have ids: "?mk < length ?orders" "?tk < length ?orders" "?mk \<noteq> ?tk" "?maker \<noteq> ?taker"
    and pair: "primary pair \<noteq> secondary pair"
    and cells: "\<And>a s. a = ?maker \<or> a = ?taker \<Longrightarrow> s = primary pair \<or> s = secondary pair \<Longrightarrow>
      (a, s) \<in> bb_cells ?bk"
    by (auto simp: can_settle_def Let_def)
  have vol: "tx_volume t \<le> po_remaining_volume ?mo" "tx_volume t \<le> po_remaining_volume ?to"
    using ready ids(1,2) by (auto simp: ready_to_settle_def involves_def word_le_nat_alt)
  have take: "take_volume b (tx_volume t) ?mo = Some (order_after ?mk [t] ?mo)"
    "take_volume b (tx_volume t) ?to = Some (order_after ?tk [t] ?to)"
    using take_volume_exact [OF vol(1)] take_volume_exact [OF vol(2)]
    by (simp_all add: order_after_single involves_def)
  let ?ps = "[(primary pair, ?maker), (primary pair, ?taker), (secondary pair, ?maker), (secondary pair, ?taker)]"
  have refs: "bb_get_disjoint_mut ?ps ?bk = Some (map (\<lambda>(s, a). bb_get_index ?bk s a) ?ps)"
    using ids(4) pair cells by (intro get_disjoint_cells [OF bk]) auto
  obtain log' where log': "rt_push (record_of clock (rt_write_idx ?log) pair ?orders t) ?log = Some log'"
    "rt_ok log'" "rt_capacity log' = rt_capacity ?log"
    "rt_view log' = last_n (rt_capacity ?log) (rt_view ?log @ [record_of clock (rt_write_idx ?log) pair ?orders t])"
    using recent.push_view [OF rt] by blast
  obtain ms where ms: "clock (rt_write_idx ?log) = Some ms" using clock by blast
  let ?ex = "ex\<lparr>ex_session_orders := write_order ?tk (order_after ?tk [t] ?to)
      (write_order ?mk (order_after ?mk [t] ?mo) ?orders),
    ex_balance_book := bk', ex_last_100_tx := log'\<rparr>"
  have "settle_transaction b fx clock pair t ex = Some ?ex"
    using ids(1-3) mul take refs upd log'(1) ms
    by (simp add: settle_transaction_def get_disjoint_orders_def record_of_def value_primary_def
        Let_def flip: order_at_def)
  moreover have "moved bits ?bk bk' (posting fx bits pair ?orders t) \<Longrightarrow> settled fx bits clock pair [t] ex ?ex"
    using ids log' rt_push_idx [OF log'(1)]
    by (auto simp: settled_def Let_def order_at_write order_after_def involves_def fun_eq_iff)
  ultimately show thesis using that by simp
qed

lemma settle_transaction_settles:
  assumes total: "fx_total fx" and clock: "clock (rt_write_idx (ex_last_100_tx ex)) \<noteq> None"
    and ready: "ready_to_settle pair [t] ex"
  obtains ex' where "settle_transaction b fx clock pair t ex = Some ex'"
    and "settled fx bits clock pair [t] ex ex'"
proof -
  let ?orders = "ex_session_orders ex" and ?bk = "ex_balance_book ex"
  let ?maker = "po_account_id (order_at ?orders (tx_order_id_maker t))"
    and ?taker = "po_account_id (order_at ?orders (tx_order_id_taker t))"
  have bk: "bb_ok ?bk" and cells: "\<And>a s. a = ?maker \<or> a = ?taker \<Longrightarrow>
      s = primary pair \<or> s = secondary pair \<Longrightarrow> (a, s) \<in> bb_cells ?bk"
    using ready by (auto simp: ready_to_settle_def can_settle_def Let_def)
  have mul: "fx_mul fx (value_primary fx t) (tx_price t) = Some (value_secondary fx t)"
    using total_ops(3) [OF total] by (simp add: value_secondary_def)
  obtain bk' where upd: "update_balances fx (tx_taker_side t) (value_primary fx t) (value_secondary fx t)
      (map (\<lambda>(s, a). bb_get_index ?bk s a) [(primary pair, ?maker), (primary pair, ?taker),
        (secondary pair, ?maker), (secondary pair, ?taker)]) ?bk = Some bk'"
    and moved: "moved bits ?bk bk' (posting fx bits pair ?orders t)"
    using update_balances_moves [OF total bk cells] unfolding posting_def by blast
  show thesis
    by (rule settle_transaction_runs [where ex = ex and t = t and pair = pair and clock = clock and b = b,
          OF clock ready mul upd]) (use that moved in blast)
qed

end

section \<open>A batch of transactions\<close>

text \<open>Settling leaves the orders' accounts and the cells alone, so readiness and postings carry over.\<close>

lemma settled_length: "settled fx bits clock pair ts ex ex' \<Longrightarrow>
    length (ex_session_orders ex') = length (ex_session_orders ex)"
  unfolding settled_def Let_def by (metis length_map)

lemma settled_accounts:
  "settled fx bits clock pair ts ex ex' \<Longrightarrow> i < length (ex_session_orders ex) \<Longrightarrow>
   po_account_id (order_at (ex_session_orders ex') i) = po_account_id (order_at (ex_session_orders ex) i)"
  by (simp add: settled_def Let_def)

lemma can_settle_after:
  assumes "settled fx bits clock pair ts ex ex'"
    and "can_settle pair' (ex_session_orders ex) (ex_balance_book ex) t"
  shows "can_settle pair' (ex_session_orders ex') (ex_balance_book ex') t"
proof -
  have "moved bits (ex_balance_book ex) (ex_balance_book ex') (postings fx bits pair (ex_session_orders ex) ts)"
    using assms(1) by (simp add: settled_def Let_def)
  then have "bb_cells (ex_balance_book ex') = bb_cells (ex_balance_book ex)" by (rule moved_cells)
  with assms show ?thesis
    by (simp add: can_settle_def Let_def settled_length settled_accounts)
qed

lemma posting_after:
  assumes "settled fx bits clock pair ts ex ex'"
    and "can_settle pair' (ex_session_orders ex) (ex_balance_book ex) t"
  shows "posting fx bits pair (ex_session_orders ex') t = posting fx bits pair (ex_session_orders ex) t"
    and "record_of clock n pair (ex_session_orders ex') t = record_of clock n pair (ex_session_orders ex) t"
  using assms(2) by (simp_all add: posting_def record_of_def can_settle_def Let_def settled_accounts [OF assms(1)])

lemma postings_after:
  assumes "settled fx bits clock pair us ex ex'"
    and "\<forall>t \<in> set ts. can_settle pair' (ex_session_orders ex) (ex_balance_book ex) t"
  shows "postings fx bits pair (ex_session_orders ex') ts = postings fx bits pair (ex_session_orders ex) ts"
    and "records_of clock n pair (ex_session_orders ex') ts = records_of clock n pair (ex_session_orders ex) ts"
  using assms(2)
  by (induction ts arbitrary: n)
    (simp_all add: fun_eq_iff posting_after [OF assms(1), where pair' = pair'])

lemma settled_Nil: "ready_to_settle pair [] ex \<Longrightarrow> settled fx bits clock pair [] ex (ex\<lparr>ex_transaction_buf := buf\<rparr>)"
  using recent.view_bound [of "ex_last_100_tx ex"]
  by (simp add: settled_def ready_to_settle_def moved_def Let_def)

lemma settled_Cons:
  assumes ready: "ready_to_settle pair (t # ts) ex"
    and one: "settled fx bits clock pair [t] ex ex1" and rest: "settled fx bits clock pair ts ex1 ex2"
  shows "settled fx bits clock pair (t # ts) ex ex2"
proof -
  have later: "\<forall>u \<in> set ts. can_settle pair (ex_session_orders ex) (ex_balance_book ex) u"
    using ready by (simp add: ready_to_settle_def)
  note after = postings_after [OF one later]
  have "order_at (ex_session_orders ex2) i = order_after i (t # ts) (order_at (ex_session_orders ex) i)"
    if "i < length (ex_session_orders ex)" for i
  proof -
    have "traded_in i (t # ts) \<le> unat (po_remaining_volume (order_at (ex_session_orders ex) i))"
      using ready that by (simp add: ready_to_settle_def)
    from order_after_Cons [OF this] that one rest settled_length [OF one]
    show ?thesis by (simp add: settled_def Let_def)
  qed
  moreover have "moved bits (ex_balance_book ex) (ex_balance_book ex2)
      (postings fx bits pair (ex_session_orders ex) (t # ts))"
    by (rule moved_trans [of bits _ "ex_balance_book ex1"])
      (use one rest in \<open>simp_all add: settled_def Let_def after(1)\<close>)
  ultimately show ?thesis
    using one rest by (simp add: settled_def Let_def after(2) last_n_append)
qed

lemma ready_after:
  assumes ready: "ready_to_settle pair (t # ts) ex" and one: "settled fx bits clock pair [t] ex ex1"
  shows "ready_to_settle pair ts ex1"
proof -
  have "traded_in i ts \<le> unat (po_remaining_volume (order_at (ex_session_orders ex1) i))"
    if "i < length (ex_session_orders ex)" for i
  proof -
    have le: "traded_in i (t # ts) \<le> unat (po_remaining_volume (order_at (ex_session_orders ex) i))"
      using ready that by (simp add: ready_to_settle_def)
    then have "traded_in i [t] \<le> unat (po_remaining_volume (order_at (ex_session_orders ex) i))"
      by simp
    from order_after_remaining [OF this] le that one show ?thesis
      by (auto simp: settled_def Let_def)
  qed
  with ready one can_settle_after [OF one] settled_length [OF one] show ?thesis
    by (auto simp: ready_to_settle_def settled_def moved_def Let_def)
qed

lemma ready_buf [simp]:
  "ready_to_settle pair ts (ex\<lparr>ex_transaction_buf := buf\<rparr>) = ready_to_settle pair ts ex"
  by (simp add: ready_to_settle_def)

lemma settled_buf [simp]:
  "settled fx bits clock pair ts (ex\<lparr>ex_transaction_buf := buf\<rparr>) ex' = settled fx bits clock pair ts ex ex'"
  by (simp add: settled_def)

lemma ready_Cons: "ready_to_settle pair (t # ts) ex \<Longrightarrow> ready_to_settle pair [t] ex"
  by (fastforce simp: ready_to_settle_def)

lemma ready_rev [simp]: "ready_to_settle pair (rev ts) ex = ready_to_settle pair ts ex"
  by (simp add: ready_to_settle_def)

context fixed_price
begin

lemma settle_popped_settles:
  assumes "fx_total fx" and "\<forall>n. clock n \<noteq> None"
  shows "ready_to_settle pair ts ex \<Longrightarrow>
    \<exists>ex'. settle_popped b fx clock pair ts ex = Some ex' \<and>
      settled fx bits clock pair ts ex ex' \<and> ex_transaction_buf ex' = []"
proof (induction ts arbitrary: ex)
  case Nil
  then show ?case by (simp add: settled_Nil)
next
  case (Cons t ts)
  have "ready_to_settle pair [t] (ex\<lparr>ex_transaction_buf := rev ts\<rparr>)"
    using Cons.prems by (simp add: ready_Cons)
  then obtain ex1 where step: "settle_transaction b fx clock pair t (ex\<lparr>ex_transaction_buf := rev ts\<rparr>) = Some ex1"
    and one: "settled fx bits clock pair [t] ex ex1"
    using settle_transaction_settles [OF assms(1), of clock "ex\<lparr>ex_transaction_buf := rev ts\<rparr>" pair t b]
      assms(2) by (auto simp del: postings_simps records_of.simps)
  from Cons.IH [OF ready_after [OF Cons.prems one]] obtain ex2
    where "settle_popped b fx clock pair ts ex1 = Some ex2"
      "settled fx bits clock pair ts ex1 ex2" "ex_transaction_buf ex2 = []"
    by blast
  with step settled_Cons [OF Cons.prems one] show ?case by simp
qed

lemma process_transactions_settles:
  assumes "fx_total fx" and "\<forall>n. clock n \<noteq> None"
    and "ready_to_settle pair (ex_transaction_buf ex) ex"
  obtains ex' where "process_transactions b fx clock pair ex = Some ex'"
    and "settled fx bits clock pair (rev (ex_transaction_buf ex)) ex ex'"
    and "ex_transaction_buf ex' = []"
  using settle_popped_settles [OF assms(1,2), of pair "rev (ex_transaction_buf ex)" ex b] assms(3)
  by (auto simp: process_transactions_def)

end

end
