(* ===== verification/Exchange_Invariant.thy ===== *)
theory Exchange_Invariant
  imports Settlement "HOL-Library.Multiset"
begin

text \<open>
  The exchange's invariant, and that the operations on orders keep it. The invariant ties the order
  books to the session's orders: an entry of a book is an order of that market, side, price and
  account, it is not cancelled, and it offers no more than the order has left. That is what settlement
  needs in order not to panic.
\<close>

section \<open>Volume by order\<close>

definition made_in :: "order_id \<Rightarrow> 'p ob_transaction_buffer \<Rightarrow> nat" where
  "made_in i ts = (\<Sum>t\<leftarrow>ts. if tx_order_id_maker t = i then unat (tx_volume t) else 0)"

definition volume_of_order :: "order_id \<Rightarrow> ('p \<times> orderbook_entry) list \<Rightarrow> nat" where
  "volume_of_order i q =
     (\<Sum>x\<leftarrow>q. if en_order_id (snd x) = i then unat (en_remaining_volume (snd x)) else 0)"

lemma made_in_simps [simp]:
  "made_in i [] = 0"
  "made_in i (t # ts) = (if tx_order_id_maker t = i then unat (tx_volume t) else 0) + made_in i ts"
  by (simp_all add: made_in_def)

lemma volume_of_order_simps [simp]:
  "volume_of_order i [] = 0"
  "volume_of_order i ((p, e) # q) =
     (if en_order_id e = i then unat (en_remaining_volume e) else 0) + volume_of_order i q"
  by (simp_all add: volume_of_order_def)

lemma volume_of_order_absent: "i \<notin> set (entry_ids q) \<Longrightarrow> volume_of_order i q = 0"
  by (induction q) auto

lemma volume_of_order_present:
  "distinct (entry_ids q) \<Longrightarrow> (p, e) \<in> set q \<Longrightarrow>
   volume_of_order (en_order_id e) q = unat (en_remaining_volume e)"
proof (induction q)
  case (Cons x q)
  obtain p' e' where x: "x = (p', e')" by (cases x)
  show ?case
  proof (cases "(p, e) = x")
    case True
    then show ?thesis using Cons.prems x by (simp add: volume_of_order_absent)
  next
    case False
    then have mem: "(p, e) \<in> set q" using Cons.prems by simp
    then have "en_order_id e \<in> set (entry_ids q)" by (force simp: set_entry_ids)
    then show ?thesis using Cons mem x by auto
  qed
qed simp

text \<open>Filling moves volume order by order: what an order of the queue made in trades and what it
  still offers are what it offered.\<close>

lemma fill_by_order:
  "fill order n q = Traded ts m r \<Longrightarrow> volume_of_order i q = made_in i ts + volume_of_order i r"
proof (induction order n q arbitrary: ts m r rule: fill.induct)
  case (1 order n)
  then show ?case by simp
next
  case (2 order n p e q)
  let ?v = "en_remaining_volume e"
  consider (lt) "n < ?v" | (eq) "n = ?v" | (gt) "?v < n" by fastforce
  then show ?case
  proof cases
    case lt
    then have "unat (?v - n) = unat ?v - unat n" "unat n \<le> unat ?v"
      by (auto simp: unat_sub_exact word_le_nat_alt word_less_nat_alt)
    with lt "2.prems" show ?thesis by (auto split: if_splits)
  next
    case eq
    with "2.prems" show ?thesis by (auto split: if_splits)
  next
    case gt
    then have neg: "\<not> n < ?v" "n \<noteq> ?v" "oi_account_id order \<noteq> en_account_id e"
      using "2.prems" by auto
    with "2.prems" obtain ts' where rec: "fill order (n - ?v) q = Traded ts' m r"
      and ts: "ts = trade_with order p e ?v # ts'"
      by (auto split: fill_result.splits)
    from "2.IH" [OF neg(3,1,2) rec] show ?thesis by (simp add: ts)
  qed
qed

lemma traded_in_maker:
  "\<forall>t \<in> set ts. tx_order_id_taker t \<noteq> i \<Longrightarrow> traded_in i ts = made_in i ts"
  by (induction ts) (auto simp: involves_def)

lemma traded_in_taker:
  "\<forall>t \<in> set ts. tx_order_id_taker t = i \<Longrightarrow> traded_in i ts = traded_volume ts"
  by (induction ts) (auto simp: involves_def)

section \<open>The invariant\<close>

definition entry_conf ::
    "'p session_orders \<Rightarrow> asset_id_pair \<Rightarrow> side \<Rightarrow> 'p \<times> orderbook_entry \<Rightarrow> bool" where
  "entry_conf orders pair s x \<longleftrightarrow>
     (let e = snd x; order = order_at orders (en_order_id e)
      in en_order_id e < length orders \<and> po_account_id order = en_account_id e \<and>
         po_pair order = pair \<and> po_side order = s \<and> po_price order = fst x \<and>
         en_remaining_volume e \<le> po_remaining_volume order \<and> po_status order \<noteq> Cancelled)"

definition book_conf :: "'p session_orders \<Rightarrow> asset_id_pair \<Rightarrow> 'p orderbook \<Rightarrow> bool" where
  "book_conf orders pair ob \<longleftrightarrow>
     (\<forall>x \<in> set (flat (bids ob)). entry_conf orders pair Bid x) \<and>
     (\<forall>x \<in> set (flat (asks ob)). entry_conf orders pair Ask x)"

lemma book_conf_side:
  "book_conf orders pair ob \<longleftrightarrow>
   (\<forall>s. \<forall>x \<in> set (flat (book_side s ob)). entry_conf orders pair s x)"
    (is "_ \<longleftrightarrow> (\<forall>s. ?P s)")
proof -
  have "(\<forall>s. ?P s) \<longleftrightarrow> ?P Bid \<and> ?P Ask"
  proof
    assume "?P Bid \<and> ?P Ask"
    then show "\<forall>s. ?P s" by (intro allI, rename_tac s, case_tac s) simp_all
  qed blast
  then show ?thesis by (simp add: book_conf_def)
qed

definition market_inv :: "'p::linorder session_orders \<Rightarrow> 'p market \<Rightarrow> bool" where
  "market_inv orders m \<longleftrightarrow>
     (let ob = mk_orderbook m
      in book_sorted ob \<and> book_uncrossed ob \<and> book_clean ob \<and> distinct (book_ids ob) \<and>
         book_conf orders (mk_asset_pair m) ob)"

text \<open>A market's assets have rows in the balance book, two of them.\<close>

definition listed :: "'p balance_book \<Rightarrow> asset_id_pair \<Rightarrow> bool" where
  "listed bk pair \<longleftrightarrow>
     primary pair < bb_assets bk \<and> secondary pair < bb_assets bk \<and> primary pair \<noteq> secondary pair"

definition roster_ok :: "'p exchange \<Rightarrow> bool" where
  "roster_ok ex \<longleftrightarrow>
     (let bk = ex_balance_book ex
      in bb_ok bk \<and>
         map fst (ex_accounts ex) = map of_nat [0..<unat (bb_accounts bk)] \<and>
         map as_id (ex_traded_assets ex) = map of_nat [0..<unat (bb_assets bk)])"

definition orders_ok :: "'p exchange \<Rightarrow> bool" where
  "orders_ok ex \<longleftrightarrow>
     map fst (ex_session_orders ex) = [0..<length (ex_session_orders ex)] \<and>
     (\<forall>x \<in> set (ex_session_orders ex). po_account_id (snd x) < bb_accounts (ex_balance_book ex))"

definition exchange_ok :: "'p::linorder exchange \<Rightarrow> bool" where
  "exchange_ok ex \<longleftrightarrow>
     roster_ok ex \<and> orders_ok ex \<and> rt_ok (ex_last_100_tx ex) \<and> markets_ok (ex_markets ex) \<and>
     (\<forall>m \<in> set (ms_inner (ex_markets ex)).
        market_inv (ex_session_orders ex) m \<and> listed (ex_balance_book ex) (mk_asset_pair m)) \<and>
     ex_transaction_buf ex = []"

lemma find_market_mem:
  "distinct (map mk_asset_pair inner) \<Longrightarrow>
   find_market k inner = Some m \<longleftrightarrow> m \<in> set inner \<and> mk_asset_pair m = k"
  by (induction inner) auto

lemma markets_get_mem:
  "markets_ok ms \<Longrightarrow> markets_get ms k = Some m \<longleftrightarrow> m \<in> set (ms_inner ms) \<and> mk_asset_pair m = k"
  by (simp add: markets_get_def markets_ok_def find_market_mem)

text \<open>The clause on markets, by lookup.\<close>

lemma all_markets:
  "markets_ok ms \<Longrightarrow> (\<forall>m \<in> set (ms_inner ms). P m) \<longleftrightarrow> (\<forall>k m. markets_get ms k = Some m \<longrightarrow> P m)"
  by (auto simp: markets_get_mem)

lemma exchange_ok_market:
  assumes "exchange_ok ex" and "markets_get (ex_markets ex) k = Some m"
  shows "market_inv (ex_session_orders ex) m" and "listed (ex_balance_book ex) k"
    and "mk_asset_pair m = k"
proof -
  have "m \<in> set (ms_inner (ex_markets ex))" "mk_asset_pair m = k"
    using assms markets_get_mem by (auto simp: exchange_ok_def)
  with assms(1) show "market_inv (ex_session_orders ex) m" "listed (ex_balance_book ex) k"
    "mk_asset_pair m = k" by (auto simp: exchange_ok_def)
qed

lemma replace_market_same:
  "find_market k inner = Some m \<Longrightarrow> replace_market k m inner = inner"
  by (induction inner) (auto split: if_splits)

lemma markets_store_same: "markets_get ms k = Some m \<Longrightarrow> markets_store k m ms = ms"
  by (simp add: markets_get_def markets_store_def replace_market_same)

text \<open>The state with one market replaced keeps the invariant when that market has it and the other
  markets' entries keep theirs.\<close>

lemma markets_after_store:
  assumes ok: "markets_ok ms" and get: "markets_get ms k = Some m" and key: "mk_asset_pair m' = k"
    and new: "P m'" and others: "\<And>k' m''. k' \<noteq> k \<Longrightarrow> markets_get ms k' = Some m'' \<Longrightarrow> P m''"
  shows "markets_ok (markets_store k m' ms) \<and> (\<forall>m'' \<in> set (ms_inner (markets_store k m' ms)). P m'')"
proof
  show ok': "markets_ok (markets_store k m' ms)" by (rule pair_markets.store_ok [OF ok key])
  have "P m''" if "markets_get (markets_store k m' ms) k' = Some m''" for k' m''
    using that new others get key by (auto simp: pair_markets.lookup_store split: if_splits)
  then show "\<forall>m'' \<in> set (ms_inner (markets_store k m' ms)). P m''"
    using all_markets [OF ok'] by blast
qed

section \<open>The entries of a book after an insertion\<close>

lemma mset_flat_best_first [simp]: "mset (flat (best_first s ls)) = mset (flat ls)"
proof -
  have "mset (flat (rev ls)) = mset (flat ls)"
    by (induction ls) (auto simp: flat_def)
  then show ?thesis by (cases s) simp_all
qed

lemma distinct_ids_cong: "mset q = mset q' \<Longrightarrow> distinct (entry_ids q) = distinct (entry_ids q')"
  unfolding entry_ids_def by (rule mset_eq_imp_distinct_iff) simp

lemma set_ids_cong: "mset q = mset q' \<Longrightarrow> set (entry_ids q) = set (entry_ids q')"
  by (drule mset_eq_setD) (simp add: set_entry_ids)

lemma distinct_book_ids:
  "distinct (book_ids ob) \<longleftrightarrow>
   distinct (entry_ids (flat (book_side s ob))) \<and>
   distinct (entry_ids (flat (book_side (opposite s) ob))) \<and>
   set (entry_ids (flat (book_side s ob))) \<inter> set (entry_ids (flat (book_side (opposite s) ob))) = {}"
  by (cases s) (auto simp: book_ids_def)

lemma mset_opposite_queue:
  "mset (flat (book_side (opposite (oi_side order)) ob)) =
   mset (crossing_queue order ob @ untouched_queue order ob)"
  using multiset_partition [of "mset (opposite_queue order ob)" "\<lambda>x. \<not> price_out_of_reach order (fst x)"]
  by (simp add: crossing_queue_def untouched_queue_def opposite_queue_def Let_def)

lemma mset_insert_by_price: "mset (insert_by_price p e q) = add_mset (p, e) (mset q)"
  using multiset_partition [of "mset q" "\<lambda>x. fst x \<le> p"]
  by (simp add: insert_by_price_def not_le)

lemma side_cases: "t = s \<or> t = opposite (s :: side)"
  by (cases s; cases t) simp_all

lemma inserted_entries:
  assumes check: "check_volume b order ob = Some (Inr ())" and ob: "book_sorted ob" "book_clean ob"
    and fill: "fill order (oi_volume order) (crossing_queue order ob) = Traded ts m r"
  obtains ob' where
    "ob_insert_order b order ob buf =
       Some (Inr \<lparr>ef_status = (if 0 < m then AwaitingFill else Filled),
                  ef_last_traded_price = last_price ts m\<rparr>, ob', buf @ ts)"
    and "mset (flat (book_side (opposite (oi_side order)) ob')) = mset (r @ untouched_queue order ob)"
    and "mset (flat (book_side (oi_side order) ob')) = mset (flat (book_side (oi_side order) ob)) +
      (if 0 < m then {#(oi_price order, entry_from_insertion (order\<lparr>oi_volume := m\<rparr>))#} else {#})"
proof -
  let ?s = "oi_side order"
  note sorted = book_sorted_side [OF ob(1)]
  obtain ls d where res: "ob_insert_order b order ob buf =
       Some (Inr \<lparr>ef_status = (if 0 < m then AwaitingFill else Filled),
                  ef_last_traded_price = last_price ts m\<rparr>,
             (if 0 < m then insert_limit_order_no_matching (order\<lparr>oi_volume := m\<rparr>)
                              (matched_book order ls d ob)
              else matched_book order ls d ob), buf @ ts)"
    and fl: "flat (drop d ls) = r @ untouched_queue order ob"
    by (rule ob_insert_order_Traded [OF check sorted can_match_clean [OF ob(2)] fill]) blast
  let ?m = "matched_book order ls d ob" and ?o = "order\<lparr>oi_volume := m\<rparr>"
  have opp: "mset (flat (book_side (opposite ?s) ?m)) = mset (r @ untouched_queue order ob)"
    by (simp add: matched_book_def Let_def fl)
  have own: "book_side ?s ?m = book_side ?s ob" by (simp add: matched_book_def Let_def)
  have "mset (flat (book_side ?s (insert_limit_order_no_matching ?o ?m))) =
      add_mset (oi_price order, entry_from_insertion ?o) (mset (flat (book_side ?s ob)))"
    using flat_insert_no_matching [of ?o ?m] sorted [of ?s] by (simp add: own mset_insert_by_price)
  moreover have "book_side (opposite ?s) (insert_limit_order_no_matching ?o ?m) = book_side (opposite ?s) ?m"
    by (rule insert_no_matching_other) simp
  ultimately show thesis using that [OF res] opp own by (simp split: if_splits)
qed

section \<open>Trades and the session's orders\<close>

lemma order_at_append:
  "order_at (orders @ [(n, order)]) i =
     (if i < length orders then order_at orders i
      else if i = length orders then order else order_at (orders @ [(n, order)]) i)"
  by (simp add: order_at_def nth_append)

lemma entry_conf_append:
  "entry_conf orders pair s x \<Longrightarrow> entry_conf (orders @ [y]) pair s x"
  by (simp add: entry_conf_def Let_def order_at_def nth_append)

lemma book_conf_append:
  "book_conf orders pair ob \<Longrightarrow> book_conf (orders @ [y]) pair ob"
  by (auto simp: book_conf_def entry_conf_append)

lemma entry_conf_after:
  assumes conf: "entry_conf orders pair s (p, e)" and i: "en_order_id d = en_order_id e"
    and acc: "en_account_id d = en_account_id e"
    and vol: "unat (en_remaining_volume d) + traded_in (en_order_id e) ts \<le> unat (en_remaining_volume e)"
    and len: "length orders' = length orders"
    and after: "order_at orders' (en_order_id e) = order_after (en_order_id e) ts (order_at orders (en_order_id e))"
  shows "entry_conf orders' pair s (p, d)"
proof -
  let ?i = "en_order_id e" and ?o = "order_at orders (en_order_id e)"
  have le: "unat (en_remaining_volume e) \<le> unat (po_remaining_volume ?o)"
    using conf by (simp add: entry_conf_def Let_def word_le_nat_alt)
  then have "traded_in ?i ts \<le> unat (po_remaining_volume ?o)" using vol by simp
  from order_after_remaining [OF this] vol le
  have "en_remaining_volume d \<le> po_remaining_volume (order_after ?i ts ?o)"
    by (simp add: word_le_nat_alt)
  with conf order_after_status [of ?i ts ?o] show ?thesis
    by (auto simp: entry_conf_def Let_def i acc len after)
qed

lemma crossing_in_book:
  "x \<in> set (crossing_queue order ob) \<Longrightarrow> x \<in> set (flat (book_side (opposite (oi_side order)) ob))"
  "x \<in> set (untouched_queue order ob) \<Longrightarrow> x \<in> set (flat (book_side (opposite (oi_side order)) ob))"
  using mset_eq_setD [OF mset_opposite_queue [of order ob]] by auto

lemma trade_conf:
  assumes fill: "fill order n (crossing_queue order ob) = Traded ts m r"
    and conf: "book_conf orders pair ob" and t: "t \<in> set ts"
  obtains e where "(tx_price t, e) \<in> set (crossing_queue order ob)"
    and "tx_order_id_maker t = en_order_id e" and "tx_order_id_taker t = oi_id order"
    and "entry_conf orders pair (opposite (oi_side order)) (tx_price t, e)"
    and "en_account_id e \<noteq> oi_account_id order"
  using fill_trades [OF fill t] conf crossing_in_book(1) [of _ order ob]
  unfolding book_conf_side by blast

lemma made_by_maker:
  "made_in i ts \<noteq> 0 \<Longrightarrow> \<exists>t \<in> set ts. tx_order_id_maker t = i"
  by (induction ts) (auto split: if_splits)

text \<open>What an order of the queue trades, it had; the others make no trade.\<close>

lemma made_in_bound:
  assumes fill: "fill order n (crossing_queue order ob) = Traded ts m r"
    and conf: "book_conf orders pair ob" and ids: "distinct (book_ids ob)"
    and i: "i < length orders"
  shows "made_in i ts \<le> unat (po_remaining_volume (order_at orders i))"
proof (cases "made_in i ts = 0")
  case False
  from made_by_maker [OF this] obtain t where t: "t \<in> set ts" "tx_order_id_maker t = i" by blast
  from trade_conf [OF fill conf t(1)] obtain e where e: "(tx_price t, e) \<in> set (crossing_queue order ob)"
    "en_order_id e = i" "entry_conf orders pair (opposite (oi_side order)) (tx_price t, e)"
    using t(2) by metis
  have "distinct (entry_ids (crossing_queue order ob @ untouched_queue order ob))"
    using ids distinct_book_ids [of ob "oi_side order"] distinct_ids_cong [OF mset_opposite_queue] by blast
  then have "distinct (entry_ids (crossing_queue order ob))" by simp
  from volume_of_order_present [OF this e(1)] fill_by_order [OF fill, of i] e(2,3)
  show ?thesis by (auto simp: entry_conf_def Let_def word_le_nat_alt)
qed simp

lemma taker_is_new:
  assumes "fill order n (crossing_queue order ob) = Traded ts m r" and "book_conf orders pair ob"
    and "oi_id order = length orders"
  shows "\<forall>t \<in> set ts. tx_order_id_taker t = length orders"
  using trade_conf [OF assms(1,2)] assms(3) by metis

text \<open>A trade of the insertion can be settled: its orders exist and are of two accounts of the book.\<close>

lemma trade_can_settle:
  assumes fill: "fill order n (crossing_queue order ob) = Traded ts m r"
    and conf: "book_conf orders pair ob" and id: "oi_id order = length orders"
    and orders': "orders' = orders @ [(length orders, from_insertion order)]"
    and accounts: "\<forall>x \<in> set orders'. po_account_id (snd x) < bb_accounts bk"
    and pair: "listed bk pair" and t: "t \<in> set ts"
  shows "can_settle pair orders' bk t"
proof -
  from trade_conf [OF fill conf t] obtain e where mk: "tx_order_id_maker t = en_order_id e"
    and e: "entry_conf orders pair (opposite (oi_side order)) (tx_price t, e)"
    and self: "en_account_id e \<noteq> oi_account_id order"
    by blast
  have i: "en_order_id e < length orders" and acc: "po_account_id (order_at orders (en_order_id e)) = en_account_id e"
    using e by (simp_all add: entry_conf_def Let_def)
  have mk_acc: "po_account_id (order_at orders' (en_order_id e)) = en_account_id e"
    and tk_acc: "po_account_id (order_at orders' (length orders)) = oi_account_id order"
    using acc i by (simp_all add: orders' order_at_append)
  have len: "en_order_id e < length orders'" "length orders < length orders'"
    using i by (simp_all add: orders')
  have "po_account_id (order_at orders' j) < bb_accounts bk" if "j < length orders'" for j
    using that accounts by (simp add: order_at_def)
  from this [OF len(1)] this [OF len(2)] taker_is_new [OF fill conf id] t pair self i len show ?thesis
    by (simp add: can_settle_def Let_def mk mk_acc tk_acc listed_def bb_cells_def)
qed

lemma inserted_ready:
  assumes fill: "fill order (oi_volume order) (crossing_queue order ob) = Traded ts m r"
    and conf: "book_conf orders pair ob" and ids: "distinct (book_ids ob)"
    and n: "oi_id order = length orders"
    and ex: "ex_session_orders ex = orders @ [(length orders, from_insertion order)]"
    and accounts: "\<forall>x \<in> set (ex_session_orders ex). po_account_id (snd x) < bb_accounts (ex_balance_book ex)"
    and bk: "bb_ok (ex_balance_book ex)" and pair: "listed (ex_balance_book ex) pair"
    and rt: "rt_ok (ex_last_100_tx ex)"
  shows "ready_to_settle pair ts ex"
proof -
  let ?orders = "ex_session_orders ex"
  have old: "order_at ?orders i = order_at orders i" if "i < length orders" for i
    using that by (simp add: ex order_at_append)
  have new: "order_at ?orders (length orders) = from_insertion order"
    by (simp add: ex order_at_append)
  note taker = taker_is_new [OF fill conf n]
  have "can_settle pair ?orders (ex_balance_book ex) t" if t: "t \<in> set ts" for t
    by (rule trade_can_settle [OF fill conf n ex accounts pair t])
  moreover have "traded_in i ts \<le> unat (po_remaining_volume (order_at ?orders i))"
    if "i < length ?orders" for i
  proof (cases "i = length orders")
    case True
    with taker fill_conserves [OF fill] show ?thesis by (simp add: traded_in_taker new)
  next
    case False
    with that have i: "i < length orders" by (simp add: ex)
    with taker have "traded_in i ts = made_in i ts" by (intro traded_in_maker) auto
    with made_in_bound [OF fill conf ids i] show ?thesis by (simp add: old [OF i])
  qed
  ultimately show ?thesis using bk rt by (simp add: ready_to_settle_def)
qed

text \<open>An entry of the book before the insertion that has given no more than it had still conforms.\<close>

lemma kept_entry_conf:
  assumes fill: "fill order (oi_volume order) (crossing_queue order ob) = Traded ts m r"
    and conf: "book_conf orders (oi_pair order) ob" and n: "oi_id order = length orders"
    and len: "length orders' = Suc (length orders)"
    and after: "\<And>i. i < Suc (length orders) \<Longrightarrow> order_at orders' i =
      order_after i ts (order_at (orders @ [(length orders, from_insertion order)]) i)"
    and e: "(p, e) \<in> set (flat (book_side t ob))" and same: "en_order_id d = en_order_id e"
      "en_account_id d = en_account_id e"
    and vol: "unat (en_remaining_volume d) + made_in (en_order_id e) ts \<le> unat (en_remaining_volume e)"
  shows "entry_conf orders' (oi_pair order) t (p, d)"
proof -
  let ?orders = "orders @ [(length orders, from_insertion order)]"
  have conf_e: "entry_conf orders (oi_pair order) t (p, e)" using conf e by (auto simp: book_conf_side)
  show ?thesis
  proof (rule entry_conf_after [OF entry_conf_append [OF conf_e] same])
    have i: "en_order_id e < length orders" using conf_e by (simp add: entry_conf_def Let_def)
    have "traded_in (en_order_id e) ts = made_in (en_order_id e) ts"
      using i taker_is_new [OF fill conf n] by (intro traded_in_maker) auto
    then show "unat (en_remaining_volume d) + traded_in (en_order_id e) ts \<le> unat (en_remaining_volume e)"
      using vol by simp
    show "length orders' = length ?orders" by (simp add: len)
    show "order_at orders' (en_order_id e) = order_after (en_order_id e) ts (order_at ?orders (en_order_id e))"
      using i by (intro after) simp
  qed
qed

text \<open>What is left of the incoming order conforms to the order recorded for it.\<close>

lemma new_entry_conf:
  assumes fill: "fill order (oi_volume order) (crossing_queue order ob) = Traded ts m r"
    and conf: "book_conf orders (oi_pair order) ob" and n: "oi_id order = length orders"
    and len: "length orders' = Suc (length orders)"
    and after: "order_at orders' (length orders) =
      order_after (length orders) ts (from_insertion order)"
    and m: "0 < m"
  shows "entry_conf orders' (oi_pair order) (oi_side order)
    (oi_price order, entry_from_insertion (order\<lparr>oi_volume := m\<rparr>))"
proof -
  have "traded_in (length orders) ts = traded_volume ts"
    using taker_is_new [OF fill conf n] by (rule traded_in_taker)
  with fill_conserves [OF fill] order_after_remaining [of "length orders" ts "from_insertion order"]
  have "po_remaining_volume (order_after (length orders) ts (from_insertion order)) = m"
    by (intro word_unat_eq_iff [THEN iffD2]) simp
  with m n order_after_status [of "length orders" ts "from_insertion order"] show ?thesis
    by (auto simp: entry_conf_def Let_def len after)
qed

lemma inserted_conf:
  assumes fill: "fill order (oi_volume order) (crossing_queue order ob) = Traded ts m r"
    and conf: "book_conf orders (oi_pair order) ob" and ids: "distinct (book_ids ob)"
    and n: "oi_id order = length orders"
    and len: "length orders' = Suc (length orders)"
    and after: "\<And>i. i < Suc (length orders) \<Longrightarrow> order_at orders' i =
      order_after i ts (order_at (orders @ [(length orders, from_insertion order)]) i)"
    and opp: "mset (flat (book_side (opposite (oi_side order)) ob')) = mset (r @ untouched_queue order ob)"
    and own: "mset (flat (book_side (oi_side order) ob')) = mset (flat (book_side (oi_side order) ob)) +
      (if 0 < m then {#(oi_price order, entry_from_insertion (order\<lparr>oi_volume := m\<rparr>))#} else {#})"
  shows "book_conf orders' (oi_pair order) ob'"
  unfolding book_conf_side
proof (intro allI ballI)
  fix s x
  assume x: "x \<in> set (flat (book_side s ob'))"
  let ?orders = "orders @ [(length orders, from_insertion order)]"
  let ?cq = "crossing_queue order ob" and ?uq = "untouched_queue order ob" and ?s = "oi_side order"
  have new: "order_at ?orders (length orders) = from_insertion order"
    by (simp add: order_at_append)
  have apart: "distinct (entry_ids (?cq @ ?uq))"
    "set (entry_ids (flat (book_side ?s ob))) \<inter> set (entry_ids (?cq @ ?uq)) = {}"
    using ids distinct_book_ids [of ob ?s] distinct_ids_cong [OF mset_opposite_queue]
      set_ids_cong [OF mset_opposite_queue] by blast+
  have idle: "made_in i ts = 0" if "i \<notin> set (entry_ids ?cq)" for i
    using fill_by_order [OF fill, of i] volume_of_order_absent [OF that] by simp
  note keep = kept_entry_conf [OF fill conf n len after]
  obtain p d where pd: "x = (p, d)" by (cases x)
  consider (left) "s = opposite ?s" "x \<in> set r" | (untouched) "s = opposite ?s" "x \<in> set ?uq"
    | (own_old) "s = ?s" "x \<in> set (flat (book_side ?s ob))"
    | (own_new) "s = ?s" "0 < m" "x = (oi_price order, entry_from_insertion (order\<lparr>oi_volume := m\<rparr>))"
    using side_cases [of s ?s] x mset_eq_setD [OF opp] arg_cong [OF own, of set_mset]
    by (auto split: if_splits)
  then show "entry_conf orders' (oi_pair order) s x"
  proof cases
    case left
    from remainder_entry [OF fill_remainder [OF fill]] left(2) obtain e where e: "(p, e) \<in> set ?cq"
      "en_order_id d = en_order_id e" "en_account_id d = en_account_id e" unfolding pd by blast
    have "distinct (entry_ids r)"
      using remainder_distinct [OF fill_remainder [OF fill]] apart(1) by simp
    from volume_of_order_present [OF this left(2) [unfolded pd]]
      volume_of_order_present [of ?cq p e] apart(1) e fill_by_order [OF fill, of "en_order_id e"]
    have "unat (en_remaining_volume d) + made_in (en_order_id e) ts \<le> unat (en_remaining_volume e)"
      by simp
    with e crossing_in_book(1) [OF e(1)] show ?thesis unfolding pd left(1) by (intro keep)
  next
    case untouched
    then have "en_order_id d \<in> set (entry_ids ?uq)" by (force simp: pd set_entry_ids)
    with apart(1) have "made_in (en_order_id d) ts = 0" by (intro idle) auto
    with crossing_in_book(2) [OF untouched(2)] show ?thesis
      unfolding pd untouched(1) by (intro keep [of p d]) simp_all
  next
    case own_old
    then have "en_order_id d \<in> set (entry_ids (flat (book_side ?s ob)))" by (force simp: pd set_entry_ids)
    with apart(2) have "made_in (en_order_id d) ts = 0" by (intro idle) auto
    with own_old(2) show ?thesis unfolding pd own_old(1) by (intro keep [of p d]) simp_all
  next
    case own_new
    with new_entry_conf [OF fill conf n len] after [of "length orders"] show ?thesis by (simp add: new)
  qed
qed

lemma inserted_ids:
  assumes fill: "fill order (oi_volume order) (crossing_queue order ob) = Traded ts m r"
    and conf: "book_conf orders pair ob" and ids: "distinct (book_ids ob)"
    and n: "oi_id order = length orders"
    and opp: "mset (flat (book_side (opposite (oi_side order)) ob')) = mset (r @ untouched_queue order ob)"
    and own: "mset (flat (book_side (oi_side order) ob')) = mset (flat (book_side (oi_side order) ob)) +
      (if 0 < m then {#(oi_price order, entry_from_insertion (order\<lparr>oi_volume := m\<rparr>))#} else {#})"
  shows "distinct (book_ids ob')"
proof -
  let ?s = "oi_side order" and ?cq = "crossing_queue order ob" and ?uq = "untouched_queue order ob"
  have apart: "distinct (entry_ids (?cq @ ?uq))" "distinct (entry_ids (flat (book_side ?s ob)))"
    "set (entry_ids (flat (book_side ?s ob))) \<inter> set (entry_ids (?cq @ ?uq)) = {}"
    using ids distinct_book_ids [of ob ?s] distinct_ids_cong [OF mset_opposite_queue]
      set_ids_cong [OF mset_opposite_queue] by blast+
  have fresh: "length orders \<notin> set (entry_ids (flat (book_side t ob)))" for t
    using conf by (fastforce simp: book_conf_side entry_conf_def Let_def set_entry_ids)
  have fresh_opp: "length orders \<notin> set (entry_ids (?cq @ ?uq))"
    using fresh [of "opposite ?s"] set_ids_cong [OF mset_opposite_queue] by blast
  obtain gone where gone: "entry_ids ?cq = gone @ entry_ids r"
    using remainder_ids [OF fill_remainder [OF fill]] by blast
  let ?new = "if 0 < m then [(oi_price order, entry_from_insertion (order\<lparr>oi_volume := m\<rparr>))] else []"
  have own': "mset (flat (book_side ?s ob')) = mset (flat (book_side ?s ob) @ ?new)"
    using own by simp
  have "distinct (entry_ids (r @ ?uq))" using apart(1) gone by simp
  moreover have "distinct (entry_ids (flat (book_side ?s ob) @ ?new))"
    using apart(2) fresh n by simp
  moreover have "set (entry_ids (flat (book_side ?s ob) @ ?new)) \<inter> set (entry_ids (r @ ?uq)) = {}"
    using apart(3) fresh_opp gone n by auto
  ultimately show ?thesis
    unfolding distinct_book_ids [of ob' ?s] distinct_ids_cong [OF opp] distinct_ids_cong [OF own']
      set_ids_cong [OF opp] set_ids_cong [OF own'] by simp
qed

section \<open>Inserting an order\<close>

lemma scan_orders_Release: "\<exists>r. scan_orders Release v a es = Some r"
  by (induction es arbitrary: a) auto

lemma check_volume_Release: "\<exists>r. check_volume Release order ob = Some r"
proof -
  have "\<exists>r. scan_levels_fok Release s v p a ls = Some r" for s v p a and ls :: "'a levels"
  proof (induction ls arbitrary: a)
    case (Cons l ls)
    then show ?case
      using scan_orders_Release [of v a "snd l"]
      by (cases l) (auto simp: Let_def split: sum.split)
  qed simp
  moreover have "\<exists>r. scan_levels_market Release v a ls = Some r" for v a and ls :: "'a levels"
  proof (induction ls arbitrary: a)
    case (Cons l ls)
    then show ?case
      using scan_orders_Release [of v a "snd l"]
      by (cases l) (auto split: sum.split)
  qed simp
  ultimately show ?thesis
    by (simp add: check_volume_def enough_volume_fok_def enough_volume_market_def Let_def)
qed

lemma check_volume_error: "check_volume b order ob = Some (Inl err) \<Longrightarrow> err \<noteq> SelfTrade"
proof -
  have "scan_levels_fok b s v p a ls = Some (Inl err) \<Longrightarrow> err \<noteq> SelfTrade"
    for s v p a and ls :: "'a levels"
    by (induction b s v p a ls rule: scan_levels_fok.induct)
      (auto simp: Let_def split: if_splits option.splits sum.splits)
  moreover have "scan_levels_market b v a ls = Some (Inl err) \<Longrightarrow> err \<noteq> SelfTrade"
    for v a and ls :: "'a levels"
    by (induction b v a ls rule: scan_levels_market.induct)
      (auto split: option.splits sum.splits)
  ultimately show "check_volume b order ob = Some (Inl err) \<Longrightarrow> err \<noteq> SelfTrade"
    by (auto simp: check_volume_def enough_volume_fok_def enough_volume_market_def Let_def split: if_splits)
qed

text \<open>Where the scan does not overflow, a build with overflow checks scans like one without.\<close>

lemma u32_add_same: "u32_add b x y = Some z \<Longrightarrow> z = x + y"
  by (simp add: u32_add_def split: if_splits)

lemma scan_orders_same: "scan_orders b v a es = Some r \<Longrightarrow> scan_orders Release v a es = Some r"
  by (induction es arbitrary: a) (auto dest: u32_add_same split: option.splits if_splits)

lemma check_volume_same: "check_volume b order ob = Some c \<Longrightarrow> check_volume Release order ob = Some c"
proof -
  have "scan_levels_fok b s v p a ls = Some c \<Longrightarrow> scan_levels_fok Release s v p a ls = Some c"
    for s v p a and ls :: "'a levels"
  proof (induction ls arbitrary: a)
    case (Cons l ls)
    then show ?case
      using scan_orders_same [of b v a "snd l"]
      by (cases l; cases "scan_orders b v a (snd l)") (auto simp: Let_def split: if_splits sum.splits)
  qed simp
  moreover have "scan_levels_market b v a ls = Some c \<Longrightarrow> scan_levels_market Release v a ls = Some c"
    for v a and ls :: "'a levels"
  proof (induction ls arbitrary: a)
    case (Cons l ls)
    then show ?case
      using scan_orders_same [of b v a "snd l"]
      by (cases l; cases "scan_orders b v a (snd l)") (auto split: sum.splits)
  qed simp
  ultimately show "check_volume b order ob = Some c \<Longrightarrow> check_volume Release order ob = Some c"
    by (auto simp: check_volume_def enough_volume_fok_def enough_volume_market_def Let_def split: if_splits)
qed

text \<open>The exchange's insertion in its three cases: rejected with nothing changed, a self-trade, or
  inserted and settled. The state in which settlement starts is \<open>ex2\<close>.\<close>

definition before_settlement ::
    "'p order_insertion \<Rightarrow> asset_id_pair \<Rightarrow> 'p market \<Rightarrow> 'p ob_transaction_buffer \<Rightarrow> 'p exchange \<Rightarrow> 'p exchange" where
  "before_settlement insertion pair market' ts ex =
     ex\<lparr>ex_markets := markets_store pair market' (ex_markets ex),
        ex_transaction_buf := ts,
        ex_session_orders := ex_session_orders ex @
          [(length (ex_session_orders ex), from_insertion insertion)]\<rparr>"

definition inserted ::
    "'p::linorder order_insertion_request \<Rightarrow> 'p exchange \<Rightarrow> 'p order_insertion" where
  "inserted req ex = into_insertion req (length (ex_session_orders ex))"

lemma inserted_simps [simp]:
  "oi_id (inserted req ex) = length (ex_session_orders ex)"
  "oi_account_id (inserted req ex) = rq_account_id req"
  "oi_order_type (inserted req ex) = rq_order_type req"
  "oi_pair (inserted req ex) = rq_pair req"
  "oi_side (inserted req ex) = rq_side req"
  "oi_volume (inserted req ex) = rq_volume req"
  "oi_price (inserted req ex) = rq_price req"
  by (simp_all add: inserted_def)

text \<open>What an insertion answers, read off the market's book: the specification of the result.\<close>

definition insert_verdict ::
    "'p::linorder order_insertion_request \<Rightarrow> 'p exchange
     \<Rightarrow> order_insertion_error + order_insertion_effects" where
  "insert_verdict req ex =
     (case markets_get (ex_markets ex) (rq_pair req) of
        None \<Rightarrow> Inl order_insertion_error.MarketDoesNotExist
      | Some market \<Rightarrow>
          if length (ex_accounts ex) \<le> unat (rq_account_id req) then Inl AccountDoesNotExist
          else let order = inserted req ex; ob = mk_orderbook market in
            (case check_volume Release order ob of
               Some (Inl err) \<Rightarrow> Inl err
             | _ \<Rightarrow>
                 (case fill order (oi_volume order) (crossing_queue order ob) of
                    Own_order_reached \<Rightarrow> Inl SelfTrade
                  | Traded ts m r \<Rightarrow>
                      Inr \<lparr>ie_id = length (ex_session_orders ex),
                           ie_status = (if 0 < m then AwaitingFill else Filled)\<rparr>)))"

text \<open>The exchange's insertion, when market and account exist, by what the market answers.\<close>

lemma insert_through:
  assumes "markets_get (ex_markets ex) (rq_pair req) = Some market"
    and "\<not> length (ex_accounts ex) \<le> unat (rq_account_id req)" and "ex_transaction_buf ex = []"
    and "market_insert_order b (inserted req ex) market [] = Some (result, market', ts)"
  shows "exchange_insert_order b fx clock req ex =
    (case result of
       Inl err \<Rightarrow> Some (Inl err, ex\<lparr>ex_markets := markets_store (rq_pair req) market' (ex_markets ex),
         ex_transaction_buf := ts\<rparr>)
     | Inr ef \<Rightarrow>
         map_option (\<lambda>ex'. (Inr \<lparr>ie_id = length (ex_session_orders ex), ie_status = ef_status ef\<rparr>, ex'))
           (process_transactions b fx clock (rq_pair req)
             (before_settlement (inserted req ex) (rq_pair req) market' ts ex)))"
  using assms
  by (simp add: exchange_insert_order_def Let_def before_settlement_def map_option_case
      flip: inserted_def split: sum.split option.split)

lemma verdict_of_check:
  assumes "markets_get (ex_markets ex) (rq_pair req) = Some market"
    and "\<not> length (ex_accounts ex) \<le> unat (rq_account_id req)"
    and "check_volume b (inserted req ex) (mk_orderbook market) = Some c"
  shows "insert_verdict req ex =
    (case c of Inl err \<Rightarrow> Inl err
     | Inr _ \<Rightarrow>
         (case fill (inserted req ex) (rq_volume req) (crossing_queue (inserted req ex) (mk_orderbook market)) of
            Own_order_reached \<Rightarrow> Inl SelfTrade
          | Traded ts m r \<Rightarrow>
              Inr \<lparr>ie_id = length (ex_session_orders ex), ie_status = (if 0 < m then AwaitingFill else Filled)\<rparr>))"
  using assms(1,2) check_volume_same [OF assms(3)]
  by (simp add: insert_verdict_def Let_def split: sum.split)

text \<open>The market's part of an insertion that is neither refused nor a self-trade.\<close>

lemma traded_insertion:
  assumes ok: "exchange_ok ex" and get: "markets_get (ex_markets ex) (rq_pair req) = Some market"
    and account: "unat (rq_account_id req) < length (ex_accounts ex)"
    and check: "check_volume b (inserted req ex) (mk_orderbook market) = Some (Inr ())"
    and fill: "fill (inserted req ex) (oi_volume (inserted req ex))
      (crossing_queue (inserted req ex) (mk_orderbook market)) = Traded ts m r"
  obtains market' where "mk_asset_pair market' = rq_pair req"
    and "ob_insert_order b (inserted req ex) (mk_orderbook market) [] =
      Some (Inr \<lparr>ef_status = (if 0 < m then AwaitingFill else Filled),
                 ef_last_traded_price = last_price ts m\<rparr>, mk_orderbook market', ts)"
    and "market_insert_order b (inserted req ex) market [] =
      Some (Inr \<lparr>ef_status = (if 0 < m then AwaitingFill else Filled),
                 ef_last_traded_price = last_price ts m\<rparr>, market', ts)"
    and "ready_to_settle (rq_pair req) ts (before_settlement (inserted req ex) (rq_pair req) market' ts ex)"
    and "\<And>ex'. settled fx bits clock (rq_pair req) (rev ts)
      (before_settlement (inserted req ex) (rq_pair req) market' ts ex) ex' \<Longrightarrow>
      market_inv (ex_session_orders ex') market'"
proof -
  let ?order = "inserted req ex" and ?ob = "mk_orderbook market" and ?n = "length (ex_session_orders ex)"
  note inv = exchange_ok_market [OF ok get]
  have ob: "book_sorted ?ob" "book_clean ?ob" "book_uncrossed ?ob" "distinct (book_ids ?ob)"
    "book_conf (ex_session_orders ex) (rq_pair req) ?ob"
    using inv by (simp_all add: market_inv_def Let_def)
  from inserted_entries [OF check ob(1,2) fill, of "[]"]
  obtain ob' where ins: "ob_insert_order b ?order ?ob [] =
      Some (Inr \<lparr>ef_status = (if 0 < m then AwaitingFill else Filled),
                 ef_last_traded_price = last_price ts m\<rparr>, ob', ts)"
    and opp: "mset (flat (book_side (opposite (oi_side ?order)) ob')) = mset (r @ untouched_queue ?order ?ob)"
    and own: "mset (flat (book_side (oi_side ?order) ob')) = mset (flat (book_side (oi_side ?order) ?ob)) +
      (if 0 < m then {#(oi_price ?order, entry_from_insertion (?order\<lparr>oi_volume := m\<rparr>))#} else {#})"
    by auto
  obtain market' where mkt: "market_insert_order b ?order market [] =
      Some (Inr \<lparr>ef_status = (if 0 < m then AwaitingFill else Filled),
                 ef_last_traded_price = last_price ts m\<rparr>, market', ts)"
    and mkt': "mk_orderbook market' = ob'" "mk_asset_pair market' = rq_pair req"
    using ins inv(3) by (auto simp: market_insert_order_def Let_def split: option.split)
  let ?ex2 = "before_settlement ?order (rq_pair req) market' ts ex"
  have ready: "ready_to_settle (rq_pair req) ts ?ex2"
    using ok account inv(2)
    by (intro inserted_ready [OF fill ob(5,4)])
      (auto simp: before_settlement_def exchange_ok_def roster_ok_def orders_ok_def Let_def
        word_less_nat_alt dest: arg_cong [where f = length])
  have "market_inv (ex_session_orders ex') market'"
    if set: "settled fx bits clock (rq_pair req) (rev ts) ?ex2 ex'" for ex'
  proof -
    have len: "length (ex_session_orders ex') = Suc ?n"
      using settled_length [OF set] by (simp add: before_settlement_def)
    have after: "order_at (ex_session_orders ex') i = order_after i ts (order_at (ex_session_orders ex @
        [(?n, from_insertion ?order)]) i)" if "i < Suc ?n" for i
      using set that by (simp add: settled_def Let_def before_settlement_def)
    have "book_conf (ex_session_orders ex') (rq_pair req) ob'"
      using inserted_conf [OF fill _ ob(4) _ len _ opp own] ob(5) after by simp
    moreover have "distinct (book_ids ob')" by (rule inserted_ids [OF fill ob(5,4) _ opp own]) simp
    moreover have "book_sorted ob'" "book_uncrossed ob'" "book_clean ob'"
      using insert_keeps_sorted [OF ob(1) ins] insert_keeps_uncrossed [OF ob(1,3) ins]
        insert_keeps_clean [OF ob(1,2) ins] by blast+
    ultimately show ?thesis by (simp add: market_inv_def Let_def mkt')
  qed
  with that [OF mkt'(2)] ins mkt mkt'(1) ready show thesis by simp
qed

context fixed_price
begin

text \<open>An insertion whose trades settle.\<close>

lemma insert_settles:
  assumes ok: "exchange_ok ex" and get: "markets_get (ex_markets ex) (rq_pair req) = Some market"
    and account: "\<not> length (ex_accounts ex) \<le> unat (rq_account_id req)"
    and check: "check_volume b (inserted req ex) (mk_orderbook market) = Some (Inr ())"
    and fill: "fill (inserted req ex) (oi_volume (inserted req ex))
      (crossing_queue (inserted req ex) (mk_orderbook market)) = Traded ts m r"
    and settles: "\<And>market'.
      ready_to_settle (rq_pair req) ts (before_settlement (inserted req ex) (rq_pair req) market' ts ex) \<Longrightarrow>
      \<exists>ex'. process_transactions b fx clock (rq_pair req)
          (before_settlement (inserted req ex) (rq_pair req) market' ts ex) = Some ex' \<and>
        settled fx bits clock (rq_pair req) (rev ts)
          (before_settlement (inserted req ex) (rq_pair req) market' ts ex) ex' \<and>
        ex_transaction_buf ex' = []"
  obtains market' ex' where "mk_asset_pair market' = rq_pair req"
    and "ob_insert_order b (inserted req ex) (mk_orderbook market) [] =
      Some (Inr \<lparr>ef_status = (if 0 < m then AwaitingFill else Filled),
                 ef_last_traded_price = last_price ts m\<rparr>, mk_orderbook market', ts)"
    and "market_inv (ex_session_orders ex') market'"
    and "settled fx bits clock (rq_pair req) (rev ts)
      (before_settlement (inserted req ex) (rq_pair req) market' ts ex) ex'"
    and "ex_transaction_buf ex' = []"
    and "exchange_insert_order b fx clock req ex =
      Some (Inr \<lparr>ie_id = length (ex_session_orders ex),
                 ie_status = (if 0 < m then AwaitingFill else Filled)\<rparr>, ex')"
    and "ready_to_settle (rq_pair req) ts (before_settlement (inserted req ex) (rq_pair req) market' ts ex)"
    and "process_transactions b fx clock (rq_pair req)
      (before_settlement (inserted req ex) (rq_pair req) market' ts ex) = Some ex'"
proof (rule traded_insertion [where b = b and fx = fx and bits = bits and clock = clock, OF ok get _ check fill])
  let ?order = "inserted req ex"
  fix market'
  let ?ex2 = "before_settlement ?order (rq_pair req) market' ts ex"
  assume mkt: "mk_asset_pair market' = rq_pair req"
    "ob_insert_order b ?order (mk_orderbook market) [] = Some (Inr \<lparr>ef_status = (if 0 < m then AwaitingFill else Filled),
       ef_last_traded_price = last_price ts m\<rparr>, mk_orderbook market', ts)"
    "market_insert_order b ?order market [] = Some (Inr \<lparr>ef_status = (if 0 < m then AwaitingFill else Filled),
       ef_last_traded_price = last_price ts m\<rparr>, market', ts)"
    and ready: "ready_to_settle (rq_pair req) ts ?ex2"
    and inv: "\<And>ex'. settled fx bits clock (rq_pair req) (rev ts) ?ex2 ex' \<Longrightarrow>
      market_inv (ex_session_orders ex') market'"
  obtain ex' where ex': "process_transactions b fx clock (rq_pair req) ?ex2 = Some ex'"
    "settled fx bits clock (rq_pair req) (rev ts) ?ex2 ex'" "ex_transaction_buf ex' = []"
    using settles [OF ready] by auto
  have "ex_transaction_buf ex = []" using ok by (simp add: exchange_ok_def)
  from insert_through [OF get account this mkt(3), of fx clock] ex'(1)
  show thesis by (intro that [OF mkt(1,2) inv [OF ex'(2)] ex'(2,3) _ ready ex'(1)]) simp
qed (use account in simp)

lemma exchange_insert_runs:
  assumes ok: "exchange_ok ex"
    and checks: "\<And>market. markets_get (ex_markets ex) (rq_pair req) = Some market \<Longrightarrow>
      check_volume b (inserted req ex) (mk_orderbook market) \<noteq> None"
    and settles: "\<And>market market' ts m r. markets_get (ex_markets ex) (rq_pair req) = Some market \<Longrightarrow>
      fill (inserted req ex) (rq_volume req)
        (crossing_queue (inserted req ex) (mk_orderbook market)) = Traded ts m r \<Longrightarrow>
      ready_to_settle (rq_pair req) ts (before_settlement (inserted req ex) (rq_pair req) market' ts ex) \<Longrightarrow>
      \<exists>ex'. process_transactions b fx clock (rq_pair req)
          (before_settlement (inserted req ex) (rq_pair req) market' ts ex) = Some ex' \<and>
        settled fx bits clock (rq_pair req) (rev ts)
          (before_settlement (inserted req ex) (rq_pair req) market' ts ex) ex' \<and>
        ex_transaction_buf ex' = []"
  obtains (rejected) err where "err \<noteq> SelfTrade"
      "exchange_insert_order b fx clock req ex = Some (Inl err, ex)" "insert_verdict req ex = Inl err"
  | (self_trade) ex' where "exchange_insert_order b fx clock req ex = Some (Inl SelfTrade, ex')"
      "insert_verdict req ex = Inl SelfTrade"
  | (settled) market market' ts m r ex' where
      "markets_get (ex_markets ex) (rq_pair req) = Some market"
      "unat (rq_account_id req) < length (ex_accounts ex)"
      "check_volume b (inserted req ex) (mk_orderbook market) = Some (Inr ())"
      "fill (inserted req ex) (rq_volume req)
         (crossing_queue (inserted req ex) (mk_orderbook market)) = Traded ts m r"
      "mk_asset_pair market' = rq_pair req"
      "ob_insert_order b (inserted req ex) (mk_orderbook market) [] =
         Some (Inr \<lparr>ef_status = (if 0 < m then AwaitingFill else Filled),
                    ef_last_traded_price = last_price ts m\<rparr>, mk_orderbook market', ts)"
      "market_inv (ex_session_orders ex') market'"
      "settled fx bits clock (rq_pair req) (rev ts)
         (before_settlement (inserted req ex) (rq_pair req) market' ts ex) ex'"
      "ex_transaction_buf ex' = []"
      "exchange_insert_order b fx clock req ex =
         Some (Inr \<lparr>ie_id = length (ex_session_orders ex),
                    ie_status = (if 0 < m then AwaitingFill else Filled)\<rparr>, ex')"
      "ready_to_settle (rq_pair req) ts (before_settlement (inserted req ex) (rq_pair req) market' ts ex)"
      "process_transactions b fx clock (rq_pair req)
         (before_settlement (inserted req ex) (rq_pair req) market' ts ex) = Some ex'"
proof (cases "markets_get (ex_markets ex) (rq_pair req)")
  case None
  then show thesis
    by (intro rejected [of "order_insertion_error.MarketDoesNotExist"])
      (simp_all add: exchange_insert_order_def insert_verdict_def)
next
  case (Some market)
  show thesis
  proof (cases "length (ex_accounts ex) \<le> unat (rq_account_id req)")
    case True
    with Some show thesis
      by (intro rejected [of AccountDoesNotExist]) (simp_all add: exchange_insert_order_def insert_verdict_def)
  next
    case account: False
    let ?order = "inserted req ex" and ?ob = "mk_orderbook market"
    have buf: "ex_transaction_buf ex = []" using ok by (simp add: exchange_ok_def)
    have ob: "book_sorted ?ob" "book_clean ?ob"
      using exchange_ok_market(1) [OF ok Some] by (simp_all add: market_inv_def Let_def)
    obtain c where c: "check_volume b ?order ?ob = Some c" using checks [OF Some] by blast
    note through = insert_through [OF Some account buf, of b _ _ _ fx clock]
    note verdict = verdict_of_check [OF Some account c]
    show thesis
    proof (cases c)
      case (Inl err)
      then have "market_insert_order b ?order market [] = Some (Inl err, market, [])"
        using c by (simp add: market_insert_order_def ob_insert_order_def)
      from through [OF this] Inl c verdict buf Some show thesis
        by (intro rejected [OF check_volume_error]) (simp_all add: markets_store_same)
    next
      case (Inr u)
      then have check: "check_volume b ?order ?ob = Some (Inr ())" using c by simp
      show thesis
      proof (cases "fill ?order (oi_volume ?order) (crossing_queue ?order ?ob)")
        case Own_order_reached
        then obtain ob' buf' where "ob_insert_order b ?order ?ob [] = Some (Inl SelfTrade, ob', buf')"
          using ob_insert_order_Own [OF check book_sorted_side [OF ob(1)] can_match_clean [OF ob(2)]] by blast
        then have "market_insert_order b ?order market [] =
            Some (Inl SelfTrade, market\<lparr>mk_orderbook := ob'\<rparr>, buf')" by (simp add: market_insert_order_def)
        from through [OF this] verdict Own_order_reached Inr self_trade show thesis by simp
      next
        case (Traded ts m r)
        then have "fill ?order (rq_volume req) (crossing_queue ?order ?ob) = Traded ts m r" by simp
        note settles = settles [OF Some this] and settled = settled [OF Some _ check this]
        show thesis
          by (rule insert_settles [where b = b and clock = clock, OF ok Some account check Traded settles],
              assumption, rule settled) (use account in simp_all)
      qed
    qed
  qed
qed

lemma exchange_insert_cases:
  assumes ok: "exchange_ok ex" and total: "fx_total fx" and clock: "\<forall>n. clock n \<noteq> None"
  obtains (rejected) err where "err \<noteq> SelfTrade"
      "exchange_insert_order Release fx clock req ex = Some (Inl err, ex)" "insert_verdict req ex = Inl err"
  | (self_trade) ex' where "exchange_insert_order Release fx clock req ex = Some (Inl SelfTrade, ex')"
      "insert_verdict req ex = Inl SelfTrade"
  | (settled) market market' ts m r ex' where
      "markets_get (ex_markets ex) (rq_pair req) = Some market"
      "unat (rq_account_id req) < length (ex_accounts ex)"
      "check_volume Release (inserted req ex) (mk_orderbook market) = Some (Inr ())"
      "fill (inserted req ex) (rq_volume req)
         (crossing_queue (inserted req ex) (mk_orderbook market)) = Traded ts m r"
      "mk_asset_pair market' = rq_pair req"
      "ob_insert_order Release (inserted req ex) (mk_orderbook market) [] =
         Some (Inr \<lparr>ef_status = (if 0 < m then AwaitingFill else Filled),
                    ef_last_traded_price = last_price ts m\<rparr>, mk_orderbook market', ts)"
      "market_inv (ex_session_orders ex') market'"
      "settled fx bits clock (rq_pair req) (rev ts)
         (before_settlement (inserted req ex) (rq_pair req) market' ts ex) ex'"
      "ex_transaction_buf ex' = []"
      "exchange_insert_order Release fx clock req ex =
         Some (Inr \<lparr>ie_id = length (ex_session_orders ex),
                    ie_status = (if 0 < m then AwaitingFill else Filled)\<rparr>, ex')"
      "ready_to_settle (rq_pair req) ts (before_settlement (inserted req ex) (rq_pair req) market' ts ex)"
proof (rule exchange_insert_runs [where b = Release and clock = clock and req = req, OF ok])
  show "check_volume Release (inserted req ex) (mk_orderbook market) \<noteq> None" for market
    using check_volume_Release by fastforce
next
  fix market market' ts m r
  let ?ex2 = "before_settlement (inserted req ex) (rq_pair req) market' ts ex"
  assume "ready_to_settle (rq_pair req) ts ?ex2"
  then show "\<exists>ex'. process_transactions Release fx clock (rq_pair req) ?ex2 = Some ex' \<and>
      settled fx bits clock (rq_pair req) (rev ts) ?ex2 ex' \<and> ex_transaction_buf ex' = []"
    using process_transactions_settles [OF total clock, of "rq_pair req" ?ex2 Release]
    by (auto simp: before_settlement_def)
qed (use rejected self_trade settled in blast)+

end

lemma market_inv_orders:
  assumes "market_inv orders m" and "length orders \<le> length orders'"
    and "\<And>i. i < length orders \<Longrightarrow> po_pair (order_at orders i) = mk_asset_pair m \<Longrightarrow>
      order_at orders' i = order_at orders i"
  shows "market_inv orders' m"
proof -
  have "entry_conf orders' (mk_asset_pair m) s x" if "entry_conf orders (mk_asset_pair m) s x" for s x
    using that assms(2,3) by (auto simp: entry_conf_def Let_def)
  with assms(1) show ?thesis by (auto simp: market_inv_def Let_def book_conf_def)
qed

lemma not_involved:
  assumes fill: "fill order n (crossing_queue order ob) = Traded ts m r"
    and conf: "book_conf orders pair ob" and "oi_id order = length orders"
    and "i < length orders" and "po_pair (order_at orders i) \<noteq> pair"
  shows "\<not> (\<exists>t \<in> set ts. involves i t)"
proof
  assume "\<exists>t \<in> set ts. involves i t"
  then obtain t where t: "t \<in> set ts" "involves i t" by blast
  from trade_conf [OF fill conf t(1)] obtain e where "tx_order_id_maker t = en_order_id e"
    "tx_order_id_taker t = oi_id order" "entry_conf orders pair (opposite (oi_side order)) (tx_price t, e)"
    by blast
  with t(2) assms(3-5) show False
    by (simp add: involves_def entry_conf_def Let_def)
qed

lemma moved_bb: "moved bits bk bk' d \<Longrightarrow>
    bb_ok bk' \<and> bb_accounts bk' = bb_accounts bk \<and> bb_assets bk' = bb_assets bk"
  by (simp add: moved_def)

lemma orders_okI:
  "map fst (ex_session_orders ex) = [0..<length (ex_session_orders ex)] \<Longrightarrow>
   (\<And>i. i < length (ex_session_orders ex) \<Longrightarrow>
      po_account_id (order_at (ex_session_orders ex) i) < bb_accounts (ex_balance_book ex)) \<Longrightarrow>
   orders_ok ex"
  unfolding orders_ok_def order_at_def by (metis in_set_conv_nth)

lemma orders_okD:
  "orders_ok ex \<Longrightarrow> i < length (ex_session_orders ex) \<Longrightarrow>
   po_account_id (order_at (ex_session_orders ex) i) < bb_accounts (ex_balance_book ex)"
  by (simp add: orders_ok_def order_at_def)

text \<open>An inserted and settled order leaves the roster and the orders in order.\<close>

lemma settled_roster_orders:
  assumes ok: "exchange_ok ex" and account: "unat (oi_account_id order) < length (ex_accounts ex)"
    and set: "settled fx bits clock pair ts' (before_settlement order pair market' ts ex) ex'"
  shows "roster_ok ex'" and "orders_ok ex'"
proof -
  let ?n = "length (ex_session_orders ex)" and ?bk = "ex_balance_book ex"
  let ?orders = "ex_session_orders ex @ [(?n, from_insertion order)]"
  note s = set [unfolded settled_def Let_def before_settlement_def, simplified]
  have bk: "bb_ok (ex_balance_book ex')" "bb_accounts (ex_balance_book ex') = bb_accounts ?bk"
    "bb_assets (ex_balance_book ex') = bb_assets ?bk"
    using s moved_bb by blast+
  have len: "length (ex_session_orders ex') = Suc ?n"
    using settled_length [OF set] by (simp add: before_settlement_def)
  show "roster_ok ex'" using ok s bk by (simp add: exchange_ok_def roster_ok_def Let_def)
  have "length (ex_accounts ex) = unat (bb_accounts ?bk)"
    using ok by (auto simp: exchange_ok_def roster_ok_def Let_def dest: arg_cong [where f = length])
  then have taker: "oi_account_id order < bb_accounts ?bk" using account by (simp add: word_less_nat_alt)
  show "orders_ok ex'"
  proof (rule orders_okI)
    show "map fst (ex_session_orders ex') = [0..<length (ex_session_orders ex')]"
      using s ok len by (simp add: exchange_ok_def orders_ok_def)
    fix i
    assume "i < length (ex_session_orders ex')"
    then have i: "i < Suc ?n" by (simp add: len)
    then have "po_account_id (order_at ?orders i) < bb_accounts ?bk"
      using taker orders_okD [of ex i] ok by (cases "i = ?n") (simp_all add: order_at_append exchange_ok_def)
    with s i show "po_account_id (order_at (ex_session_orders ex') i) < bb_accounts (ex_balance_book ex')"
      by (simp add: bk)
  qed
qed

lemma settled_insertion_ok:
  assumes ok: "exchange_ok ex" and get: "markets_get (ex_markets ex) pair = Some market"
    and account: "unat (oi_account_id order) < length (ex_accounts ex)"
    and id: "oi_id order = length (ex_session_orders ex)"
    and fill: "fill order (oi_volume order) (crossing_queue order (mk_orderbook market)) = Traded ts m r"
    and pair: "mk_asset_pair market' = pair" and inv: "market_inv (ex_session_orders ex') market'"
    and set: "settled fx bits clock pair (rev ts) (before_settlement order pair market' ts ex) ex'"
    and buf: "ex_transaction_buf ex' = []"
  shows "exchange_ok ex'"
proof -
  let ?n = "length (ex_session_orders ex)" and ?bk = "ex_balance_book ex"
  let ?orders = "ex_session_orders ex @ [(?n, from_insertion order)]"
  note s = set [unfolded settled_def Let_def before_settlement_def, simplified]
  have bk: "bb_ok (ex_balance_book ex')" "bb_accounts (ex_balance_book ex') = bb_accounts ?bk"
    "bb_assets (ex_balance_book ex') = bb_assets ?bk"
    using s moved_bb by blast+
  have len: "length (ex_session_orders ex') = Suc ?n"
    using settled_length [OF set] by (simp add: before_settlement_def)
  have after: "order_at (ex_session_orders ex') i = order_after i ts (order_at ?orders i)" if "i < Suc ?n" for i
    using s that by simp
  note roster = settled_roster_orders [OF ok account set]
  have conf: "book_conf (ex_session_orders ex) pair (mk_orderbook market)"
    using exchange_ok_market [OF ok get] by (simp add: market_inv_def Let_def)
  let ?P = "\<lambda>m. market_inv (ex_session_orders ex') m \<and> listed (ex_balance_book ex') (mk_asset_pair m)"
  have listed: "listed (ex_balance_book ex') k = listed ?bk k" for k by (simp add: listed_def bk)
  have "?P m''" if "k \<noteq> pair" "markets_get (ex_markets ex) k = Some m''" for k m''
  proof
    note inv'' = exchange_ok_market [OF ok that(2)]
    show "market_inv (ex_session_orders ex') m''"
    proof (rule market_inv_orders [OF inv''(1)])
      fix i
      assume i: "i < ?n" and "po_pair (order_at (ex_session_orders ex) i) = mk_asset_pair m''"
      with that(1) inv''(3) not_involved [OF fill conf id i]
      have "\<not> (\<exists>t \<in> set ts. involves i t)" by simp
      with i show "order_at (ex_session_orders ex') i = order_at (ex_session_orders ex) i"
        by (simp add: after order_at_append order_after_def)
    qed (simp add: len)
    show "listed (ex_balance_book ex') (mk_asset_pair m'')" using inv'' by (simp add: listed)
  qed
  moreover have "?P market'" using inv pair exchange_ok_market(2) [OF ok get] by (simp add: listed)
  moreover have "markets_ok (ex_markets ex)" using ok by (simp add: exchange_ok_def)
  ultimately have "markets_ok (markets_store pair market' (ex_markets ex)) \<and>
      (\<forall>m'' \<in> set (ms_inner (markets_store pair market' (ex_markets ex))). ?P m'')"
    by (intro markets_after_store [OF _ get pair])
  with roster s buf show ?thesis by (simp add: exchange_ok_def)
qed

context fixed_price
begin

lemma exchange_insert_verdict:
  assumes ok: "exchange_ok ex" and total: "fx_total fx" and clock: "\<forall>n. clock n \<noteq> None"
  shows "map_option fst (exchange_insert_order Release fx clock req ex) = Some (insert_verdict req ex)"
proof (cases rule: exchange_insert_cases [OF assms, of req, case_names rejected self_trade settled])
  case (settled market market' ts m r ex')
  then show ?thesis by (simp add: insert_verdict_def Let_def)
qed simp_all

lemma exchange_insert_ok:
  assumes ok: "exchange_ok ex" and total: "fx_total fx" and clock: "\<forall>n. clock n \<noteq> None"
  shows "\<exists>res ex'. exchange_insert_order Release fx clock req ex = Some (res, ex') \<and>
    (res = Inl SelfTrade \<or> exchange_ok ex')"
proof (rule exchange_insert_cases [OF assms, of req])
  fix market market' ts m r ex'
  assume get: "markets_get (ex_markets ex) (rq_pair req) = Some market"
    and account: "unat (rq_account_id req) < length (ex_accounts ex)"
    and fill: "fill (inserted req ex) (rq_volume req)
      (crossing_queue (inserted req ex) (mk_orderbook market)) = Traded ts m r"
    and pair: "mk_asset_pair market' = rq_pair req" and inv: "market_inv (ex_session_orders ex') market'"
    and set: "settled fx bits clock (rq_pair req) (rev ts)
      (before_settlement (inserted req ex) (rq_pair req) market' ts ex) ex'"
    and buf: "ex_transaction_buf ex' = []"
    and res: "exchange_insert_order Release fx clock req ex =
      Some (Inr \<lparr>ie_id = length (ex_session_orders ex),
                 ie_status = (if 0 < m then AwaitingFill else Filled)\<rparr>, ex')"
  have "exchange_ok ex'"
    by (rule settled_insertion_ok [OF ok get _ _ _ pair inv set buf]) (use account fill in simp_all)
  with res show ?thesis by blast
qed (use ok in blast)+

end

text \<open>The order an insertion records has what it did not trade left, and, unless it asked for nothing, the
  status the insertion answers.\<close>

lemma recorded_order:
  assumes fill: "fill order (oi_volume order) (crossing_queue order ob) = Traded ts m r"
    and conf: "book_conf (ex_session_orders ex) pair ob" and n: "oi_id order = length (ex_session_orders ex)"
    and set: "settled fx bits clock pair (rev ts) (before_settlement order pair market' ts ex) ex'"
  shows "po_remaining_volume (order_at (ex_session_orders ex') (length (ex_session_orders ex))) = m"
    and "oi_volume order \<noteq> 0 \<Longrightarrow>
      po_status (order_at (ex_session_orders ex') (length (ex_session_orders ex))) =
        (if 0 < m then AwaitingFill else Filled)"
proof -
  let ?n = "length (ex_session_orders ex)" and ?o = "from_insertion order"
  have after: "order_at (ex_session_orders ex') ?n = order_after ?n ts ?o"
    using set by (simp add: settled_def Let_def before_settlement_def order_at_append)
  have taker: "\<forall>t \<in> set ts. tx_order_id_taker t = ?n"
    using fill conf n by (rule taker_is_new)
  have conserved: "unat (oi_volume order) = traded_in ?n ts + unat m"
    using fill_conserves [OF fill] traded_in_taker [OF taker] by simp
  have "unat (po_remaining_volume (order_after ?n ts ?o)) = unat m"
    using order_after_remaining [of ?n ts ?o] conserved by (simp add: from_insertion_def)
  then show remaining: "po_remaining_volume (order_at (ex_session_orders ex') ?n) = m"
    by (simp add: after word_unat_eq_iff)
  show "po_status (order_at (ex_session_orders ex') ?n) = (if 0 < m then AwaitingFill else Filled)"
    if "oi_volume order \<noteq> 0"
  proof (cases "\<exists>t \<in> set ts. involves ?n t")
    case True
    then show ?thesis
      using remaining by (auto simp: after order_after_def Let_def from_insertion_def default_status_def word_gt_0)
  next
    case False
    then have "0 < m" using conserved that traded_in_none [of ts ?n] by (auto simp: word_gt_0 unat_eq_zero)
    with False show ?thesis by (simp add: after order_after_def from_insertion_def default_status_def)
  qed
qed

end
