(* ===== verification/Order_Changes.thy ===== *)
theory Order_Changes
  imports Exchange_Invariant
begin

text \<open>
  Cancelling and modifying an order at the exchange: each in its cases, with the state it leaves, and
  that both keep the exchange's invariant.
\<close>

section \<open>Looking up an order\<close>

lemma find_order_upt:
  "map fst orders = [k..<k + length orders] \<Longrightarrow>
   find_order oid k orders = (if k \<le> oid \<and> oid < k + length orders then Some oid else None)"
proof (induction orders arbitrary: k)
  case (Cons x orders)
  obtain i order where x: "x = (i, order)" by (cases x)
  have "[k..<k + length (x # orders)] = k # [Suc k..<Suc k + length orders]"
    by (simp add: upt_conv_Cons del: upt_Suc)
  then have "i = k" "map fst orders = [Suc k..<Suc k + length orders]"
    using Cons.prems x by simp_all
  with Cons.IH [of "Suc k"] x show ?case by auto
qed simp

lemma find_order_ok:
  "exchange_ok ex \<Longrightarrow> find_order oid 0 (ex_session_orders ex) =
     (if oid < length (ex_session_orders ex) then Some oid else None)"
  by (subst find_order_upt) (simp_all add: exchange_ok_def orders_ok_def)

section \<open>A side of a book that shrinks\<close>

text \<open>What a change of a session's order must leave alone for an entry that still offers it.\<close>

definition compatible :: "'p placed_order \<Rightarrow> 'p placed_order \<Rightarrow> bool" where
  "compatible order order' \<longleftrightarrow>
     po_account_id order' = po_account_id order \<and> po_pair order' = po_pair order \<and>
     po_side order' = po_side order \<and> po_price order' = po_price order \<and>
     po_remaining_volume order' = po_remaining_volume order \<and>
     (po_status order \<noteq> Cancelled \<longrightarrow> po_status order' \<noteq> Cancelled)"

lemma compatible_refl [simp]: "compatible order order"
  by (simp add: compatible_def)

text \<open>Entries that are old entries of the same order, with no more volume than before.\<close>

definition shrinks :: "('p \<times> orderbook_entry) list \<Rightarrow> ('p \<times> orderbook_entry) list \<Rightarrow> bool" where
  "shrinks q q' \<longleftrightarrow>
     (\<forall>(p, d) \<in> set q'. \<exists>e. (p, e) \<in> set q \<and> en_order_id d = en_order_id e \<and>
        en_account_id d = en_account_id e \<and> en_remaining_volume d \<le> en_remaining_volume e)"

lemma entry_conf_compatible:
  assumes "entry_conf orders pair s (p, e)" and "en_order_id d = en_order_id e"
    and "en_account_id d = en_account_id e" and "en_remaining_volume d \<le> en_remaining_volume e"
    and "length orders \<le> length orders'"
    and "compatible (order_at orders (en_order_id e)) (order_at orders' (en_order_id e))"
  shows "entry_conf orders' pair s (p, d)"
  using assms order_trans [OF assms(4)] by (auto simp: entry_conf_def compatible_def Let_def)

lemma shrunk_market_inv:
  assumes inv: "market_inv orders market" and len: "length orders \<le> length orders'"
    and ls: "sorted_keys ls" "keys ls \<subseteq> keys (book_side s (mk_orderbook market))"
      "clean (book_side s (mk_orderbook market)) \<Longrightarrow> clean ls"
    and shrinks: "shrinks (flat (book_side s (mk_orderbook market))) (flat ls)"
    and ids: "distinct (entry_ids (flat ls))"
    and keep: "\<And>i. i \<in> set (entry_ids (flat ls)) \<union>
        set (entry_ids (flat (book_side (opposite s) (mk_orderbook market)))) \<Longrightarrow>
      compatible (order_at orders i) (order_at orders' i)"
  shows "market_inv orders' (market\<lparr>mk_orderbook := set_book_side s ls (mk_orderbook market)\<rparr>)"
proof -
  let ?ob = "mk_orderbook market" and ?pair = "mk_asset_pair market"
  let ?ob' = "set_book_side s ls ?ob"
  have ob: "book_sorted ?ob" "book_uncrossed ?ob" "book_clean ?ob" "distinct (book_ids ?ob)"
    "book_conf orders ?pair ?ob"
    using inv by (simp_all add: market_inv_def Let_def)
  have conf: "entry_conf orders' ?pair t (p, d)" if mem: "(p, d) \<in> set (flat (book_side t ?ob'))" for t p d
  proof (cases "t = s")
    case True
    with mem shrinks obtain e where e: "(p, e) \<in> set (flat (book_side s ?ob))" "en_order_id d = en_order_id e"
      "en_account_id d = en_account_id e" "en_remaining_volume d \<le> en_remaining_volume e"
      by (fastforce simp: shrinks_def)
    have "en_order_id e \<in> set (entry_ids (flat ls))"
      using mem True e(2) by (force simp: set_entry_ids)
    with e ob(5) keep show ?thesis
      unfolding True by (intro entry_conf_compatible [OF _ e(2-4) len]) (auto simp: book_conf_side)
  next
    case False
    then have t: "t = opposite s" using side_cases by blast
    then have mem': "(p, d) \<in> set (flat (book_side (opposite s) ?ob))" using mem by simp
    then have "en_order_id d \<in> set (entry_ids (flat (book_side (opposite s) ?ob)))"
      by (force simp: set_entry_ids)
    with mem' ob(5) keep show ?thesis
      unfolding t by (intro entry_conf_compatible [OF _ refl refl order_refl len]) (auto simp: book_conf_side)
  qed
  have "set (entry_ids (flat ls)) \<subseteq> set (entry_ids (flat (book_side s ?ob)))"
    using shrinks by (force simp: shrinks_def set_entry_ids)
  then have "distinct (book_ids ?ob')"
    using ob(4) ids by (auto simp: distinct_book_ids [of _ s])
  moreover have "book_sorted ?ob'" "book_uncrossed ?ob'" "book_clean ?ob'"
    using ob ls by (simp_all add: book_sorted_set book_uncrossed_set_subset book_clean_set book_clean_side)
  ultimately show ?thesis
    using conf by (auto simp: market_inv_def Let_def book_conf_side)
qed

text \<open>A market and one of its orders change together.\<close>

lemma exchange_ok_change:
  assumes ok: "exchange_ok ex" and get: "markets_get (ex_markets ex) pair = Some market"
    and i: "i < length (ex_session_orders ex)" and order: "order = order_at (ex_session_orders ex) i"
    and pair: "po_pair order = pair" and account: "po_account_id order' = po_account_id order"
    and key: "mk_asset_pair market' = pair"
    and inv: "market_inv (write_order i order' (ex_session_orders ex)) market'"
  shows "exchange_ok (ex\<lparr>ex_markets := markets_store pair market' (ex_markets ex),
    ex_session_orders := write_order i order' (ex_session_orders ex)\<rparr>)"
proof -
  let ?orders = "ex_session_orders ex" and ?orders' = "write_order i order' (ex_session_orders ex)"
  let ?ex = "ex\<lparr>ex_markets := markets_store pair market' (ex_markets ex), ex_session_orders := ?orders'\<rparr>"
  note at = order_at_write [OF i, of order']
  have orders: "orders_ok ?ex"
  proof (rule orders_okI)
    fix j
    assume "j < length (ex_session_orders ?ex)"
    with orders_okD [of ex] ok i account order
    show "po_account_id (order_at (ex_session_orders ?ex) j) < bb_accounts (ex_balance_book ?ex)"
      by (simp add: exchange_ok_def at)
  qed (use ok in \<open>simp add: exchange_ok_def orders_ok_def\<close>)
  let ?P = "\<lambda>m. market_inv ?orders' m \<and> listed (ex_balance_book ex) (mk_asset_pair m)"
  have "?P m''" if "k \<noteq> pair" "markets_get (ex_markets ex) k = Some m''" for k m''
  proof
    note inv'' = exchange_ok_market [OF ok that(2)]
    show "market_inv ?orders' m''"
      by (rule market_inv_orders [OF inv''(1)]) (use that(1) inv''(3) pair order in \<open>auto simp: at\<close>)
    show "listed (ex_balance_book ex) (mk_asset_pair m'')" using inv'' by simp
  qed
  moreover have "?P market'" using inv key exchange_ok_market(2) [OF ok get] by simp
  moreover have "markets_ok (ex_markets ex)" using ok by (simp add: exchange_ok_def)
  ultimately have "markets_ok (markets_store pair market' (ex_markets ex)) \<and>
      (\<forall>m'' \<in> set (ms_inner (markets_store pair market' (ex_markets ex))). ?P m'')"
    by (intro markets_after_store [OF _ get key])
  with orders ok show ?thesis by (simp add: exchange_ok_def roster_ok_def Let_def)
qed

section \<open>Cancelling\<close>

text \<open>The verdict on a cancellation, as the code's checks have it in their order.\<close>

definition cancel_verdict ::
    "order_cancellation_request \<Rightarrow> 'p exchange \<Rightarrow> order_cancellation_error + unit" where
  "cancel_verdict req ex =
     (let i = cr_order_id req; order = order_at (ex_session_orders ex) i in
      if length (ex_session_orders ex) \<le> i then Inl order_cancellation_error.OrderDoesNotExist
      else if po_account_id order \<noteq> cr_account_id req then Inl order_cancellation_error.Unauthorized
      else if po_status order = Cancelled then Inl AlreadyCancelled
      else if po_status order = Filled then Inl order_cancellation_error.AlreadyFilled
      else case markets_get (ex_markets ex) (po_pair order) of
             None \<Rightarrow> Inl order_cancellation_error.MarketDoesNotExist
           | Some market \<Rightarrow>
               if resting (po_side order) (po_price order) i (mk_orderbook market) then Inr ()
               else Inl order_cancellation_error.AlreadyFilled)"

lemma shrinks_filter: "shrinks q (filter P q)"
  by (auto simp: shrinks_def)

lemma distinct_ids_filter: "distinct (entry_ids q) \<Longrightarrow> distinct (entry_ids (filter P q))"
  by (simp add: entry_ids_def distinct_map_filter)

text \<open>A cancellation or a modification at the market of a consistent exchange.\<close>

lemma market_cancel_result:
  assumes ok: "exchange_ok ex" and get: "markets_get (ex_markets ex) pair = Some market"
  obtains (gone) "\<not> resting (oc_side c) (oc_price c) (oc_order_id c) (mk_orderbook market)"
      "market_cancel_order c market = (Inl order_cancellation_error.AlreadyFilled, market)"
  | (taken) ls where "resting (oc_side c) (oc_price c) (oc_order_id c) (mk_orderbook market)"
      "market_cancel_order c market =
        (Inr (), market\<lparr>mk_orderbook := set_book_side (oc_side c) ls (mk_orderbook market)\<rparr>)"
      "flat ls = filter (\<lambda>x. en_order_id (snd x) \<noteq> oc_order_id c) (flat (book_side (oc_side c) (mk_orderbook market)))"
      "sorted_keys ls" "keys ls \<subseteq> keys (book_side (oc_side c) (mk_orderbook market))"
      "clean (book_side (oc_side c) (mk_orderbook market)) \<Longrightarrow> clean ls"
proof -
  let ?ob = "mk_orderbook market"
  have ob: "book_sorted ?ob" "distinct (entry_ids (flat (book_side (oc_side c) ?ob)))"
    using exchange_ok_market [OF ok get] distinct_book_ids [of ?ob "oc_side c"]
    by (simp_all add: market_inv_def Let_def)
  show thesis
  proof (cases "resting (oc_side c) (oc_price c) (oc_order_id c) ?ob")
    case False
    with cancel_not_resting [OF ob(1) False] gone show thesis by (simp add: market_cancel_order_def)
  next
    case True
    show thesis
      by (rule cancel_resting [OF ob True], rule taken [OF True]) (simp_all add: market_cancel_order_def)
  qed
qed

lemma market_modify_result:
  assumes ok: "exchange_ok ex" and get: "markets_get (ex_markets ex) pair = Some market"
  obtains (gone) "\<not> resting (om_side m) (om_price m) (om_order_id m) (mk_orderbook market)"
      "market_modify_order m market = (Inl OrderNotFound, market)"
  | (changed) ls where "resting (om_side m) (om_price m) (om_order_id m) (mk_orderbook market)"
      "market_modify_order m market =
        (Inr (), market\<lparr>mk_orderbook := set_book_side (om_side m) ls (mk_orderbook market)\<rparr>)"
      "flat ls = map (\<lambda>x. (fst x, reduce_entry m (snd x)))
        (filter (\<lambda>x. survives m (snd x)) (flat (book_side (om_side m) (mk_orderbook market))))"
      "sorted_keys ls" "keys ls \<subseteq> keys (book_side (om_side m) (mk_orderbook market))"
      "clean (book_side (om_side m) (mk_orderbook market)) \<Longrightarrow> clean ls"
proof -
  let ?ob = "mk_orderbook market"
  have ob: "book_sorted ?ob" "distinct (entry_ids (flat (book_side (om_side m) ?ob)))"
    using exchange_ok_market [OF ok get] distinct_book_ids [of ?ob "om_side m"]
    by (simp_all add: market_inv_def Let_def)
  show thesis
  proof (cases "resting (om_side m) (om_price m) (om_order_id m) ?ob")
    case False
    with modify_not_resting [OF ob(1) False] gone show thesis by (simp add: market_modify_order_def)
  next
    case True
    show thesis
      by (rule modify_resting [OF ob True], rule changed [OF True]) (simp_all add: market_modify_order_def)
  qed
qed

lemma exchange_cancel_cases:
  assumes ok: "exchange_ok ex"
  obtains (rejected) err where "cancel_verdict req ex = Inl err"
      "exchange_cancel_order req ex = (Inl err, ex)"
  | (cancelled) order market ls where
      "cr_order_id req < length (ex_session_orders ex)"
      "order = order_at (ex_session_orders ex) (cr_order_id req)"
      "cancel_verdict req ex = Inr ()"
      "markets_get (ex_markets ex) (po_pair order) = Some market"
      "flat ls = filter (\<lambda>x. en_order_id (snd x) \<noteq> cr_order_id req)
         (flat (book_side (po_side order) (mk_orderbook market)))"
      "sorted_keys ls" "keys ls \<subseteq> keys (book_side (po_side order) (mk_orderbook market))"
      "clean (book_side (po_side order) (mk_orderbook market)) \<Longrightarrow> clean ls"
      "exchange_cancel_order req ex =
         (Inr (), ex\<lparr>ex_markets := markets_store (po_pair order)
             (market\<lparr>mk_orderbook := set_book_side (po_side order) ls (mk_orderbook market)\<rparr>) (ex_markets ex),
           ex_session_orders := write_order (cr_order_id req) (order\<lparr>po_status := Cancelled\<rparr>)
             (ex_session_orders ex)\<rparr>)"
proof (cases "cr_order_id req < length (ex_session_orders ex)")
  case False
  then show thesis
    by (intro rejected [of order_cancellation_error.OrderDoesNotExist])
      (simp_all add: cancel_verdict_def exchange_cancel_order_def find_order_ok [OF ok])
next
  case i: True
  let ?order = "order_at (ex_session_orders ex) (cr_order_id req)"
  let ?c = "into_cancellation req (po_pair ?order) (po_side ?order) (po_price ?order)"
  have "\<not> length (ex_session_orders ex) \<le> cr_order_id req" using i by simp
  note unfold = cancel_verdict_def exchange_cancel_order_def find_order_ok [OF ok] i this Let_def
    order_at_def [symmetric]
  show thesis
  proof (cases "po_account_id ?order = cr_account_id req \<and> po_status ?order \<noteq> Cancelled \<and>
      po_status ?order \<noteq> Filled \<and> markets_get (ex_markets ex) (po_pair ?order) \<noteq> None")
    case False
    then have "\<exists>err. cancel_verdict req ex = Inl err \<and> exchange_cancel_order req ex = (Inl err, ex)"
      by (auto simp: unfold)
    with rejected show thesis by blast
  next
    case True
    then obtain market where get: "markets_get (ex_markets ex) (po_pair ?order) = Some market" by blast
    have c: "oc_side ?c = po_side ?order" "oc_price ?c = po_price ?order" "oc_order_id ?c = cr_order_id req"
      by (simp_all add: into_cancellation_def)
    show thesis
    proof (cases rule: market_cancel_result [OF ok get, of ?c, unfolded c, case_names gone taken])
      case gone
      with True get show thesis
        by (intro rejected [of order_cancellation_error.AlreadyFilled])
          (auto simp: unfold markets_store_same)
    next
      case (taken ls)
      with True get show thesis
        by (intro cancelled [OF i refl _ get taken(3-6)]) (simp_all add: unfold)
    qed
  qed
qed

lemma exchange_cancel_ok:
  assumes ok: "exchange_ok ex"
  shows "exchange_ok (snd (exchange_cancel_order req ex))"
proof (cases rule: exchange_cancel_cases [OF ok, of req, case_names rejected cancelled])
  case (rejected err)
  then show ?thesis using ok by simp
next
  case (cancelled order market ls)
  let ?i = "cr_order_id req" and ?ob = "mk_orderbook market" and ?s = "po_side order"
  let ?orders' = "write_order ?i (order\<lparr>po_status := Cancelled\<rparr>) (ex_session_orders ex)"
  note inv = exchange_ok_market [OF ok cancelled(4)]
  have ids: "distinct (entry_ids (flat (book_side ?s ?ob)))" "distinct (book_ids ?ob)"
    using inv(1) distinct_book_ids [of ?ob ?s] by (simp_all add: market_inv_def Let_def)
  have rest: "resting ?s (po_price order) ?i ?ob"
    using cancelled(1-4) by (auto simp: cancel_verdict_def Let_def split: if_splits)
  then have "?i \<in> set (entry_ids (flat (book_side ?s ?ob)))" by (force simp: resting_def set_entry_ids)
  then have "?i \<notin> set (entry_ids (flat (book_side (opposite ?s) ?ob)))"
    using ids(2) distinct_book_ids [of ?ob ?s] by blast
  moreover have "?i \<notin> set (entry_ids (flat ls))" unfolding cancelled(5) by (auto simp: set_entry_ids)
  ultimately have keep: "compatible (order_at (ex_session_orders ex) j) (order_at ?orders' j)"
    if "j \<in> set (entry_ids (flat ls)) \<union> set (entry_ids (flat (book_side (opposite ?s) ?ob)))" for j
    using that by (auto simp: order_at_write [OF cancelled(1)])
  have "market_inv ?orders' (market\<lparr>mk_orderbook := set_book_side ?s ls ?ob\<rparr>)"
    by (rule shrunk_market_inv [OF inv(1) _ cancelled(6-8) _ _ keep])
      (use ids(1) in \<open>simp_all add: cancelled(5) shrinks_filter distinct_ids_filter\<close>)
  then show ?thesis
    unfolding cancelled(9) snd_conv
    by (intro exchange_ok_change [OF ok cancelled(4,1,2) refl]) (simp_all add: inv(3))
qed

section \<open>Modifying\<close>

definition modify_verdict ::
    "order_modification_request \<Rightarrow> 'p exchange \<Rightarrow> order_modification_error + unit" where
  "modify_verdict req ex =
     (let i = mr_order_id req; order = order_at (ex_session_orders ex) i in
      if length (ex_session_orders ex) \<le> i then Inl order_modification_error.OrderDoesNotExist
      else if po_account_id order \<noteq> mr_account_id req then Inl order_modification_error.Unauthorized
      else if po_status order = Filled then Inl order_modification_error.AlreadyFilled
      else if po_volume order < mr_new_volume req then Inl VolumeNotLower
      else case markets_get (ex_markets ex) (po_pair order) of
             None \<Rightarrow> Inl order_modification_error.MarketDoesNotExist
           | Some market \<Rightarrow>
               if resting (po_side order) (po_price order) i (mk_orderbook market) then Inr ()
               else Inl OrderNotFound)"

definition reduction :: "order_modification_request \<Rightarrow> 'p placed_order \<Rightarrow> 'p order_modification" where
  "reduction req order =
     \<lparr>om_pair = po_pair order, om_order_id = mr_order_id req,
      om_volume_reduction = po_volume order - mr_new_volume req, om_side = po_side order,
      om_price = po_price order\<rparr>"

lemma exchange_modify_cases:
  assumes ok: "exchange_ok ex"
  obtains (rejected) err where "modify_verdict req ex = Inl err"
      "exchange_modify_order b req ex = Some (Inl err, ex)"
  | (modified) order market ls where
      "mr_order_id req < length (ex_session_orders ex)"
      "order = order_at (ex_session_orders ex) (mr_order_id req)"
      "modify_verdict req ex = Inr ()"
      "markets_get (ex_markets ex) (po_pair order) = Some market"
      "flat ls = map (\<lambda>x. (fst x, reduce_entry (reduction req order) (snd x)))
         (filter (\<lambda>x. survives (reduction req order) (snd x))
           (flat (book_side (po_side order) (mk_orderbook market))))"
      "sorted_keys ls" "keys ls \<subseteq> keys (book_side (po_side order) (mk_orderbook market))"
      "clean (book_side (po_side order) (mk_orderbook market)) \<Longrightarrow> clean ls"
      "exchange_modify_order b req ex =
         map_option (\<lambda>order'. (Inr (), ex\<lparr>ex_markets := markets_store (po_pair order)
             (market\<lparr>mk_orderbook := set_book_side (po_side order) ls (mk_orderbook market)\<rparr>) (ex_markets ex),
           ex_session_orders := write_order (mr_order_id req) order' (ex_session_orders ex)\<rparr>))
           (modified_order b (mr_new_volume req) order)"
proof (cases "mr_order_id req < length (ex_session_orders ex)")
  case False
  then show thesis
    by (intro rejected [of order_modification_error.OrderDoesNotExist])
      (simp_all add: modify_verdict_def exchange_modify_order_def find_order_ok [OF ok])
next
  case i: True
  let ?order = "order_at (ex_session_orders ex) (mr_order_id req)"
  let ?m = "reduction req ?order"
  have "\<not> length (ex_session_orders ex) \<le> mr_order_id req" using i by simp
  note unfold = modify_verdict_def exchange_modify_order_def find_order_ok [OF ok] i this Let_def
    order_at_def [symmetric]
  show thesis
  proof (cases "po_account_id ?order = mr_account_id req \<and> po_status ?order \<noteq> Filled \<and>
      mr_new_volume req \<le> po_volume ?order \<and> markets_get (ex_markets ex) (po_pair ?order) \<noteq> None")
    case False
    then have "\<exists>err. modify_verdict req ex = Inl err \<and> exchange_modify_order b req ex = Some (Inl err, ex)"
      by (auto simp: unfold not_le)
    with rejected show thesis by blast
  next
    case True
    then obtain market where get: "markets_get (ex_markets ex) (po_pair ?order) = Some market" by blast
    have m: "om_side ?m = po_side ?order" "om_price ?m = po_price ?order" "om_order_id ?m = mr_order_id req"
      by (simp_all add: reduction_def)
    have into: "into_order_modification b req (po_pair ?order) (po_side ?order) (po_price ?order)
        (po_volume ?order) = Some ?m"
      using True by (simp add: into_order_modification_le reduction_def)
    show thesis
    proof (cases rule: market_modify_result [OF ok get, of ?m, unfolded m, case_names gone changed])
      case gone
      with True get into show thesis
        by (intro rejected [of OrderNotFound]) (auto simp: unfold not_less markets_store_same)
    next
      case (changed ls)
      with True get into show thesis
        by (intro modified [OF i refl _ get changed(3-6)])
          (simp_all add: unfold not_less split: option.split)
    qed
  qed
qed

lemma shrinks_reduced:
  "shrinks q (map (\<lambda>x. (fst x, reduce_entry m (snd x))) (filter (\<lambda>x. survives m (snd x)) q))"
proof -
  have "en_remaining_volume (reduce_entry m e) \<le> en_remaining_volume e" if "survives m e" for e
    using that by (auto simp: reduce_entry_def survives_def word_le_nat_alt word_less_nat_alt unat_sub_exact)
  then show ?thesis by (fastforce simp: shrinks_def reduce_entry_def)
qed

lemma reduced_ids: "en_order_id (reduce_entry m e) = en_order_id e"
  by (simp add: reduce_entry_def)

lemma entry_ids_reduced:
  "entry_ids (map (\<lambda>x. (fst x, reduce_entry m (snd x))) q) = entry_ids q"
  by (simp add: entry_ids_def comp_def reduced_ids)

lemma modified_order_compatible:
  "modified_order b v order = Some order' \<Longrightarrow> compatible order order'"
  by (auto simp: modified_order_def compatible_def split: option.splits if_splits)

lemma exchange_modify_ok:
  assumes ok: "exchange_ok ex"
  shows "\<exists>res ex'. exchange_modify_order Release req ex = Some (res, ex') \<and> exchange_ok ex'"
proof (cases rule: exchange_modify_cases [OF ok, of req Release, case_names rejected modified])
  case (rejected err)
  then show ?thesis using ok by simp
next
  case (modified order market ls)
  let ?i = "mr_order_id req" and ?ob = "mk_orderbook market" and ?s = "po_side order"
  obtain order' where order': "modified_order Release (mr_new_volume req) order = Some order'"
    by (auto simp: modified_order_def)
  note same = modified_order_compatible [OF order']
  let ?orders' = "write_order ?i order' (ex_session_orders ex)"
  note inv = exchange_ok_market [OF ok modified(4)]
  have ids: "distinct (entry_ids (flat (book_side ?s ?ob)))"
    using inv(1) distinct_book_ids [of ?ob ?s] by (simp add: market_inv_def Let_def)
  have keep: "compatible (order_at (ex_session_orders ex) j) (order_at ?orders' j)" for j
    using same modified(2) by (simp add: order_at_write [OF modified(1)])
  have "market_inv ?orders' (market\<lparr>mk_orderbook := set_book_side ?s ls ?ob\<rparr>)"
    by (rule shrunk_market_inv [OF inv(1) _ modified(6-8) _ _ keep])
      (use ids in \<open>simp_all add: modified(5) shrinks_reduced entry_ids_reduced distinct_ids_filter\<close>)
  then have "exchange_ok (ex\<lparr>ex_markets := markets_store (po_pair order)
      (market\<lparr>mk_orderbook := set_book_side ?s ls ?ob\<rparr>) (ex_markets ex), ex_session_orders := ?orders'\<rparr>)"
    using same by (intro exchange_ok_change [OF ok modified(4,1,2) refl]) (simp_all add: inv(3) compatible_def)
  with modified(9) order' show ?thesis by simp
qed

end
