(* ===== verification/Command_Loop.thy ===== *)
theory Command_Loop
  imports Order_Changes
begin

text \<open>
  Commands, their results and the exchange's thread (\<open>src/exchange.rs\<close>): \<open>handle_command\<close>
  dispatches a command, \<open>run_inner\<close> receives buffers of commands in chunks and answers each buffer
  with the buffer of its results.

  The states an exchange can be in are given by a step relation: administration, and commands that
  are proper, which excludes what the exchange is known not to survive (a market of an asset with
  itself) and stops at the first self-trade. The invariant holds in all of them.
\<close>

section \<open>Commands\<close>

datatype 'p command =
  OrderInsert "'p order_insertion_request"
| OrderCancel order_cancellation_request
| OrderModify order_modification_request
| AddMarket asset_id_pair
| GetBalance account_id asset_id
| GetOrderbookL1 asset_id_pair
| GetOrderbookL2 asset_id_pair
| GetAssets
| GetAllOrderbookL1
| GetLast100Transactions

datatype 'p command_result =
  OrderInsert order_insertion_result
| OrderCancel order_cancellation_result
| OrderModify order_modification_result
| AddMarket "market_creation_error + unit"
| GetBalance "'p option"
| GetOrderbookL1 "get_orderbook_error + 'p orderbook_l1"
| GetOrderbookL2 "get_orderbook_error + 'p orderbook_l2"
| GetAssets "asset list"
| GetAllOrderbookL1 "(asset_id_pair \<times> 'p orderbook_l1) list"
| GetLast100Transactions "'p transaction list"

type_synonym 'p command_buffer = "'p command list"
type_synonym 'p command_result_buffer = "'p command_result list"

text \<open>A query's result with the state it leaves alone.\<close>

definition query :: "('a \<Rightarrow> 'p command_result) \<Rightarrow> 'a option \<Rightarrow> 'p exchange \<Rightarrow> ('p command_result \<times> 'p exchange) option" where
  "query wrap answer ex = map_option (\<lambda>a. (wrap a, ex)) answer"

fun handle_command ::
    "build \<Rightarrow> 'p::linorder fixed_ops \<Rightarrow> clock \<Rightarrow> 'p command \<Rightarrow> 'p exchange
     \<Rightarrow> ('p command_result \<times> 'p exchange) option" where
  "handle_command b fx clock (command.OrderInsert insertion_req) ex =
     map_option (\<lambda>(r, ex'). (OrderInsert r, ex')) (exchange_insert_order b fx clock insertion_req ex)"
| "handle_command b fx clock (command.OrderCancel cancellation) ex =
     (case exchange_cancel_order cancellation ex of (r, ex') \<Rightarrow> Some (OrderCancel r, ex'))"
| "handle_command b fx clock (command.OrderModify modification) ex =
     map_option (\<lambda>(r, ex'). (OrderModify r, ex')) (exchange_modify_order b modification ex)"
| "handle_command b fx clock (command.AddMarket pair) ex =
     (case exchange_add_market fx pair ex of (r, ex') \<Rightarrow> Some (AddMarket r, ex'))"
| "handle_command b fx clock (command.GetBalance account_id asset_id) ex =
     Some (GetBalance (bb_get account_id asset_id (ex_balance_book ex)), ex)"
| "handle_command b fx clock (command.GetOrderbookL1 pair) ex =
     query GetOrderbookL1 (get_orderbook_l1 b pair ex) ex"
| "handle_command b fx clock (command.GetOrderbookL2 pair) ex =
     query GetOrderbookL2 (get_orderbook_l2 b pair ex) ex"
| "handle_command b fx clock command.GetAssets ex = Some (GetAssets (ex_traded_assets ex), ex)"
| "handle_command b fx clock command.GetAllOrderbookL1 ex =
     query GetAllOrderbookL1 (get_all_orderbook_l1 b ex) ex"
| "handle_command b fx clock command.GetLast100Transactions ex =
     query GetLast100Transactions (get_last_100_transactions ex) ex"

section \<open>The loop\<close>

text \<open>The commands of one buffer; their results go to the response buffer in order.\<close>

fun handle_buffer ::
    "build \<Rightarrow> 'p::linorder fixed_ops \<Rightarrow> clock \<Rightarrow> 'p command_buffer \<Rightarrow> 'p exchange
     \<Rightarrow> ('p command_result_buffer \<times> 'p exchange) option" where
  "handle_buffer b fx clock [] ex = Some ([], ex)"
| "handle_buffer b fx clock (command # command_buf) ex =
     (case handle_command b fx clock command ex of
        None \<Rightarrow> None
      | Some (result, ex') \<Rightarrow>
          map_option (\<lambda>(results, ex''). (result # results, ex''))
            (handle_buffer b fx clock command_buf ex'))"

text \<open>
  The buffers of one chunk: the replies sent, and the state unless a command panicked. Replies sent
  before a panic stay sent.
\<close>

fun serve_chunk ::
    "build \<Rightarrow> 'p::linorder fixed_ops \<Rightarrow> clock \<Rightarrow> 'p command_buffer list \<Rightarrow> 'p exchange
     \<Rightarrow> 'p command_result_buffer list \<times> 'p exchange option" where
  "serve_chunk b fx clock [] ex = ([], Some ex)"
| "serve_chunk b fx clock (command_buf # channel_buf) ex =
     (case handle_buffer b fx clock command_buf ex of
        None \<Rightarrow> ([], None)
      | Some (response_buf, ex') \<Rightarrow>
          (case serve_chunk b fx clock channel_buf ex' of
             (replies, end) \<Rightarrow> (response_buf # replies, end)))"

text \<open>
  The loop over what \<open>blocking_recv_many\<close> returns, chunk by chunk. An empty chunk means that the
  channel is closed and ends the loop, and so does the end of the list: nothing more is received.
\<close>

fun run_inner ::
    "build \<Rightarrow> 'p::linorder fixed_ops \<Rightarrow> clock \<Rightarrow> 'p command_buffer list list \<Rightarrow> 'p exchange
     \<Rightarrow> 'p command_result_buffer list \<times> 'p exchange option" where
  "run_inner b fx clock [] ex = ([], Some ex)"
| "run_inner b fx clock (channel_buf # chunks) ex =
     (if length channel_buf = 0 then ([], Some ex)
      else case serve_chunk b fx clock channel_buf ex of
             (replies, None) \<Rightarrow> (replies, None)
           | (replies, Some ex') \<Rightarrow>
               (case run_inner b fx clock chunks ex' of (replies', end) \<Rightarrow> (replies @ replies', end)))"

section \<open>Results and batches\<close>

text \<open>The result of a command is the variant of its name.\<close>

fun command_name :: "'p command \<Rightarrow> string" where
  "command_name (command.OrderInsert _) = ''OrderInsert''"
| "command_name (command.OrderCancel _) = ''OrderCancel''"
| "command_name (command.OrderModify _) = ''OrderModify''"
| "command_name (command.AddMarket _) = ''AddMarket''"
| "command_name (command.GetBalance _ _) = ''GetBalance''"
| "command_name (command.GetOrderbookL1 _) = ''GetOrderbookL1''"
| "command_name (command.GetOrderbookL2 _) = ''GetOrderbookL2''"
| "command_name command.GetAssets = ''GetAssets''"
| "command_name command.GetAllOrderbookL1 = ''GetAllOrderbookL1''"
| "command_name command.GetLast100Transactions = ''GetLast100Transactions''"

fun result_name :: "'p command_result \<Rightarrow> string" where
  "result_name (OrderInsert _) = ''OrderInsert''"
| "result_name (OrderCancel _) = ''OrderCancel''"
| "result_name (OrderModify _) = ''OrderModify''"
| "result_name (AddMarket _) = ''AddMarket''"
| "result_name (GetBalance _) = ''GetBalance''"
| "result_name (GetOrderbookL1 _) = ''GetOrderbookL1''"
| "result_name (GetOrderbookL2 _) = ''GetOrderbookL2''"
| "result_name (GetAssets _) = ''GetAssets''"
| "result_name (GetAllOrderbookL1 _) = ''GetAllOrderbookL1''"
| "result_name (GetLast100Transactions _) = ''GetLast100Transactions''"

definition answers :: "'p command \<Rightarrow> 'p command_result \<Rightarrow> bool" where
  "answers cmd res \<longleftrightarrow> result_name res = command_name cmd"

fun is_query :: "'p command \<Rightarrow> bool" where
  "is_query (command.OrderInsert _) = False"
| "is_query (command.OrderCancel _) = False"
| "is_query (command.OrderModify _) = False"
| "is_query (command.AddMarket _) = False"
| "is_query _ = True"

lemma handle_command_answers:
  "handle_command b fx clock cmd ex = Some (res, ex') \<Longrightarrow> answers cmd res"
  by (cases cmd) (auto simp: query_def answers_def split: prod.splits)

lemma query_keeps_state:
  "is_query cmd \<Longrightarrow> handle_command b fx clock cmd ex = Some (res, ex') \<Longrightarrow> ex' = ex"
  by (cases cmd) (auto simp: query_def)

lemma handle_buffer_answers:
  "handle_buffer b fx clock cmds ex = Some (results, ex') \<Longrightarrow> list_all2 answers cmds results"
  by (induction cmds arbitrary: ex results)
    (auto split: option.splits intro: handle_command_answers)

lemma handle_buffer_append:
  "handle_buffer b fx clock (cmds @ cmds') ex =
     (case handle_buffer b fx clock cmds ex of
        None \<Rightarrow> None
      | Some (results, ex') \<Rightarrow>
          map_option (\<lambda>(results', ex''). (results @ results', ex''))
            (handle_buffer b fx clock cmds' ex'))"
  by (induction cmds arbitrary: ex)
    (auto simp: map_option_case split: option.split)

text \<open>
  What serving a sequence of messages one by one guarantees, whatever the handler: a part of the sequence
  has been answered when the handler panics, and the answers are the handler's on the state that the
  messages before have led to. The thread relies on it for its buffers.
\<close>

locale responder =
  fixes handle :: "'q \<Rightarrow> 's \<Rightarrow> ('r \<times> 's) option"
    and serve :: "'q list \<Rightarrow> 's \<Rightarrow> 'r list \<times> 's option"
  assumes serve_Nil: "serve [] s = ([], Some s)"
    and serve_Cons: "serve (q # qs) s =
      (case handle q s of
         None \<Rightarrow> ([], None)
       | Some (r, s') \<Rightarrow> (case serve qs s' of (rs, end) \<Rightarrow> (r # rs, end)))"
begin

lemmas serve_simps = serve_Nil serve_Cons

lemma serve_append:
  "serve (qs @ qs') s =
     (case serve qs s of
        (rs, None) \<Rightarrow> (rs, None)
      | (rs, Some s') \<Rightarrow> (case serve qs' s' of (rs', end) \<Rightarrow> (rs @ rs', end)))"
  by (induction qs arbitrary: s) (auto simp: serve_simps split: option.split prod.split)

lemma serve_then:
  "serve qs s0 = (rs, Some s) \<Longrightarrow>
   serve (qs @ q # qs') s0 =
     (case handle q s of
        None \<Rightarrow> (rs, None)
      | Some (r, s') \<Rightarrow> (case serve qs' s' of (rs', end) \<Rightarrow> (rs @ r # rs', end)))"
  by (simp add: serve_append serve_Cons split: option.split prod.split)

lemma answered_length:
  "serve qs s = (rs, end_state) \<Longrightarrow>
   (case end_state of None \<Rightarrow> length rs < length qs | Some s' \<Rightarrow> length rs = length qs)"
  by (induction qs arbitrary: s rs)
    (auto simp: serve_simps split: option.splits prod.splits)

lemma answered_nth:
  "serve qs s = (rs, end_state) \<Longrightarrow> i < length rs \<Longrightarrow>
   \<exists>s1 s2. serve (take i qs) s = (take i rs, Some s1) \<and> handle (qs ! i) s1 = Some (rs ! i, s2)"
proof (induction qs arbitrary: s rs i)
  case (Cons q qs)
  then obtain r s1 rs1 where one: "handle q s = Some (r, s1)"
    and rest: "serve qs s1 = (rs1, end_state)" and rs: "rs = r # rs1"
    by (auto simp: serve_Cons split: option.splits prod.splits)
  show ?case
  proof (cases i)
    case 0
    with one rs show ?thesis by (simp add: serve_Nil)
  next
    case (Suc j)
    with Cons.IH [OF rest, of j] Cons.prems(2) rs obtain s2 s3 where
      "serve (take j qs) s1 = (take j rs1, Some s2)" "handle (qs ! j) s2 = Some (rs1 ! j, s3)" by auto
    with one Suc rs show ?thesis by (intro exI [of _ s2] exI [of _ s3]) (simp add: serve_Cons)
  qed
qed (simp add: serve_Nil)

end

interpretation thread: responder "handle_buffer b fx clock" "serve_chunk b fx clock"
  for b and fx :: "'p::linorder fixed_ops" and clock
  by unfold_locales simp_all

text \<open>Chunks make no difference: the loop serves the buffers one after the other.\<close>

lemma run_inner_serves:
  "[] \<notin> set chunks \<Longrightarrow> run_inner b fx clock chunks ex = serve_chunk b fx clock (concat chunks) ex"
  by (induction chunks arbitrary: ex)
    (auto simp: thread.serve_append split: option.split prod.split)

text \<open>Without a panic the replies are the results of all commands in order, cut as the buffers were.\<close>

lemma serve_chunk_all:
  "serve_chunk b fx clock bufs ex = (replies, Some ex') \<Longrightarrow>
   handle_buffer b fx clock (concat bufs) ex = Some (concat replies, ex') \<and>
   list_all2 (list_all2 answers) bufs replies"
proof (induction bufs arbitrary: ex replies)
  case (Cons buf bufs)
  then show ?case
    by (auto simp: handle_buffer_append dest!: handle_buffer_answers split: option.splits prod.splits) 
qed simp

text \<open>Cutting commands into buffers changes neither the final state nor whether there is one.\<close>

lemma serve_chunk_handles:
  "snd (serve_chunk b fx clock bufs ex) = map_option snd (handle_buffer b fx clock (concat bufs) ex)"
  by (induction bufs arbitrary: ex)
    (simp_all add: handle_buffer_append case_prod_beta option.map_comp o_def split: option.split)

section \<open>Reachable states\<close>

lemma exchange_add_market_ok:
  assumes ok: "exchange_ok ex" and "primary pair \<noteq> secondary pair"
  shows "exchange_ok (snd (exchange_add_market fx pair ex))"
proof (cases "is_traded_asset (primary pair) ex \<and> is_traded_asset (secondary pair) ex \<and>
    markets_get (ex_markets ex) pair = None")
  case False
  have ms: "markets_ok (ex_markets ex)" using ok by (simp add: exchange_ok_def)
  from False add_market_spec [OF ms, of pair "fx_zero fx"] ok show ?thesis
    by (auto simp: exchange_add_market_def)
next
  case True
  let ?ms = "snd (markets_add_market (fx_zero fx) pair (ex_markets ex))"
  have ms: "markets_ok (ex_markets ex)" using ok by (simp add: exchange_ok_def)
  have get: "markets_get ?ms = (markets_get (ex_markets ex))(pair \<mapsto> market_new (fx_zero fx) pair)"
    using add_market_spec [OF ms, of pair "fx_zero fx"] True by simp
  have ms': "markets_ok ?ms" by (rule add_market_ok [OF ms])
  have traded: "a < bb_assets (ex_balance_book ex)" if "is_traded_asset a ex" for a
  proof -
    have "map as_id (ex_traded_assets ex) = map of_nat [0..<unat (bb_assets (ex_balance_book ex))]"
      using ok by (simp add: exchange_ok_def roster_ok_def Let_def)
    moreover from that have "a \<in> set (map as_id (ex_traded_assets ex))"
      by (auto simp: is_traded_asset_def list_ex_iff)
    ultimately have "a \<in> set (map of_nat [0..<unat (bb_assets (ex_balance_book ex))])" by (simp only:)
    then obtain i where "a = of_nat i" "i < unat (bb_assets (ex_balance_book ex))" by auto
    then show ?thesis
      using unat_u32_lt [of "bb_assets (ex_balance_book ex)"]
      by (simp add: word_less_nat_alt unat_of_nat take_bit_nat_eq_self)
  qed
  have new: "market_inv (ex_session_orders ex) (market_new (fx_zero fx) pair)"
    by (simp add: market_inv_def market_new_def new_orderbook_def book_sorted_def book_uncrossed_def
        book_clean_def book_ids_def book_conf_def)
  let ?P = "\<lambda>m. market_inv (ex_session_orders ex) m \<and> listed (ex_balance_book ex) (mk_asset_pair m)"
  have "?P m" if "markets_get ?ms k = Some m" for k m
    using that new traded True assms(2) exchange_ok_market [OF ok, of k m]
    by (auto simp: get listed_def market_new_def split: if_splits)
  then have all: "\<forall>m \<in> set (ms_inner ?ms). ?P m"
    by (intro all_markets [OF ms', THEN iffD2] allI impI)
  have "snd (exchange_add_market fx pair ex) = ex\<lparr>ex_markets := ?ms\<rparr>"
    using True by (simp add: exchange_add_market_def split: prod.split)
  then show ?thesis
    using ms' all ok by (simp add: exchange_ok_def roster_ok_def orders_ok_def)
qed

lemma exchange_new_ok: "0 < alloc 100 \<Longrightarrow> exchange_ok (exchange_new alloc)"
  by (simp add: rt_with_capacity_ok exchange_ok_def exchange_new_def roster_ok_def orders_ok_def bb_new_def bb_ok_def
      markets_new_def markets_ok_def)

lemma of_nat_length_ids:
  "map f xs = map of_nat [0..<unat (n :: u32)] \<Longrightarrow> of_nat (length xs) = n"
  by (drule arg_cong [where f = length]) simp

lemma update_fresh: "k \<notin> set (map fst al) \<Longrightarrow> AList.update k v al = al @ [(k, v)]"
  by (induction al) auto

lemma listed_mono: "listed bk pair \<Longrightarrow> bb_assets bk \<le> bb_assets bk' \<Longrightarrow> listed bk' pair"
  by (auto simp: listed_def)

lemma exchange_add_asset_ok:
  assumes ok: "exchange_ok ex" and room: "unat (bb_assets (ex_balance_book ex)) + 1 < 2 ^ 32"
  obtains ex' where "exchange_add_asset b fx name symbol ex = Some (bb_assets (ex_balance_book ex), ex')"
    and "exchange_ok ex'"
    and "bb_add_asset b (fx_zero fx) (ex_balance_book ex) = Some (ex_balance_book ex')"
proof -
  let ?bk = "ex_balance_book ex"
  have roster: "bb_ok ?bk" "map fst (ex_accounts ex) = map of_nat [0..<unat (bb_accounts ?bk)]"
    "map as_id (ex_traded_assets ex) = map of_nat [0..<unat (bb_assets ?bk)]"
    using ok by (simp_all add: exchange_ok_def roster_ok_def Let_def)
  from add_asset_spec [OF roster(1) room] obtain bk' where bk':
    "bb_add_asset b (fx_zero fx) ?bk = Some bk'" "bb_ok bk'" "bb_accounts bk' = bb_accounts ?bk"
    "unat (bb_assets bk') = unat (bb_assets ?bk) + 1" by metis
  let ?a = "\<lparr>as_id = bb_assets ?bk, as_name = name, as_symbol = symbol\<rparr>"
  let ?ex = "ex\<lparr>ex_traded_assets := ex_traded_assets ex @ [?a], ex_balance_book := bk'\<rparr>"
  have "exchange_add_asset b fx name symbol ex = Some (bb_assets ?bk, ?ex)"
    using bk'(1) of_nat_length_ids [OF roster(3)] by (simp add: exchange_add_asset_def Let_def)
  moreover have "exchange_ok ?ex"
    using ok roster bk' by (auto simp: exchange_ok_def roster_ok_def orders_ok_def Let_def word_le_nat_alt
        intro: listed_mono)
  ultimately show thesis using that [of ?ex] bk'(1) by simp
qed

lemma create_account_ok:
  assumes ok: "exchange_ok ex" and room: "unat (bb_accounts (ex_balance_book ex)) + 1 < 2 ^ 32"
  obtains ex' where "create_account b fx ex = Some (bb_accounts (ex_balance_book ex), ex')"
    and "exchange_ok ex'"
    and "bb_add_account b (fx_zero fx) (ex_balance_book ex) = Some (ex_balance_book ex')"
proof -
  let ?bk = "ex_balance_book ex"
  have roster: "bb_ok ?bk" "map fst (ex_accounts ex) = map of_nat [0..<unat (bb_accounts ?bk)]"
    "map as_id (ex_traded_assets ex) = map of_nat [0..<unat (bb_assets ?bk)]"
    using ok by (simp_all add: exchange_ok_def roster_ok_def Let_def)
  from add_account_spec [OF roster(1) room] obtain bk' where bk':
    "bb_add_account b (fx_zero fx) ?bk = Some bk'" "bb_ok bk'" "bb_assets bk' = bb_assets ?bk"
    "unat (bb_accounts bk') = unat (bb_accounts ?bk) + 1" by metis
  let ?n = "bb_accounts ?bk"
  let ?ac = "\<lparr>ac_id = ?n, ac_username = ''''\<rparr>"
  have fresh: "?n \<notin> set (map fst (ex_accounts ex))"
  proof
    assume "?n \<in> set (map fst (ex_accounts ex))"
    then obtain i where "?n = of_nat i" "i < unat ?n" unfolding roster(2) by auto
    moreover have "unat (of_nat i :: u32) = i"
      using \<open>i < unat ?n\<close> unat_u32_lt [of ?n] by (simp add: unat_of_nat take_bit_nat_eq_self)
    ultimately show False by (metis less_irrefl)
  qed
  have up: "AList.update ?n ?ac (ex_accounts ex) = ex_accounts ex @ [(?n, ?ac)]"
    by (rule update_fresh [OF fresh])
  let ?ex = "ex\<lparr>ex_accounts := ex_accounts ex @ [(?n, ?ac)], ex_balance_book := bk'\<rparr>"
  have "create_account b fx ex = Some (?n, ?ex)"
    using bk'(1) of_nat_length_ids [OF roster(2)] by (simp add: create_account_def Let_def up)
  moreover have "?n \<le> bb_accounts bk'" using bk'(4) by (simp add: word_le_nat_alt)
  then have "exchange_ok ?ex"
    using ok roster bk' by (auto simp: exchange_ok_def roster_ok_def orders_ok_def Let_def
        intro: listed_mono dest: order.strict_trans2)
  ultimately show thesis using that [of ?ex] bk'(1) by simp
qed

text \<open>
  A proper command does not list a market of an asset with itself. A step is a proper command that was
  handled, its result no self-trade, or the addition of an asset or an account while ids are left.
\<close>

fun proper :: "'p command \<Rightarrow> bool" where
  "proper (command.AddMarket pair) \<longleftrightarrow> primary pair \<noteq> secondary pair"
| "proper _ \<longleftrightarrow> True"

fun is_self_trade :: "'p command_result \<Rightarrow> bool" where
  "is_self_trade (OrderInsert (Inl SelfTrade)) \<longleftrightarrow> True"
| "is_self_trade _ \<longleftrightarrow> False"

inductive reachable ::
    "'p::linorder fixed_ops \<Rightarrow> clock \<Rightarrow> (nat \<Rightarrow> nat) \<Rightarrow> 'p exchange \<Rightarrow> bool"
  for fx clock alloc where
  reach_new: "reachable fx clock alloc (exchange_new alloc)"
| reach_asset:
    "reachable fx clock alloc ex \<Longrightarrow> unat (bb_assets (ex_balance_book ex)) + 1 < 2 ^ 32 \<Longrightarrow>
     exchange_add_asset Release fx name symbol ex = Some (asset_id, ex') \<Longrightarrow>
     reachable fx clock alloc ex'"
| reach_account:
    "reachable fx clock alloc ex \<Longrightarrow> unat (bb_accounts (ex_balance_book ex)) + 1 < 2 ^ 32 \<Longrightarrow>
     create_account Release fx ex = Some (account_id, ex') \<Longrightarrow>
     reachable fx clock alloc ex'"
| reach_command:
    "reachable fx clock alloc ex \<Longrightarrow> proper cmd \<Longrightarrow>
     handle_command Release fx clock cmd ex = Some (result, ex') \<Longrightarrow> \<not> is_self_trade result \<Longrightarrow>
     reachable fx clock alloc ex'"

lemma collect_l1_Release: "\<exists>l. collect_l1 Release inner = Some l"
  using get_l1_Release by (induction inner) (force simp: market_get_l1_def split: option.split)+

lemma get_orderbook_Release:
  "\<exists>a. get_orderbook_l1 Release pair ex = Some a" "\<exists>a. get_orderbook_l2 Release pair ex = Some a"
  using get_l1_Release get_l2_Release
  by (auto simp: get_orderbook_l1_def get_orderbook_l2_def market_get_l1_def market_get_l2_def
      split: option.split)

text \<open>Every command is handled; what comes out has the invariant, unless it was a self-trade.\<close>

context fixed_price
begin

lemma handle_command_ok:
  assumes ok: "exchange_ok ex" and total: "fx_total fx" and clock: "\<forall>n. clock n \<noteq> None"
    and "proper cmd"
  shows "\<exists>result ex'. handle_command Release fx clock cmd ex = Some (result, ex') \<and>
    (is_self_trade result \<or> exchange_ok ex')"
proof (cases cmd)
  case (OrderInsert req)
  with exchange_insert_ok [OF ok total clock, of req] show ?thesis by auto
next
  case (OrderCancel req)
  with exchange_cancel_ok [OF ok, of req] show ?thesis by (auto split: prod.split)
next
  case (OrderModify req)
  with exchange_modify_ok [OF ok, of req] show ?thesis by auto
next
  case (AddMarket pair)
  with exchange_add_market_ok [OF ok, of pair fx] \<open>proper cmd\<close> show ?thesis by (auto split: prod.split)
next
  case (GetOrderbookL1 pair)
  with get_orderbook_Release(1) [of pair ex] ok show ?thesis by (auto simp: query_def)
next
  case (GetOrderbookL2 pair)
  with get_orderbook_Release(2) [of pair ex] ok show ?thesis by (auto simp: query_def)
next
  case GetAllOrderbookL1
  with collect_l1_Release [of "ms_inner (ex_markets ex)"] ok show ?thesis
    by (auto simp: query_def get_all_orderbook_l1_def)
next
  case GetLast100Transactions
  with recent.get_view [of "ex_last_100_tx ex"] ok show ?thesis
    by (auto simp: query_def get_last_100_transactions_def exchange_ok_def)
qed (use ok in auto)

lemma reachable_ok:
  assumes "reachable fx clock alloc ex" and "fx_total fx" and "\<forall>n. clock n \<noteq> None" and "0 < alloc 100"
  shows "exchange_ok ex"
  using assms(1)
proof induction
  case reach_new
  show ?case using assms(4) by (rule exchange_new_ok)
next
  case (reach_asset ex name symbol asset_id ex')
  from exchange_add_asset_ok [OF reach_asset.IH reach_asset.hyps(2), of Release fx name symbol]
    reach_asset.hyps(3) show ?case by auto
next
  case (reach_account ex account_id ex')
  from create_account_ok [OF reach_account.IH reach_account.hyps(2), of Release fx]
    reach_account.hyps(3) show ?case by auto
next
  case (reach_command ex cmd result ex')
  from handle_command_ok [OF reach_command.IH assms(2,3) reach_command.hyps(2)] reach_command.hyps(3,4)
  show ?case by auto
qed

end

section \<open>What a sequence of commands survives\<close>

text \<open>A command of the sequence is answered with a self-trade, the commands before it handled.\<close>

definition meets_self_trade ::
    "build \<Rightarrow> 'p::linorder fixed_ops \<Rightarrow> clock \<Rightarrow> 'p command_buffer \<Rightarrow> 'p exchange \<Rightarrow> bool" where
  "meets_self_trade b fx clock cmds ex \<longleftrightarrow>
     (\<exists>k \<le> length cmds. case handle_buffer b fx clock (take k cmds) ex of
        None \<Rightarrow> False
      | Some (results, ex') \<Rightarrow> list_ex is_self_trade results)"

lemma meets_self_trade_append:
  "meets_self_trade b fx clock cmds ex \<Longrightarrow> meets_self_trade b fx clock (cmds @ cmds') ex"
  unfolding meets_self_trade_def by (elim exE conjE) (rule_tac x = k in exI, simp)

lemma meets_self_trade_Cons:
  "handle_command b fx clock cmd ex = Some (result, ex') \<Longrightarrow> meets_self_trade b fx clock cmds ex' \<Longrightarrow>
   meets_self_trade b fx clock (cmd # cmds) ex"
  unfolding meets_self_trade_def
  by (elim exE conjE) (rule_tac x = "Suc k" in exI, auto split: option.splits prod.splits)

lemma meets_self_trade_now:
  "handle_command b fx clock cmd ex = Some (result, ex') \<Longrightarrow> is_self_trade result \<Longrightarrow>
   meets_self_trade b fx clock (cmd # cmds) ex"
  unfolding meets_self_trade_def by (rule exI [of _ 1]) simp

context fixed_price
begin

lemma handle_buffer_survives:
  assumes total: "fx_total fx" and clock: "\<forall>n. clock n \<noteq> None"
  shows "exchange_ok ex \<Longrightarrow> list_all proper cmds \<Longrightarrow> \<not> meets_self_trade Release fx clock cmds ex \<Longrightarrow>
    \<exists>results ex'. handle_buffer Release fx clock cmds ex = Some (results, ex') \<and> exchange_ok ex'"
proof (induction cmds arbitrary: ex)
  case (Cons cmd cmds)
  from handle_command_ok [OF Cons.prems(1) total clock, of cmd] Cons.prems(2) obtain result ex1 where
    one: "handle_command Release fx clock cmd ex = Some (result, ex1)"
    and ok: "is_self_trade result \<or> exchange_ok ex1" by auto
  have "exchange_ok ex1" "\<not> meets_self_trade Release fx clock cmds ex1"
    using ok meets_self_trade_now [OF one] meets_self_trade_Cons [OF one] Cons.prems(3) by blast+
  with Cons.IH [of ex1] Cons.prems(2) one show ?case by auto
qed simp

end

end
