(* ===== verification/Codec.thy ===== *)
theory Codec
  imports Errors
begin

unbundle bit_operations_syntax

text \<open>
  The framing of \<open>src/util/mp_command_codec.rs\<close>: a message is two bytes of length, big endian, and
  its MessagePack encoding. The encoder and decoder of the crate \<open>rmp_serde\<close> are the arguments
  \<open>to_vec\<close> and \<open>from_slice\<close>, \<open>None\<close> where they return an error. \<open>drain\<close> is what the
  framed stream of \<open>tokio_util\<close> does with the bytes received so far: decode until a frame is
  incomplete.
\<close>

type_synonym bytes = "u8 list"

datatype io_error = InvalidData

definition to_be_bytes :: "16 word \<Rightarrow> bytes" where
  "to_be_bytes w = [ucast (drop_bit 8 w), ucast w]"

definition from_be_bytes :: "u8 \<Rightarrow> u8 \<Rightarrow> 16 word" where
  "from_be_bytes hi lo = push_bit 8 (ucast hi) OR ucast lo"

definition mp_encode :: "('i \<Rightarrow> bytes option) \<Rightarrow> 'i \<Rightarrow> bytes \<Rightarrow> (io_error + unit) \<times> bytes" where
  "mp_encode to_vec item dst =
     (case to_vec item of
        None \<Rightarrow> (Inl InvalidData, dst)
      | Some mp_encoded \<Rightarrow>
          if length mp_encoded > 2 ^ 16 - 1 then (Inl InvalidData, dst)
          else (Inr (), dst @ to_be_bytes (of_nat (length mp_encoded)) @ mp_encoded))"

definition mp_decode :: "(bytes \<Rightarrow> 'i option) \<Rightarrow> bytes \<Rightarrow> (io_error + 'i option) \<times> bytes" where
  "mp_decode from_slice src =
     (if length src < 2 then (Inr None, src)
      else let len = unat (from_be_bytes (src ! 0) (src ! 1))
           in if length src < 2 + len then (Inr None, src)
              else case from_slice (take len (drop 2 src)) of
                     None \<Rightarrow> (Inl InvalidData, src)
                   | Some command_buf \<Rightarrow> (Inr (Some command_buf), drop (2 + len) src))"

lemma mp_decode_shorter:
  "mp_decode from_slice src = (Inr (Some x), src') \<Longrightarrow> length src' < length src"
  by (auto simp: mp_decode_def Let_def split: if_splits option.splits)

function drain :: "(bytes \<Rightarrow> 'i option) \<Rightarrow> bytes \<Rightarrow> 'i list \<times> io_error option \<times> bytes" where
  "drain from_slice src =
     (case mp_decode from_slice src of
        (Inl err, src') \<Rightarrow> ([], Some err, src')
      | (Inr None, src') \<Rightarrow> ([], None, src')
      | (Inr (Some x), src') \<Rightarrow>
          (case drain from_slice src' of (xs, end, rest) \<Rightarrow> (x # xs, end, rest)))"
  by pat_completeness auto
termination
  by (relation "measure (length \<circ> snd)") (auto intro: mp_decode_shorter [OF sym])

declare drain.simps [simp del]

text \<open>Bytes arriving in pieces: each piece is appended to what the last drain left.\<close>

fun feed :: "(bytes \<Rightarrow> 'i option) \<Rightarrow> bytes \<Rightarrow> bytes list \<Rightarrow> 'i list \<times> io_error option \<times> bytes" where
  "feed from_slice buf [] = ([], None, buf)"
| "feed from_slice buf (piece # pieces) =
     (case drain from_slice (buf @ piece) of
        (xs, Some err, rest) \<Rightarrow> (xs, Some err, rest)
      | (xs, None, rest) \<Rightarrow>
          (case feed from_slice rest pieces of (ys, end, rest') \<Rightarrow> (xs @ ys, end, rest')))"

section \<open>Lengths\<close>

lemma be_bytes_inverse: "from_be_bytes (ucast (drop_bit 8 w)) (ucast w) = w"
  unfolding from_be_bytes_def
  by (rule bit_word_eqI) (auto simp: bit_simps)

lemma to_be_bytes_nth: "to_be_bytes w ! 0 = ucast (drop_bit 8 w)" "to_be_bytes w ! 1 = ucast w"
  by (simp_all add: to_be_bytes_def)

lemma length_to_be_bytes [simp]: "length (to_be_bytes w) = 2"
  by (simp add: to_be_bytes_def)

lemma unat_of_nat_u16: "n \<le> 2 ^ 16 - 1 \<Longrightarrow> unat (of_nat n :: 16 word) = n"
  by (simp add: unat_of_nat take_bit_nat_eq_self)

section \<open>Frames\<close>

definition frame :: "bytes \<Rightarrow> bytes" where
  "frame mp = to_be_bytes (of_nat (length mp)) @ mp"

lemma mp_decode_frame:
  assumes "length mp \<le> 2 ^ 16 - 1" and "from_slice mp = Some x"
  shows "mp_decode from_slice (frame mp @ rest) = (Inr (Some x), rest)"
  using assms
  by (simp add: mp_decode_def frame_def Let_def to_be_bytes_def be_bytes_inverse unat_of_nat_u16)

lemma mp_encode_frame:
  "mp_encode to_vec item dst = (Inr (), out) \<longleftrightarrow>
   (\<exists>mp. to_vec item = Some mp \<and> length mp \<le> 2 ^ 16 - 1 \<and> out = dst @ frame mp)"
  by (auto simp: mp_encode_def frame_def split: option.split)

text \<open>More bytes change nothing about a frame that is there.\<close>

lemma mp_decode_append:
  "mp_decode from_slice src = (Inr (Some x), src') \<Longrightarrow>
   mp_decode from_slice (src @ more) = (Inr (Some x), src' @ more)"
  "mp_decode from_slice src = (Inl err, src') \<Longrightarrow>
   mp_decode from_slice (src @ more) = (Inl err, src @ more) \<and> src' = src"
  by (auto simp: mp_decode_def Let_def nth_append split: if_splits option.splits)

lemma mp_decode_None: "mp_decode from_slice src = (Inr None, src') \<Longrightarrow> src' = src"
  by (auto simp: mp_decode_def Let_def split: if_splits option.splits)

lemma drain_append:
  "drain from_slice (src @ more) =
     (case drain from_slice src of
        (xs, Some err, rest) \<Rightarrow> (xs, Some err, rest @ more)
      | (xs, None, rest) \<Rightarrow>
          (case drain from_slice (rest @ more) of (ys, end, rest') \<Rightarrow> (xs @ ys, end, rest')))"
proof (induction from_slice src rule: drain.induct)
  case (1 from_slice src)
  show ?case
  proof (cases "mp_decode from_slice src")
    case (Pair res src')
    consider (err) err where "res = Inl err" | (none) "res = Inr None" | (some) x where "res = Inr (Some x)"
      by (cases res) auto
    then show ?thesis
    proof cases
      case err
      then have "mp_decode from_slice (src @ more) = (Inl err, src @ more)" "src' = src"
        using Pair mp_decode_append(2) by blast+
      with Pair err show ?thesis
        by (simp add: drain.simps [of from_slice src] drain.simps [of from_slice "src @ more"])
    next
      case none
      then have "src' = src" using Pair mp_decode_None by blast
      with Pair none show ?thesis
        by (simp add: drain.simps [of from_slice src] split: prod.split)
    next
      case some
      have "mp_decode from_slice (src @ more) = (Inr (Some x), src' @ more)"
        by (rule mp_decode_append(1)) (use Pair some in simp)
      with Pair some 1 [OF Pair [symmetric, unfolded some] refl refl] show ?thesis
        by (auto simp: drain.simps [of from_slice src] drain.simps [of from_slice "src @ more"]
            split: prod.splits option.splits)
    qed
  qed
qed

text \<open>How the bytes are cut into pieces makes no difference to the messages.\<close>

lemma feed_drain:
  assumes "pieces \<noteq> []"
  shows "(case feed from_slice buf pieces of (xs, end, _) \<Rightarrow> (xs, end)) =
    (case drain from_slice (buf @ concat pieces) of (xs, end, _) \<Rightarrow> (xs, end))"
  using assms
proof (induction pieces arbitrary: buf)
  case (Cons piece pieces)
  have split: "drain from_slice (buf @ concat (piece # pieces)) =
     (case drain from_slice (buf @ piece) of
        (xs, Some err, rest) \<Rightarrow> (xs, Some err, rest @ concat pieces)
      | (xs, None, rest) \<Rightarrow>
          (case drain from_slice (rest @ concat pieces) of (ys, end, rest') \<Rightarrow> (xs @ ys, end, rest')))"
    using drain_append [of from_slice "buf @ piece" "concat pieces"] by simp
  show ?case
  proof (cases "pieces = []")
    case True
    then show ?thesis by (auto split: prod.split option.split)
  next
    case False
    show ?thesis unfolding split
      using Cons.IH [OF False] by (fastforce split: prod.splits option.splits)
  qed
qed simp

lemma drain_frames:
  assumes "list_all2 (\<lambda>mp x. length mp \<le> 2 ^ 16 - 1 \<and> from_slice mp = Some x) mps xs"
  shows "drain from_slice (concat (map frame mps) @ rest) =
    (case drain from_slice rest of (ys, end, rest') \<Rightarrow> (xs @ ys, end, rest'))"
  using assms
proof (induction mps xs rule: list_all2_induct)
  case Nil
  then show ?case by (simp split: prod.split)
next
  case (Cons mp mps x xs)
  then have "mp_decode from_slice (frame mp @ (concat (map frame mps) @ rest)) =
      (Inr (Some x), concat (map frame mps) @ rest)"
    by (intro mp_decode_frame) simp_all
  with Cons.IH show ?case by (simp add: drain.simps [of _ "frame mp @ _"] split: prod.split)
qed

end
