(* ===== verification/Exchange_Client.thy ===== *)
theory Exchange_Client
  imports Command_Loop Codec
begin

text \<open>
  The client side: \<open>ExchangeClient\<close> of \<open>src/exchange_client.rs\<close>, whose calls send one buffer
  and wait for its reply, and the connection handler of \<open>src/bin/exchange_server.rs\<close>, which decodes
  buffers from the bytes of a connection and sends the encoded results back.

  Sending a buffer and awaiting the reply is one exchange with the exchange's thread; other clients'
  buffers come before or after it. \<open>None\<close> is a panic, of the thread or of an \<open>unwrap\<close>.
\<close>

section \<open>The client\<close>

definition send_commands ::
    "build \<Rightarrow> 'p::linorder fixed_ops \<Rightarrow> clock \<Rightarrow> 'p command_buffer \<Rightarrow> 'p exchange
     \<Rightarrow> ('p command_result_buffer \<times> 'p exchange) option" where
  "send_commands b fx clock command_buf ex =
     (case serve_chunk b fx clock [command_buf] ex of
        ([result_buf], Some ex') \<Rightarrow> Some (result_buf, ex')
      | _ \<Rightarrow> None)"

definition client_insert_order ::
    "build \<Rightarrow> 'p::linorder fixed_ops \<Rightarrow> clock \<Rightarrow> 'p order_insertion_request \<Rightarrow> 'p exchange
     \<Rightarrow> (order_insertion_result \<times> 'p exchange) option" where
  "client_insert_order b fx clock req ex =
     (case send_commands b fx clock [command.OrderInsert req] ex of
        None \<Rightarrow> None
      | Some (result_buf, ex') \<Rightarrow>
          (case vec_pop result_buf of
             Some (OrderInsert result) \<Rightarrow> Some (result, ex')
           | _ \<Rightarrow> None))"

definition client_get_assets ::
    "build \<Rightarrow> 'p::linorder fixed_ops \<Rightarrow> clock \<Rightarrow> 'p exchange \<Rightarrow> (asset list \<times> 'p exchange) option" where
  "client_get_assets b fx clock ex =
     (case send_commands b fx clock [command.GetAssets] ex of
        None \<Rightarrow> None
      | Some (result_buf, ex') \<Rightarrow>
          (case vec_pop result_buf of Some (GetAssets result) \<Rightarrow> Some (result, ex') | _ \<Rightarrow> None))"

definition client_get_all_l1 ::
    "build \<Rightarrow> 'p::linorder fixed_ops \<Rightarrow> clock \<Rightarrow> 'p exchange
     \<Rightarrow> ((asset_id_pair \<times> 'p orderbook_l1) list \<times> 'p exchange) option" where
  "client_get_all_l1 b fx clock ex =
     (case send_commands b fx clock [command.GetAllOrderbookL1] ex of
        None \<Rightarrow> None
      | Some (result_buf, ex') \<Rightarrow>
          (case vec_pop result_buf of Some (GetAllOrderbookL1 result) \<Rightarrow> Some (result, ex') | _ \<Rightarrow> None))"

definition client_get_last_100_transactions ::
    "build \<Rightarrow> 'p::linorder fixed_ops \<Rightarrow> clock \<Rightarrow> 'p exchange
     \<Rightarrow> ('p transaction list \<times> 'p exchange) option" where
  "client_get_last_100_transactions b fx clock ex =
     (case send_commands b fx clock [command.GetLast100Transactions] ex of
        None \<Rightarrow> None
      | Some (result_buf, ex') \<Rightarrow>
          (case vec_pop result_buf of
             Some (GetLast100Transactions result) \<Rightarrow> Some (result, ex') | _ \<Rightarrow> None))"

text \<open>\<open>get_balance\<close> answers \<open>None\<close> for another kind of result, where the others do not return.\<close>

definition client_get_balance ::
    "build \<Rightarrow> 'p::linorder fixed_ops \<Rightarrow> clock \<Rightarrow> account_id \<Rightarrow> asset_id \<Rightarrow> 'p exchange
     \<Rightarrow> ('p option \<times> 'p exchange) option" where
  "client_get_balance b fx clock account_id asset_id ex =
     (case send_commands b fx clock [command.GetBalance account_id asset_id] ex of
        None \<Rightarrow> None
      | Some (result_buf, ex') \<Rightarrow>
          (case vec_pop result_buf of
             Some (GetBalance balance) \<Rightarrow> Some (balance, ex') | _ \<Rightarrow> Some (None, ex')))"

lemma send_commands_handles:
  "send_commands b fx clock command_buf ex = handle_buffer b fx clock command_buf ex"
  by (auto simp: send_commands_def split: option.split)

lemma send_one:
  "send_commands b fx clock [cmd] ex = map_option (\<lambda>(r, ex'). ([r], ex')) (handle_command b fx clock cmd ex)"
  by (auto simp: send_commands_handles split: option.split)

section \<open>A connection\<close>

text \<open>The frames decoded so far, answered one after the other. \<open>send(..).await.unwrap()\<close> panics when
  the results do not encode, by then the commands have been handled.\<close>

fun answer_frames ::
    "build \<Rightarrow> 'p::linorder fixed_ops \<Rightarrow> clock \<Rightarrow> ('p command_result_buffer \<Rightarrow> bytes option)
     \<Rightarrow> 'p command_buffer list \<Rightarrow> 'p exchange \<Rightarrow> (bytes \<times> 'p exchange) option" where
  "answer_frames b fx clock to_vec [] ex = Some ([], ex)"
| "answer_frames b fx clock to_vec (decoded_commands # frames) ex =
     (case send_commands b fx clock decoded_commands ex of
        None \<Rightarrow> None
      | Some (commands_results, ex') \<Rightarrow>
          (case mp_encode to_vec commands_results [] of
             (Inl err, _) \<Rightarrow> None
           | (Inr _, out) \<Rightarrow>
               (case answer_frames b fx clock to_vec frames ex' of
                  None \<Rightarrow> None
                | Some (out', ex'') \<Rightarrow> Some (out @ out', ex''))))"

text \<open>The connection: the bytes arrive in pieces, a decoding error disconnects.\<close>

fun handle_connection ::
    "build \<Rightarrow> 'p::linorder fixed_ops \<Rightarrow> clock \<Rightarrow> ('p command_result_buffer \<Rightarrow> bytes option)
     \<Rightarrow> (bytes \<Rightarrow> 'p command_buffer option) \<Rightarrow> bytes \<Rightarrow> bytes list \<Rightarrow> 'p exchange
     \<Rightarrow> (bytes \<times> 'p exchange) option" where
  "handle_connection b fx clock to_vec from_slice buf [] ex = Some ([], ex)"
| "handle_connection b fx clock to_vec from_slice buf (piece # pieces) ex =
     (case drain from_slice (buf @ piece) of
        (frames, end, rest) \<Rightarrow>
          (case answer_frames b fx clock to_vec frames ex of
             None \<Rightarrow> None
           | Some (out, ex') \<Rightarrow>
               (case end of
                  Some err \<Rightarrow> Some (out, ex')
                | None \<Rightarrow>
                    (case handle_connection b fx clock to_vec from_slice rest pieces ex' of
                       None \<Rightarrow> None
                     | Some (out', ex'') \<Rightarrow> Some (out @ out', ex'')))))"

lemma answer_frames_append:
  "answer_frames b fx clock to_vec (fs @ gs) ex =
     (case answer_frames b fx clock to_vec fs ex of
        None \<Rightarrow> None
      | Some (out, ex') \<Rightarrow>
          (case answer_frames b fx clock to_vec gs ex' of
             None \<Rightarrow> None
           | Some (out', ex'') \<Rightarrow> Some (out @ out', ex'')))"
  by (induction fs arbitrary: ex) (auto split: option.splits prod.splits sum.splits)

text \<open>A connection answers the messages its bytes hold, however they are cut.\<close>

lemma handle_connection_feed:
  "handle_connection b fx clock to_vec from_slice buf pieces ex =
   answer_frames b fx clock to_vec (fst (feed from_slice buf pieces)) ex"
  by (induction pieces arbitrary: buf ex)
    (auto simp: answer_frames_append split: option.splits prod.splits)

lemma handle_connection_drain:
  assumes "pieces \<noteq> []"
  shows "handle_connection b fx clock to_vec from_slice [] pieces ex =
    answer_frames b fx clock to_vec (fst (drain from_slice (concat pieces))) ex"
proof -
  have "fst (feed from_slice [] pieces) = fst (drain from_slice (concat pieces))"
    using feed_drain [OF assms, of from_slice "[]"] by (auto split: prod.splits)
  then show ?thesis by (simp add: handle_connection_feed)
qed

text \<open>What is sent back: one frame per buffer, holding its encoded results.\<close>

lemma answer_frames_results:
  assumes "answer_frames b fx clock to_vec frames ex = Some (out, ex')"
  shows "\<exists>replies mps. serve_chunk b fx clock frames ex = (replies, Some ex') \<and>
    out = concat (map frame mps) \<and>
    list_all2 (\<lambda>mp r. length mp \<le> 2 ^ 16 - 1 \<and> to_vec r = Some mp) mps replies"
  using assms
proof (induction frames arbitrary: ex out)
  case (Cons cmds frames)
  from Cons.prems obtain rs ex1 out1 out2 where
    rs: "handle_buffer b fx clock cmds ex = Some (rs, ex1)"
    and enc: "mp_encode to_vec rs [] = (Inr (), out1)"
    and rest: "answer_frames b fx clock to_vec frames ex1 = Some (out2, ex')" and out: "out = out1 @ out2"
    by (auto simp: send_commands_handles split: option.splits prod.splits sum.splits)
  from enc obtain mp where mp: "to_vec rs = Some mp" "length mp \<le> 2 ^ 16 - 1" "out1 = frame mp"
    by (auto simp: mp_encode_frame)
  from Cons.IH [OF rest] obtain replies mps where "serve_chunk b fx clock frames ex1 = (replies, Some ex')"
    "out2 = concat (map frame mps)"
    "list_all2 (\<lambda>mp r. length mp \<le> 2 ^ 16 - 1 \<and> to_vec r = Some mp) mps replies" by blast
  with rs mp out show ?case by (intro exI [of _ "rs # replies"] exI [of _ "mp # mps"]) simp
qed simp

end
