(* ===== verification/Exchange_Configs.thy ===== *)
theory Exchange_Configs
  imports Exchange_Client
begin

text \<open>
  The setups of \<open>src/util/exchange_configs.rs\<close>, up to the exchange that \<open>run\<close> moves to its
  thread, and the padding of \<open>src/util/format_exact_width.rs\<close>. \<open>None\<close> is a panic: an
  \<open>unwrap\<close> of a refused market, an \<open>expect\<close> of a symbol. Strings are ASCII.
\<close>

section \<open>Padding\<close>

definition pad_left :: "string \<Rightarrow> nat \<Rightarrow> string" where
  "pad_left s len = (if length s < len then replicate (len - length s) CHR '' '' @ s else s)"

definition pad_right :: "string \<Rightarrow> nat \<Rightarrow> string" where
  "pad_right s len = (if length s < len then s @ replicate (len - length s) CHR '' '' else s)"

section \<open>Setups\<close>

definition unwrap_market ::
    "(market_creation_error + unit) \<times> 'p exchange \<Rightarrow> 'p exchange option" where
  "unwrap_market r = (case r of (Inl err, ex) \<Rightarrow> None | (Inr _, ex) \<Rightarrow> Some ex)"

fun create_accounts ::
    "build \<Rightarrow> 'p fixed_ops \<Rightarrow> nat \<Rightarrow> 'p exchange \<Rightarrow> (account_id list \<times> 'p exchange) option" where
  "create_accounts b fx 0 ex = Some ([], ex)"
| "create_accounts b fx (Suc n) ex =
     (case create_account b fx ex of
        None \<Rightarrow> None
      | Some (new_acc_id, ex') \<Rightarrow>
          map_option (\<lambda>(ids, ex''). (new_acc_id # ids, ex'')) (create_accounts b fx n ex'))"

fun add_markets :: "'p fixed_ops \<Rightarrow> asset_id_pair list \<Rightarrow> 'p exchange \<Rightarrow> 'p exchange option" where
  "add_markets fx [] ex = Some ex"
| "add_markets fx (pair # pairs) ex =
     (case unwrap_market (exchange_add_market fx pair ex) of
        None \<Rightarrow> None | Some ex' \<Rightarrow> add_markets fx pairs ex')"

type_synonym 'p configured = "'p exchange \<times> asset_id_pair list \<times> account_id list"

definition market_eur_usd :: "build \<Rightarrow> 'p fixed_ops \<Rightarrow> (nat \<Rightarrow> nat) \<Rightarrow> 'p configured option" where
  "market_eur_usd b fx alloc = do {
     let ex = exchange_new alloc;
     (eur_id, ex1) \<leftarrow> exchange_add_asset b fx ''Euro'' ''EUR'' ex;
     (usd_id, ex2) \<leftarrow> exchange_add_asset b fx ''United States Dollar'' ''USD'' ex1;
     let pair = \<lparr>primary = eur_id, secondary = usd_id\<rparr>;
     ex3 \<leftarrow> unwrap_market (exchange_add_market fx pair ex2);
     Some (ex3, [pair], [])
   }"

definition market_eur_usd_accs_2 :: "build \<Rightarrow> 'p fixed_ops \<Rightarrow> (nat \<Rightarrow> nat) \<Rightarrow> 'p configured option" where
  "market_eur_usd_accs_2 b fx alloc = do {
     let ex = exchange_new alloc;
     (id_1, ex1) \<leftarrow> create_account b fx ex;
     (id_2, ex2) \<leftarrow> create_account b fx ex1;
     (eur_id, ex3) \<leftarrow> exchange_add_asset b fx ''Euro'' ''EUR'' ex2;
     (usd_id, ex4) \<leftarrow> exchange_add_asset b fx ''United States Dollar'' ''USD'' ex3;
     let pair = \<lparr>primary = eur_id, secondary = usd_id\<rparr>;
     ex5 \<leftarrow> unwrap_market (exchange_add_market fx pair ex4);
     Some (ex5, [pair], [id_1, id_2])
   }"

definition markets_5_accs_5 :: "build \<Rightarrow> 'p fixed_ops \<Rightarrow> (nat \<Rightarrow> nat) \<Rightarrow> 'p configured option" where
  "markets_5_accs_5 b fx alloc = do {
     let ex = exchange_new alloc;
     (accounts, ex0) \<leftarrow> create_accounts b fx 5 ex;
     (usd_id, ex1) \<leftarrow> exchange_add_asset b fx ''United States Dollar'' ''USD'' ex0;
     (eur_id, ex2) \<leftarrow> exchange_add_asset b fx ''Euro'' ''EUR'' ex1;
     (jpy_id, ex3) \<leftarrow> exchange_add_asset b fx ''Japanese Yen'' ''JPY'' ex2;
     (chf_id, ex4) \<leftarrow> exchange_add_asset b fx ''Swiss Frank'' ''CHF'' ex3;
     let pairs =
       [\<lparr>primary = eur_id, secondary = usd_id\<rparr>,
        \<lparr>primary = jpy_id, secondary = usd_id\<rparr>,
        \<lparr>primary = chf_id, secondary = usd_id\<rparr>,
        \<lparr>primary = chf_id, secondary = eur_id\<rparr>,
        \<lparr>primary = jpy_id, secondary = eur_id\<rparr>];
     ex5 \<leftarrow> add_markets fx pairs ex4;
     Some (ex5, pairs, accounts)
   }"

text \<open>\<open>to_uppercase\<close> on ASCII.\<close>

definition to_uppercase :: "string \<Rightarrow> string" where
  "to_uppercase = map (\<lambda>c. let n = (of_char c :: nat) in if 97 \<le> n \<and> n \<le> 122 then char_of (n - 32) else c)"

fun list_assets ::
    "build \<Rightarrow> 'p fixed_ops \<Rightarrow> new_asset list \<Rightarrow> 'p exchange \<Rightarrow> (asset list \<times> 'p exchange) option" where
  "list_assets b fx [] ex = Some ([], ex)"
| "list_assets b fx (a # create_assets) ex =
     (case exchange_add_asset b fx (na_name a) (to_uppercase (na_symbol a)) ex of
        None \<Rightarrow> None
      | Some (new_asset_id, ex') \<Rightarrow>
          (let new = \<lparr>as_id = new_asset_id, as_name = na_name a, as_symbol = to_uppercase (na_symbol a)\<rparr>
           in map_option (\<lambda>(assets, ex''). (new # assets, ex'')) (list_assets b fx create_assets ex')))"

definition asset_of_symbol :: "asset list \<Rightarrow> string \<Rightarrow> asset_id option" where
  "asset_of_symbol assets symbol =
     map_option as_id (List.find (\<lambda>a. as_symbol a = to_uppercase symbol) assets)"

fun create_symbolic_markets ::
    "'p fixed_ops \<Rightarrow> asset list \<Rightarrow> asset_pair_symbolic list \<Rightarrow> 'p exchange
     \<Rightarrow> (asset_id_pair list \<times> 'p exchange) option" where
  "create_symbolic_markets fx assets [] ex = Some ([], ex)"
| "create_symbolic_markets fx assets (m # create_markets) ex = do {
     primary_id \<leftarrow> asset_of_symbol assets (ps_primary m);
     secondary_id \<leftarrow> asset_of_symbol assets (ps_secondary m);
     let new_market = \<lparr>primary = primary_id, secondary = secondary_id\<rparr>;
     ex' \<leftarrow> unwrap_market (exchange_add_market fx new_market ex);
     (markets, ex'') \<leftarrow> create_symbolic_markets fx assets create_markets ex';
     Some (new_market # markets, ex'')
   }"

definition custom ::
    "build \<Rightarrow> 'p fixed_ops \<Rightarrow> (nat \<Rightarrow> nat) \<Rightarrow> new_asset list \<Rightarrow> asset_pair_symbolic list \<Rightarrow> nat
     \<Rightarrow> 'p configured option" where
  "custom b fx alloc create_assets create_markets num_accounts = do {
     let ex = exchange_new alloc;
     (accounts, ex1) \<leftarrow> create_accounts b fx num_accounts ex;
     (assets, ex2) \<leftarrow> list_assets b fx create_assets ex1;
     (markets, ex3) \<leftarrow> create_symbolic_markets fx assets create_markets ex2;
     Some (ex3, markets, accounts)
   }"

section \<open>The exchange of a setup\<close>

lemma create_accounts_ok:
  "exchange_ok ex \<Longrightarrow> unat (bb_accounts (ex_balance_book ex)) + n < 2 ^ 32 \<Longrightarrow>
   \<exists>ex'. create_accounts b fx n ex =
       Some (map of_nat [unat (bb_accounts (ex_balance_book ex))..<unat (bb_accounts (ex_balance_book ex)) + n], ex') \<and>
     exchange_ok ex' \<and> bb_assets (ex_balance_book ex') = bb_assets (ex_balance_book ex) \<and>
     ms_keys (ex_markets ex') = ms_keys (ex_markets ex)"
proof (induction n arbitrary: ex)
  case 0
  then show ?case by simp
next
  case (Suc n)
  let ?k = "unat (bb_accounts (ex_balance_book ex))"
  have room: "?k + 1 < 2 ^ 32" using Suc.prems(2) by simp
  obtain ex1 where 1: "create_account b fx ex = Some (bb_accounts (ex_balance_book ex), ex1)" "exchange_ok ex1"
    and bk: "bb_add_account b (fx_zero fx) (ex_balance_book ex) = Some (ex_balance_book ex1)"
    by (rule create_account_ok [OF Suc.prems(1) room])
  have keys: "ms_keys (ex_markets ex1) = ms_keys (ex_markets ex)"
    using 1(1) by (auto simp: create_account_def Let_def split: option.splits)
  have "bb_ok (ex_balance_book ex)" using Suc.prems(1) by (simp add: exchange_ok_def roster_ok_def Let_def)
  from add_account_spec [OF this room, of b "fx_zero fx"] bk
  have n: "unat (bb_accounts (ex_balance_book ex1)) = Suc ?k"
    and assets: "bb_assets (ex_balance_book ex1) = bb_assets (ex_balance_book ex)"
    by (metis Suc_eq_plus1 option.inject)+
  have "[?k..<?k + Suc n] = ?k # [Suc ?k..<Suc ?k + n]" by (simp add: upt_conv_Cons del: upt_Suc)
  moreover have "unat (bb_accounts (ex_balance_book ex1)) + n < 2 ^ 32" using Suc.prems(2) n by simp
  ultimately show ?case using Suc.IH [OF 1(2)] 1(1) n assets keys by (auto simp del: upt_Suc)
qed

text \<open>The assets of a setup, with the ids they get, and the pair a symbolic market names.\<close>

fun listing :: "nat \<Rightarrow> new_asset list \<Rightarrow> asset list" where
  "listing k [] = []"
| "listing k (a # create_assets) =
     \<lparr>as_id = of_nat k, as_name = na_name a, as_symbol = to_uppercase (na_symbol a)\<rparr>
     # listing (Suc k) create_assets"

definition resolve :: "asset list \<Rightarrow> asset_pair_symbolic \<Rightarrow> asset_id_pair option" where
  "resolve assets m =
     (case (asset_of_symbol assets (ps_primary m), asset_of_symbol assets (ps_secondary m)) of
        (Some p, Some s) \<Rightarrow> Some \<lparr>primary = p, secondary = s\<rparr>
      | _ \<Rightarrow> None)"

lemma resolve_Some:
  "resolve assets m = Some pair \<longleftrightarrow>
   asset_of_symbol assets (ps_primary m) = Some (primary pair) \<and>
   asset_of_symbol assets (ps_secondary m) = Some (secondary pair)"
  by (cases pair) (auto simp: resolve_def split: option.split)

lemma list_assets_ok:
  "exchange_ok ex \<Longrightarrow> unat (bb_assets (ex_balance_book ex)) + length create_assets < 2 ^ 32 \<Longrightarrow>
   \<exists>ex'. list_assets b fx create_assets ex =
       Some (listing (unat (bb_assets (ex_balance_book ex))) create_assets, ex') \<and> exchange_ok ex' \<and>
     ms_keys (ex_markets ex') = ms_keys (ex_markets ex) \<and>
     ex_traded_assets ex' =
       ex_traded_assets ex @ listing (unat (bb_assets (ex_balance_book ex))) create_assets"
proof (induction create_assets arbitrary: ex)
  case Nil
  then show ?case by simp
next
  case (Cons a create_assets)
  let ?k = "unat (bb_assets (ex_balance_book ex))"
  have room: "?k + 1 < 2 ^ 32" using Cons.prems(2) by simp
  obtain ex1 where 1: "exchange_add_asset b fx (na_name a) (to_uppercase (na_symbol a)) ex =
      Some (bb_assets (ex_balance_book ex), ex1)" "exchange_ok ex1"
    and bk: "bb_add_asset b (fx_zero fx) (ex_balance_book ex) = Some (ex_balance_book ex1)"
    by (rule exchange_add_asset_ok [OF Cons.prems(1) room])
  have keys: "ms_keys (ex_markets ex1) = ms_keys (ex_markets ex)"
    and traded: "ex_traded_assets ex1 = ex_traded_assets ex @
      [\<lparr>as_id = bb_assets (ex_balance_book ex), as_name = na_name a, as_symbol = to_uppercase (na_symbol a)\<rparr>]"
    using 1(1) by (auto simp: exchange_add_asset_def Let_def split: option.splits)
  have "bb_ok (ex_balance_book ex)" using Cons.prems(1) by (simp add: exchange_ok_def roster_ok_def Let_def)
  from add_asset_spec [OF this room, of b "fx_zero fx"] bk
  have k: "unat (bb_assets (ex_balance_book ex1)) = Suc ?k"
    by (metis option.inject Suc_eq_plus1)
  then have "unat (bb_assets (ex_balance_book ex1)) + length create_assets < 2 ^ 32"
    using Cons.prems(2) by simp
  from Cons.IH [OF 1(2) this] 1(1) keys traded show ?case by (auto simp: Let_def k)
qed

lemma add_market_succeeds:
  assumes ok: "exchange_ok ex" and "is_traded_asset (primary pair) ex" and "is_traded_asset (secondary pair) ex"
    and "primary pair \<noteq> secondary pair" and "pair \<notin> set (ms_keys (ex_markets ex))"
  obtains ex' where "unwrap_market (exchange_add_market fx pair ex) = Some ex'" and "exchange_ok ex'"
    and "ms_keys (ex_markets ex') = ms_keys (ex_markets ex) @ [pair]"
    and "ex_traded_assets ex' = ex_traded_assets ex"
proof -
  let ?ex = "snd (exchange_add_market fx pair ex)"
  have "exchange_add_market fx pair ex = (Inr (), ?ex)"
    "ms_keys (ex_markets ?ex) = ms_keys (ex_markets ex) @ [pair]" "ex_traded_assets ?ex = ex_traded_assets ex"
    using assms by (simp_all add: exchange_add_market_def markets_add_market_def markets_contains_def)
  moreover from this(1) have "unwrap_market (exchange_add_market fx pair ex) = Some ?ex"
    by (subst unwrap_market_def) (auto split: prod.split)
  ultimately show thesis using that exchange_add_market_ok [OF ok assms(4), of fx] by blast
qed

lemma symbol_traded:
  "\<forall>a \<in> set assets. is_traded_asset (as_id a) ex \<Longrightarrow> asset_of_symbol assets x = Some a \<Longrightarrow>
   is_traded_asset a ex"
  by (auto simp: asset_of_symbol_def find_Some_iff)

lemma create_symbolic_markets_ok:
  "exchange_ok ex \<Longrightarrow> map (resolve assets) create_markets = map Some markets \<Longrightarrow>
   \<forall>pair \<in> set markets. primary pair \<noteq> secondary pair \<Longrightarrow>
   \<forall>a \<in> set assets. is_traded_asset (as_id a) ex \<Longrightarrow>
   distinct (ms_keys (ex_markets ex) @ markets) \<Longrightarrow>
   \<exists>ex'. create_symbolic_markets fx assets create_markets ex = Some (markets, ex') \<and>
     exchange_ok ex' \<and> ms_keys (ex_markets ex') = ms_keys (ex_markets ex) @ markets"
proof (induction create_markets arbitrary: ex markets)
  case Nil
  then show ?case by simp
next
  case (Cons m create_markets)
  from Cons.prems(2) obtain pair markets' where m: "resolve assets m = Some pair"
    and markets: "markets = pair # markets'"
    and rest: "map (resolve assets) create_markets = map Some markets'"
    by (cases markets) auto
  note known = symbol_traded [OF Cons.prems(4)]
  obtain ex1 where step: "unwrap_market (exchange_add_market fx pair ex) = Some ex1" "exchange_ok ex1"
    "ms_keys (ex_markets ex1) = ms_keys (ex_markets ex) @ [pair]" "ex_traded_assets ex1 = ex_traded_assets ex"
    by (rule add_market_succeeds [OF Cons.prems(1), of pair fx])
      (use known m Cons.prems(3,5) in \<open>auto simp: markets resolve_Some\<close>)
  have "\<exists>ex'. create_symbolic_markets fx assets create_markets ex1 = Some (markets', ex') \<and>
      exchange_ok ex' \<and> ms_keys (ex_markets ex') = ms_keys (ex_markets ex1) @ markets'"
    using Cons.prems(3-5) step(3,4)
    by (intro Cons.IH [OF step(2) rest]) (simp_all add: markets is_traded_asset_def)
  then show ?case using m step(1,3) by (cases pair) (auto simp: markets Let_def resolve_Some)
qed

lemma custom_ok:
  assumes room: "n < 2 ^ 32" "length create_assets < 2 ^ 32" and alloc: "0 < alloc 100"
    and resolve: "map (resolve (listing 0 create_assets)) create_markets = map Some markets"
    and pairs: "\<forall>pair \<in> set markets. primary pair \<noteq> secondary pair" and distinct: "distinct markets"
  shows "\<exists>ex. custom b fx alloc create_assets create_markets n = Some (ex, markets, map of_nat [0..<n]) \<and>
    exchange_ok ex \<and> ms_keys (ex_markets ex) = markets"
proof -
  have new: "bb_accounts (ex_balance_book (exchange_new alloc)) = 0"
    "bb_assets (ex_balance_book (exchange_new alloc)) = 0" "ms_keys (ex_markets (exchange_new alloc)) = []"
    by (simp_all add: exchange_new_def bb_new_def markets_new_def)
  obtain ex1 where 1: "create_accounts b fx n (exchange_new alloc) = Some (map of_nat [0..<n], ex1)"
    "exchange_ok ex1" "bb_assets (ex_balance_book ex1) = 0" "ms_keys (ex_markets ex1) = []"
    using create_accounts_ok [OF exchange_new_ok [of alloc, OF alloc], of n b fx] room(1) by (auto simp: new)
  obtain ex2 where 2: "list_assets b fx create_assets ex1 = Some (listing 0 create_assets, ex2)" "exchange_ok ex2"
    "ms_keys (ex_markets ex2) = []" "ex_traded_assets ex2 = ex_traded_assets ex1 @ listing 0 create_assets"
    using list_assets_ok [OF 1(2), of create_assets b fx] room(2) 1(3,4) by auto
  have "\<forall>a \<in> set (listing 0 create_assets). is_traded_asset (as_id a) ex2"
    by (auto simp: is_traded_asset_def list_ex_iff 2(4))
  from create_symbolic_markets_ok [OF 2(2) resolve pairs this, of fx] 2(3) distinct
  obtain ex3 where "create_symbolic_markets fx (listing 0 create_assets) create_markets ex2 = Some (markets, ex3)"
    "exchange_ok ex3" "ms_keys (ex_markets ex3) = markets"
    by auto
  with 1(1) 2(1) show ?thesis by (simp add: custom_def)
qed

section \<open>When the markets of a setup are refused\<close>

text \<open>A symbol that is not listed and a market named twice are the only reasons for a panic.\<close>

lemma unwrap_add_market:
  assumes "is_traded_asset (primary pair) ex" and "is_traded_asset (secondary pair) ex"
  shows "case unwrap_market (exchange_add_market fx pair ex) of
      None \<Rightarrow> pair \<in> set (ms_keys (ex_markets ex))
    | Some ex' \<Rightarrow> pair \<notin> set (ms_keys (ex_markets ex)) \<and> ex_traded_assets ex' = ex_traded_assets ex \<and>
        ms_keys (ex_markets ex') = ms_keys (ex_markets ex) @ [pair]"
  using assms
  by (simp add: exchange_add_market_def markets_add_market_def markets_contains_def unwrap_market_def)

lemma create_symbolic_markets_panics:
  "\<forall>a \<in> set assets. is_traded_asset (as_id a) ex \<Longrightarrow> distinct (ms_keys (ex_markets ex)) \<Longrightarrow>
   create_symbolic_markets fx assets ms ex \<noteq> None \<longleftrightarrow>
   (\<exists>markets. map (resolve assets) ms = map Some markets \<and> distinct (ms_keys (ex_markets ex) @ markets))"
proof (induction ms arbitrary: ex)
  case (Cons m ms)
  show ?case
  proof (cases "resolve assets m")
    case None
    then have "create_symbolic_markets fx assets (m # ms) ex = None"
      by (auto simp: resolve_def split: option.splits)
    with None show ?thesis by auto
  next
    case (Some pair)
    then have known: "is_traded_asset (primary pair) ex" "is_traded_asset (secondary pair) ex"
      by (auto simp: resolve_Some intro: symbol_traded [OF Cons.prems(1)])
    note step = unwrap_add_market [OF known, of fx]
    have first: "create_symbolic_markets fx assets (m # ms) ex =
        Option.bind (unwrap_market (exchange_add_market fx pair ex))
          (\<lambda>ex'. map_option (\<lambda>(markets, ex''). (pair # markets, ex'')) (create_symbolic_markets fx assets ms ex'))"
      using Some
      by (cases pair; cases "unwrap_market (exchange_add_market fx pair ex)")
        (auto simp: resolve_Some Let_def map_option_case split: option.split Option.bind_split)
    have split: "(\<exists>markets. map (resolve assets) (m # ms) = map Some markets \<and>
          distinct (ms_keys (ex_markets ex) @ markets)) \<longleftrightarrow>
        (\<exists>markets. map (resolve assets) ms = map Some markets \<and>
          distinct (ms_keys (ex_markets ex) @ pair # markets))"
      using Some by (auto simp: Cons_eq_map_conv intro: exI [of _ "pair # _"])
    show ?thesis
    proof (cases "unwrap_market (exchange_add_market fx pair ex)")
      case None
      with step show ?thesis unfolding split first by auto
    next
      case Some1: (Some ex1)
      with step have ex1: "pair \<notin> set (ms_keys (ex_markets ex))" "ex_traded_assets ex1 = ex_traded_assets ex"
        "ms_keys (ex_markets ex1) = ms_keys (ex_markets ex) @ [pair]" by simp_all
      have "create_symbolic_markets fx assets ms ex1 \<noteq> None \<longleftrightarrow>
          (\<exists>markets. map (resolve assets) ms = map Some markets \<and> distinct (ms_keys (ex_markets ex1) @ markets))"
        by (rule Cons.IH) (use Cons.prems ex1 in \<open>simp_all add: is_traded_asset_def\<close>)
      then show ?thesis unfolding split first by (simp add: Some1 ex1(3))
    qed
  qed
qed simp

lemma custom_panics:
  fixes fx :: "'p::linorder fixed_ops"
  assumes room: "n < 2 ^ 32" "length create_assets < 2 ^ 32" and alloc: "0 < alloc 100"
  shows "custom b fx alloc create_assets create_markets n \<noteq> None \<longleftrightarrow>
    (\<exists>markets. map (resolve (listing 0 create_assets)) create_markets = map Some markets \<and> distinct markets)"
proof -
  obtain ex1 where 1: "create_accounts b fx n (exchange_new alloc) = Some (map of_nat [0..<n], ex1)"
    "exchange_ok ex1" "bb_assets (ex_balance_book ex1) = 0" "ms_keys (ex_markets ex1) = []"
    using create_accounts_ok [OF exchange_new_ok [of alloc, OF alloc], of n b fx] room(1)
    by (auto simp: exchange_new_def bb_new_def markets_new_def)
  obtain ex2 where 2: "list_assets b fx create_assets ex1 = Some (listing 0 create_assets, ex2)"
    "ms_keys (ex_markets ex2) = []" "ex_traded_assets ex2 = ex_traded_assets ex1 @ listing 0 create_assets"
    using list_assets_ok [OF 1(2), of create_assets b fx] room(2) 1(3,4) by auto
  have "\<forall>a \<in> set (listing 0 create_assets). is_traded_asset (as_id a) ex2"
    by (auto simp: is_traded_asset_def list_ex_iff 2(3))
  note panics = create_symbolic_markets_panics [OF this, of fx create_markets]
  have "custom b fx alloc create_assets create_markets n \<noteq> None \<longleftrightarrow>
      create_symbolic_markets fx (listing 0 create_assets) create_markets ex2 \<noteq> None"
    using 1(1) 2(1)
    by (cases "create_symbolic_markets fx (listing 0 create_assets) create_markets ex2")
      (auto simp: custom_def split: prod.split)
  with panics 2(2) show ?thesis by simp
qed

end
