(* ===== verification/Exchange_Samples.thy ===== *)
theory Exchange_Samples
  imports Exchange_Configs Samples
begin

text \<open>
  A concrete exchange on which the properties of the exchange are shown to apply: two accounts, the
  assets EUR and USD with one market, and an order of account 0 asking 5 EUR at 2 USD each. The
  arithmetic is that of \<open>I33F31\<close> in a build without overflow checks.
\<close>

definition price :: "u32 \<Rightarrow> i33f31" where
  "price n = fx_from_u32 (i33f31_ops Release) n"

definition demo_clock :: clock where
  "demo_clock n = Some (1000 + n)"

definition demo_ask :: "i33f31 placed_order" where
  "demo_ask =
     \<lparr>po_id = 0, po_account_id = 0, po_pair = demo_pair, po_side = Ask, po_price = price 2,
      po_volume = 5, po_remaining_volume = 5, po_status = AwaitingFill\<rparr>"

definition demo_market :: "i33f31 market" where
  "demo_market =
     \<lparr>mk_asset_pair = demo_pair, mk_last_traded_price = price 0,
      mk_orderbook = \<lparr>bids = [], asks = [(price 2, [entry 0 0 5])]\<rparr>\<rparr>"

definition demo_exchange :: "i33f31 exchange" where
  "demo_exchange =
     \<lparr>ex_accounts = [(0, \<lparr>ac_id = 0, ac_username = ''''\<rparr>), (1, \<lparr>ac_id = 1, ac_username = ''''\<rparr>)],
      ex_traded_assets =
        [\<lparr>as_id = 0, as_name = ''Euro'', as_symbol = ''EUR''\<rparr>,
         \<lparr>as_id = 1, as_name = ''United States Dollar'', as_symbol = ''USD''\<rparr>],
      ex_balance_book = \<lparr>bb_accounts = 2, bb_assets = 2, bb_balances = [price 0, price 0, price 0, price 0]\<rparr>,
      ex_markets = \<lparr>ms_keys = [demo_pair], ms_inner = [demo_market]\<rparr>,
      ex_session_orders = [(0, demo_ask)],
      ex_last_100_tx = rt_with_capacity id 100,
      ex_transaction_buf = []\<rparr>"

definition demo_request :: "account_id \<Rightarrow> volume \<Rightarrow> u32 \<Rightarrow> i33f31 order_insertion_request" where
  "demo_request account v p =
     \<lparr>rq_account_id = account, rq_order_type = Limit, rq_pair = demo_pair, rq_side = Bid,
      rq_volume = v, rq_price = price p\<rparr>"

lemma demo_clock_runs: "\<forall>n. demo_clock n \<noteq> None"
  by (simp add: demo_clock_def)

lemma upt_2: "[0..<2] = [0, 1]"
  by (simp add: upt_rec)

lemma demo_exchange_ok: "exchange_ok demo_exchange"
proof -
  have "roster_ok demo_exchange"
    by (simp add: roster_ok_def demo_exchange_def bb_ok_def upt_2)
  moreover have "orders_ok demo_exchange"
    by (simp add: orders_ok_def demo_exchange_def demo_ask_def)
  moreover have "rt_ok (ex_last_100_tx demo_exchange)"
    by (simp add: demo_exchange_def rt_with_capacity_ok)
  moreover have "markets_ok (ex_markets demo_exchange)"
    by (simp add: markets_ok_def demo_exchange_def demo_market_def)
  moreover have "market_inv (ex_session_orders demo_exchange) demo_market"
    by (simp add: market_inv_def demo_market_def book_sorted_def book_uncrossed_def book_clean_def
        book_ids_def book_conf_def entry_conf_def order_at_def demo_exchange_def demo_ask_def
        entry_def clean_level_def)
  moreover have "listed (ex_balance_book demo_exchange) demo_pair"
    by (simp add: listed_def demo_exchange_def demo_pair_def)
  ultimately show ?thesis
    by (simp add: exchange_ok_def demo_exchange_def demo_market_def)
qed

section \<open>Evaluating the examples\<close>

lemma price_le [simp]: "price a \<le> price b \<longleftrightarrow> a \<le> b"
  by (simp add: price_def fixed_i33f31.bits_le fixed_i33f31.bits_from_u32 word_le_def)

lemma price_less [simp]: "price a < price b \<longleftrightarrow> a < b"
  by (simp add: price_le flip: not_le)

lemma price_eq [simp]: "price a = price b \<longleftrightarrow> a = b"
  by (simp add: order_eq_iff)

lemmas demo_exchange_defs = demo_exchange_def demo_market_def demo_pair_def demo_ask_def demo_request_def
  into_insertion_def entry_def

lemma demo_market_get: "markets_get (ex_markets demo_exchange) demo_pair = Some demo_market"
  by (simp add: demo_exchange_def demo_market_def markets_get_def)

lemma demo_verdict: "insert_verdict (demo_request 1 3 2) demo_exchange = Inr \<lparr>ie_id = 1, ie_status = Filled\<rparr>"
  by (simp add: insert_verdict_def demo_exchange_defs markets_get_def inserted_def check_volume_def
      crossing_queue_def opposite_queue_def price_out_of_reach_def Let_def flat_def)

text \<open>Account 1 buys 3 of the 5 EUR that account 0 asks for.\<close>

lemma demo_accepts:
  obtains ex' where "exchange_insert_order Release (i33f31_ops Release) demo_clock (demo_request 1 3 2) demo_exchange =
    Some (Inr \<lparr>ie_id = 1, ie_status = Filled\<rparr>, ex')"
  using fixed_i33f31.exchange_insert_verdict [OF demo_exchange_ok i33f31_Release_total demo_clock_runs,
      of "demo_request 1 3 2"]
  by (auto simp: demo_verdict)

text \<open>The order of account 0 cancelled.\<close>

definition demo_cancelled :: "i33f31 exchange" where
  "demo_cancelled = demo_exchange
     \<lparr>ex_markets := \<lparr>ms_keys = [demo_pair], ms_inner = [demo_market\<lparr>mk_orderbook := new_orderbook\<rparr>]\<rparr>,
      ex_session_orders := [(0, demo_ask\<lparr>po_status := Cancelled\<rparr>)]\<rparr>"

lemma demo_cancels:
  "exchange_cancel_order \<lparr>cr_account_id = 0, cr_order_id = 0\<rparr> demo_exchange = (Inr (), demo_cancelled)"
  by (simp add: demo_cancelled_def exchange_cancel_order_def demo_exchange_defs markets_get_def
      market_cancel_order_def into_cancellation_def ob_cancel_order_def store_level_def markets_store_def
      write_order_def new_orderbook_def Let_def)

lemma demo_cancelled_ok: "exchange_ok demo_cancelled"
  using exchange_cancel_ok [OF demo_exchange_ok, of "\<lparr>cr_account_id = 0, cr_order_id = 0\<rparr>"]
  by (simp add: demo_cancels)

lemma demo_cancelled_verdict:
  "insert_verdict (demo_request 1 3 2) demo_cancelled = Inr \<lparr>ie_id = 1, ie_status = AwaitingFill\<rparr>"
  by (simp add: insert_verdict_def demo_cancelled_def new_orderbook_def demo_exchange_defs markets_get_def
      inserted_def check_volume_def crossing_queue_def opposite_queue_def Let_def flat_def)

text \<open>The order of account 0 modified to 3 EUR.\<close>

definition demo_modified :: "i33f31 exchange" where
  "demo_modified = demo_exchange
     \<lparr>ex_markets := \<lparr>ms_keys = [demo_pair],
        ms_inner = [demo_market\<lparr>mk_orderbook := \<lparr>bids = [], asks = [(price 2, [entry 0 0 3])]\<rparr>\<rparr>]\<rparr>,
      ex_session_orders := [(0, demo_ask\<lparr>po_volume := 3\<rparr>)]\<rparr>"

definition demo_modification_request :: "volume \<Rightarrow> order_modification_request" where
  "demo_modification_request v = \<lparr>mr_account_id = 0, mr_order_id = 0, mr_new_volume = v\<rparr>"

lemma demo_modifies:
  "exchange_modify_order Release (demo_modification_request 3) demo_exchange = Some (Inr (), demo_modified)"
  by (simp add: demo_modified_def demo_modification_request_def exchange_modify_order_def demo_exchange_defs
      markets_get_def market_modify_order_def into_order_modification_def ob_modify_order_def store_level_def
      markets_store_def write_order_def modified_order_def u32_sub_def Let_def)

text \<open>A market of EUR with itself, and two asks of which the second is the incoming order's account's.\<close>

definition same_pair :: asset_id_pair where
  "same_pair = \<lparr>primary = 0, secondary = 0\<rparr>"

definition same_market :: "i33f31 market" where
  "same_market = demo_market\<lparr>mk_asset_pair := same_pair\<rparr>"

definition same_exchange :: "i33f31 exchange" where
  "same_exchange = demo_exchange
     \<lparr>ex_markets := \<lparr>ms_keys = [same_pair], ms_inner = [same_market]\<rparr>,
      ex_session_orders := [(0, demo_ask\<lparr>po_pair := same_pair\<rparr>)]\<rparr>"

definition two_asks :: "i33f31 exchange" where
  "two_asks = demo_exchange
     \<lparr>ex_markets := \<lparr>ms_keys = [demo_pair], ms_inner = [demo_market\<lparr>mk_orderbook :=
        \<lparr>bids = [], asks = [(price 2, [entry 0 1 5]), (price 3, [entry 1 0 5])]\<rparr>\<rparr>]\<rparr>,
      ex_session_orders := [(0, demo_ask\<lparr>po_account_id := 1\<rparr>), (1, demo_ask\<lparr>po_id := 1, po_price := price 3\<rparr>)]\<rparr>"

definition stale_trade :: "i33f31 ob_transaction" where
  "stale_trade =
     \<lparr>tx_price = price 2, tx_volume = 5, tx_taker_side = Bid, tx_order_id_maker = 0, tx_order_id_taker = 2\<rparr>"

definition after_self_trade :: "i33f31 exchange" where
  "after_self_trade = two_asks
     \<lparr>ex_markets := \<lparr>ms_keys = [demo_pair], ms_inner = [demo_market\<lparr>mk_orderbook :=
        \<lparr>bids = [], asks = [(price 2, []), (price 3, [entry 1 0 0])]\<rparr>\<rparr>]\<rparr>,
      ex_transaction_buf := [stale_trade]\<rparr>"

lemma two_asks_self_trade:
  "exchange_insert_order Release (i33f31_ops Release) demo_clock (demo_request 0 10 3) two_asks =
     Some (Inl SelfTrade, after_self_trade)"
  by (simp add: exchange_insert_order_def two_asks_def after_self_trade_def stale_trade_def demo_exchange_defs
      markets_get_def markets_store_def market_insert_order_def ob_insert_order_def check_volume_def
      price_out_of_reach_def Let_def trade_with_def match_level.simps min_def)

definition demo_modified_twice :: "i33f31 exchange" where
  "demo_modified_twice = demo_exchange
     \<lparr>ex_markets := \<lparr>ms_keys = [demo_pair],
        ms_inner = [demo_market\<lparr>mk_orderbook := \<lparr>bids = [], asks = [(price 2, [entry 0 0 2])]\<rparr>\<rparr>]\<rparr>,
      ex_session_orders := [(0, demo_ask\<lparr>po_volume := 3 - 5, po_status := Filled\<rparr>)]\<rparr>"

lemma demo_modifies_twice:
  "exchange_modify_order Release (demo_modification_request 2) demo_modified = Some (Inr (), demo_modified_twice)"
  by (simp add: demo_modified_def demo_modified_twice_def demo_modification_request_def exchange_modify_order_def
      demo_exchange_defs markets_get_def market_modify_order_def into_order_modification_def ob_modify_order_def
      store_level_def markets_store_def write_order_def modified_order_def u32_sub_def Let_def word_le_nat_alt
      word_less_nat_alt)

text \<open>The trade of the accepted order, before it is settled.\<close>

definition demo_trade :: "i33f31 ob_transaction" where
  "demo_trade =
     \<lparr>tx_price = price 2, tx_volume = 3, tx_taker_side = Bid, tx_order_id_maker = 0, tx_order_id_taker = 1\<rparr>"

definition demo_traded :: "i33f31 exchange" where
  "demo_traded = demo_exchange
     \<lparr>ex_session_orders := [(0, demo_ask), (1, from_insertion (into_insertion (demo_request 1 3 2) 1))]\<rparr>"

lemma price_bits: "i33f31_bits (price n) = uint n * 2 ^ 31"
  unfolding price_def by (rule fixed_i33f31.bits_from_u32)

lemma demo_traded_balances:
  assumes "k \<in> bb_cells (ex_balance_book demo_traded)"
  shows "balance_bits i33f31_bits (ex_balance_book demo_traded) k = 0"
proof -
  obtain account asset where k: "k = (account, asset)" by (cases k)
  have bk: "bb_ok (ex_balance_book demo_traded)" by (simp add: demo_traded_def demo_exchange_def bb_ok_def)
  have "bb_balances (ex_balance_book demo_traded) = replicate 4 (price 0)"
    by (simp add: demo_traded_def demo_exchange_def eval_nat_numeral)
  moreover have "bb_get_index (ex_balance_book demo_traded) asset account < 4"
    using get_index_lt [OF bk, of account asset] assms k by (simp add: calculation)
  ultimately show ?thesis
    using get_cell [OF bk, of account asset] assms
    by (simp add: k balance_bits_def bb_read_def price_bits)
qed

lemma demo_trade_ready: "ready_to_settle demo_pair [demo_trade] demo_traded"
proof -
  have "can_settle demo_pair (ex_session_orders demo_traded) (ex_balance_book demo_traded) demo_trade"
    by (simp add: can_settle_def demo_traded_def demo_trade_def demo_exchange_defs order_at_def
        from_insertion_def bb_cells_def)
  moreover have "traded_in i [demo_trade] \<le> unat (po_remaining_volume (order_at (ex_session_orders demo_traded) i))"
    if "i < length (ex_session_orders demo_traded)" for i
  proof -
    have "i = 0 \<or> i = 1" using that by (auto simp: demo_traded_def)
    then show ?thesis
      by (auto simp: demo_traded_def demo_trade_def demo_exchange_defs order_at_def from_insertion_def involves_def)
  qed
  ultimately show ?thesis
    using demo_exchange_ok by (simp add: ready_to_settle_def demo_traded_def exchange_ok_def roster_ok_def Let_def)
qed

lemma demo_fill:
  "fill (inserted (demo_request 1 3 2) demo_exchange) (rq_volume (demo_request 1 3 2))
     (crossing_queue (inserted (demo_request 1 3 2) demo_exchange) (mk_orderbook demo_market)) =
   Traded [demo_trade] 0 [(price 2, entry 0 0 2)]"
  by (simp add: demo_exchange_defs inserted_def crossing_queue_def opposite_queue_def price_out_of_reach_def
      flat_def demo_trade_def trade_with_def)

end
