(* ===== verification/Exchange_Server.thy ===== *)
theory Exchange_Server
  imports Exchange_Configs
begin

text \<open>
  The rest of \<open>src/bin/exchange_server.rs\<close> that is the program's own: the configuration with its
  defaults, the exchange \<open>main\<close> starts from it, and the WebSocket handler, which sends the assets
  once and then, at every interval, the best prices, the latest metrics and the recent transactions.

  Reading the configuration, the sockets, the histogram behind the metrics and logging are other code:
  the configuration and each reading of the metrics are arguments, and the encoder of \<open>rmp_serde\<close> is
  \<open>enc_assets\<close> and \<open>enc_state\<close>, \<open>None\<close> where it returns an error.
\<close>

section \<open>Starting\<close>

record exchange_server_config =
  cfg_tcp_buffer_size :: nat
  cfg_metrics_interval_ms :: u64
  cfg_ws_send_interval_ms :: u64
  cfg_bind_address_client :: string
  cfg_bind_address_websocket :: string
  cfg_starting_accounts :: nat
  cfg_starting_assets :: "new_asset list"
  cfg_starting_markets :: "asset_pair_symbolic list"

definition MB :: nat where
  "MB = 1048576"

definition default_server_config :: exchange_server_config where
  "default_server_config =
     \<lparr>cfg_tcp_buffer_size = MB div 2, cfg_metrics_interval_ms = 1000, cfg_ws_send_interval_ms = 500,
      cfg_bind_address_client = ''127.0.0.1:5555'', cfg_bind_address_websocket = ''127.0.0.1:5556'',
      cfg_starting_accounts = 2, cfg_starting_assets = [], cfg_starting_markets = []\<rparr>"

definition server_exchange ::
    "build \<Rightarrow> 'p fixed_ops \<Rightarrow> (nat \<Rightarrow> nat) \<Rightarrow> exchange_server_config \<Rightarrow> 'p exchange option" where
  "server_exchange b fx alloc config =
     (case custom b fx alloc (cfg_starting_assets config) (cfg_starting_markets config)
             (cfg_starting_accounts config) of
        None \<Rightarrow> None
      | Some (exchange, pairs, accounts) \<Rightarrow> Some exchange)"

section \<open>A WebSocket connection\<close>

record exchange_metrics =
  xm_timestamp :: u64
  xm_p50 :: u64
  xm_p90 :: u64
  xm_p999 :: u64

definition default_metrics :: exchange_metrics where
  "default_metrics = \<lparr>xm_timestamp = 0, xm_p50 = 0, xm_p90 = 0, xm_p999 = 0\<rparr>"

record 'p exchange_state =
  st_l1s :: "(asset_id_pair \<times> 'p orderbook_l1) list"
  st_metrics :: exchange_metrics
  st_last_100_tx :: "'p transaction list"

text \<open>\<open>if let Ok(bytes) = rmp_serde::to_vec(..)\<close>: what does not encode is not sent.\<close>

definition sent :: "'m option \<Rightarrow> 'm list" where
  "sent encoded = (case encoded of None \<Rightarrow> [] | Some bytes \<Rightarrow> [bytes])"

text \<open>
  One round of the loop. The handler shares the exchange with other clients: \<open>before\<close> are the buffers
  of theirs that the exchange handles before its first request, \<open>between\<close> those between its two.
\<close>

type_synonym 'p ws_round = "'p command_buffer list \<times> exchange_metrics \<times> 'p command_buffer list"

definition ws_round ::
    "build \<Rightarrow> 'p::linorder fixed_ops \<Rightarrow> clock \<Rightarrow> ('p exchange_state \<Rightarrow> bytes option) \<Rightarrow> 'p ws_round
     \<Rightarrow> 'p exchange \<Rightarrow> (bytes list \<times> 'p exchange) option" where
  "ws_round b fx clock enc_state r ex = (case r of (before, metrics, between) \<Rightarrow> do {
     ex1 \<leftarrow> snd (serve_chunk b fx clock before ex);
     (l1s, ex2) \<leftarrow> client_get_all_l1 b fx clock ex1;
     ex3 \<leftarrow> snd (serve_chunk b fx clock between ex2);
     (last_100_tx, ex4) \<leftarrow> client_get_last_100_transactions b fx clock ex3;
     Some (sent (enc_state \<lparr>st_l1s = l1s, st_metrics = metrics, st_last_100_tx = last_100_tx\<rparr>), ex4)
   })"

fun ws_loop ::
    "build \<Rightarrow> 'p::linorder fixed_ops \<Rightarrow> clock \<Rightarrow> ('p exchange_state \<Rightarrow> bytes option) \<Rightarrow> 'p ws_round list
     \<Rightarrow> 'p exchange \<Rightarrow> (bytes list \<times> 'p exchange) option" where
  "ws_loop b fx clock enc_state [] ex = Some ([], ex)"
| "ws_loop b fx clock enc_state (r # rounds) ex = do {
     (messages, ex') \<leftarrow> ws_round b fx clock enc_state r ex;
     (messages', ex'') \<leftarrow> ws_loop b fx clock enc_state rounds ex';
     Some (messages @ messages', ex'')
   }"

definition handle_connection_ws ::
    "build \<Rightarrow> 'p::linorder fixed_ops \<Rightarrow> clock \<Rightarrow> (asset list \<Rightarrow> bytes option) \<Rightarrow> ('p exchange_state \<Rightarrow> bytes option)
     \<Rightarrow> 'p ws_round list \<Rightarrow> 'p exchange \<Rightarrow> (bytes list \<times> 'p exchange) option" where
  "handle_connection_ws b fx clock enc_assets enc_state rounds ex = do {
     (all_assets, ex') \<leftarrow> client_get_assets b fx clock ex;
     (messages, ex'') \<leftarrow> ws_loop b fx clock enc_state rounds ex';
     Some (sent (enc_assets all_assets) @ messages, ex'')
   }"

text \<open>The commands of the other clients during the connection.\<close>

definition commands_of_others :: "'p ws_round list \<Rightarrow> 'p command_buffer" where
  "commands_of_others rounds = concat (concat (map (\<lambda>(before, metrics, between). before @ between) rounds))"

lemma client_queries:
  "client_get_assets b fx clock ex = Some (ex_traded_assets ex, ex)"
  "client_get_all_l1 b fx clock ex = map_option (\<lambda>l1s. (l1s, ex)) (get_all_orderbook_l1 b ex)"
  "client_get_last_100_transactions b fx clock ex = map_option (\<lambda>txs. (txs, ex)) (get_last_100_transactions ex)"
  by (simp_all add: client_get_assets_def client_get_all_l1_def client_get_last_100_transactions_def
      send_one query_def split: option.split)

lemma serve_chunk_state:
  "snd (serve_chunk b fx clock bufs ex) = Some ex' \<longleftrightarrow>
   (\<exists>results. handle_buffer b fx clock (concat bufs) ex = Some (results, ex'))"
proof (induction bufs arbitrary: ex)
  case (Cons buf bufs)
  show ?case
  proof (cases "handle_buffer b fx clock buf ex")
    case (Some r)
    obtain rs ex1 where r: "r = (rs, ex1)" by (cases r)
    with Some have "snd (serve_chunk b fx clock (buf # bufs) ex) = snd (serve_chunk b fx clock bufs ex1)"
      by (simp split: prod.split)
    with Cons.IH [of ex1] Some r show ?thesis by (auto simp: handle_buffer_append)
  qed (simp add: handle_buffer_append)
qed simp

lemma ws_round_state:
  assumes "ws_round b fx clock enc_state (before, metrics, between) ex = Some (messages, ex')"
  shows "\<exists>results. handle_buffer b fx clock (concat (before @ between)) ex = Some (results, ex')"
  using assms serve_chunk_state [of b fx clock "before @ between" ex ex']
  by (auto simp: ws_round_def client_queries thread.serve_append split: Option.bind_splits prod.splits option.splits)

lemma ws_loop_state:
  "ws_loop b fx clock enc_state rounds ex = Some (messages, ex') \<Longrightarrow>
   \<exists>results. handle_buffer b fx clock (commands_of_others rounds) ex = Some (results, ex')"
proof (induction rounds arbitrary: ex messages)
  case (Cons r rounds)
  obtain before metrics between where r: "r = (before, metrics, between)" by (cases r)
  from Cons.prems obtain ms ex1 ms' where one: "ws_round b fx clock enc_state (before, metrics, between) ex = Some (ms, ex1)"
    and rest: "ws_loop b fx clock enc_state rounds ex1 = Some (ms', ex')"
    by (auto simp: r split: Option.bind_splits)
  have "commands_of_others (r # rounds) = concat (before @ between) @ commands_of_others rounds"
    by (simp add: commands_of_others_def r)
  with ws_round_state [OF one] Cons.IH [OF rest] show ?case
    by (auto simp: handle_buffer_append [of _ _ _ "concat (before @ between)"] simp del: concat_append)
qed (simp add: commands_of_others_def)

end
