(* ===== verification/Service_Properties.thy ===== *)
theory Service_Properties
  imports Exchange_Samples Exchange_Server
begin

text \<open>
  The properties of the exchange's parts around the order book: the balance book, the log of recent
  transactions, the markets, the command loop, the client, the wire format and the setups.
\<close>

section \<open>The balance book\<close>

text \<open>C33: A balance written for an account and an asset is read back, and every other balance reads as
  before: no two cells share an index, and no index leaves the 64 bits of \<open>usize\<close>.\<close>

theorem balance_read_after_write:
  assumes "bb_ok bk" and "(account, asset) \<in> bb_cells bk" and "(account', asset') \<in> bb_cells bk"
  shows "\<exists>bk'. bb_write_mut account asset v bk = Some bk' \<and> bb_ok bk' \<and>
    bb_get account' asset' bk' =
      (if account' = account \<and> asset' = asset then Some v else bb_get account' asset' bk) \<and>
    bb_get_index bk asset account < 2 ^ 64"
proof -
  obtain bk' where w: "bb_write_mut account asset v bk = Some bk'"
    using get_index_lt [OF assms(1,2)] by (simp add: bb_write_mut_def Let_def)
  then have put: "bb_put (account, asset) v bk = bk'" by (simp add: bb_put_def)
  with balances.read_write [OF assms(1-3), of v] balances.write_ok [OF assms(1), of "(account, asset)" v]
  show ?thesis using w get_index_no_overflow [of bk asset account] by (auto simp: bb_read_def)
qed

theorem balance_read_after_write_witness:
  "\<exists>bk'. bb_write_mut 1 0 (7 :: int) \<lparr>bb_accounts = 2, bb_assets = 2, bb_balances = [1, 2, 3, 4]\<rparr> = Some bk' \<and>
     bb_get 0 1 bk' = Some 3"
proof -
  let ?bk = "\<lparr>bb_accounts = 2, bb_assets = 2, bb_balances = [1, 2, 3, 4 :: int]\<rparr>"
  have "\<exists>bk'. bb_write_mut 1 0 7 ?bk = Some bk' \<and> bb_ok bk' \<and>
      bb_get 0 1 bk' = (if (0 :: u32) = 1 \<and> (1 :: u32) = 0 then Some 7 else bb_get 0 1 ?bk) \<and>
      bb_get_index ?bk 0 1 < 2 ^ 64"
    by (rule balance_read_after_write) (simp_all add: bb_ok_def bb_cells_def)
  moreover have "bb_get 0 1 ?bk = Some 3" by (simp add: bb_get_def bb_get_index_def)
  ultimately show ?thesis by auto
qed

text \<open>A new account gets a zero balance in every asset and a new asset a zero balance for every
  account, and no other balance moves to a different account or asset, although inserting an account
  shifts the rows of the vector.\<close>

theorem new_rows_keep_balances:
  assumes "bb_ok bk" and "unat (bb_accounts bk) + 1 < 2 ^ 32" and "unat (bb_assets bk) + 1 < 2 ^ 32"
  shows "(\<exists>bk'. bb_add_account b zero bk = Some bk' \<and> bb_ok bk' \<and>
      unat (bb_accounts bk') = unat (bb_accounts bk) + 1 \<and> bb_assets bk' = bb_assets bk \<and>
      (\<forall>(account, asset) \<in> bb_cells bk. bb_get account asset bk' = bb_get account asset bk) \<and>
      (\<forall>asset < bb_assets bk. bb_get (bb_accounts bk) asset bk' = Some zero)) \<and>
    (\<exists>bk'. bb_add_asset b zero bk = Some bk' \<and> bb_ok bk' \<and>
      bb_accounts bk' = bb_accounts bk \<and> unat (bb_assets bk') = unat (bb_assets bk) + 1 \<and>
      (\<forall>(account, asset) \<in> bb_cells bk. bb_get account asset bk' = bb_get account asset bk) \<and>
      (\<forall>account < bb_accounts bk. bb_get account (bb_assets bk) bk' = Some zero))"
proof
  obtain bk' where "bb_add_account b zero bk = Some bk'" "bb_ok bk'"
    "unat (bb_accounts bk') = unat (bb_accounts bk) + 1" "bb_assets bk' = bb_assets bk"
    "\<And>k. k \<in> bb_cells bk \<Longrightarrow> bb_read k bk' = bb_read k bk"
    "\<And>asset. asset < bb_assets bk \<Longrightarrow> bb_read (bb_accounts bk, asset) bk' = Some zero"
    by (rule add_account_spec [OF assms(1,2), where b = b and zero = zero]) blast
  then show "\<exists>bk'. bb_add_account b zero bk = Some bk' \<and> bb_ok bk' \<and>
      unat (bb_accounts bk') = unat (bb_accounts bk) + 1 \<and> bb_assets bk' = bb_assets bk \<and>
      (\<forall>(account, asset) \<in> bb_cells bk. bb_get account asset bk' = bb_get account asset bk) \<and>
      (\<forall>asset < bb_assets bk. bb_get (bb_accounts bk) asset bk' = Some zero)"
    by (auto simp: bb_read_def)
next
  obtain bk' where "bb_add_asset b zero bk = Some bk'" "bb_ok bk'"
    "bb_accounts bk' = bb_accounts bk" "unat (bb_assets bk') = unat (bb_assets bk) + 1"
    "\<And>k. k \<in> bb_cells bk \<Longrightarrow> bb_read k bk' = bb_read k bk"
    "\<And>account. account < bb_accounts bk \<Longrightarrow> bb_read (account, bb_assets bk) bk' = Some zero"
    by (rule add_asset_spec [OF assms(1,3), where b = b and zero = zero]) blast
  then show "\<exists>bk'. bb_add_asset b zero bk = Some bk' \<and> bb_ok bk' \<and>
      bb_accounts bk' = bb_accounts bk \<and> unat (bb_assets bk') = unat (bb_assets bk) + 1 \<and>
      (\<forall>(account, asset) \<in> bb_cells bk. bb_get account asset bk' = bb_get account asset bk) \<and>
      (\<forall>account < bb_accounts bk. bb_get account (bb_assets bk) bk' = Some zero)"
    by (auto simp: bb_read_def)
qed

theorem new_rows_keep_balances_witness:
  "\<exists>bk'. bb_add_account Debug 0 \<lparr>bb_accounts = 2, bb_assets = 2, bb_balances = [1, 2, 3, 4 :: int]\<rparr> = Some bk' \<and>
     bb_get 2 0 bk' = Some 0 \<and> bb_get 1 1 bk' = Some 4"
proof -
  let ?bk = "\<lparr>bb_accounts = 2, bb_assets = 2, bb_balances = [1, 2, 3, 4 :: int]\<rparr>"
  have ok: "bb_ok ?bk" "unat (bb_accounts ?bk) + 1 < 2 ^ 32" "unat (bb_assets ?bk) + 1 < 2 ^ 32"
    by (simp_all add: bb_ok_def)
  obtain bk' where "bb_add_account Debug 0 ?bk = Some bk'"
    "\<forall>(account, asset) \<in> bb_cells ?bk. bb_get account asset bk' = bb_get account asset ?bk"
    "\<forall>asset < bb_assets ?bk. bb_get (bb_accounts ?bk) asset bk' = Some 0"
    using new_rows_keep_balances [OF ok, of Debug 0] by (elim exE conjE)
  moreover have "(1, 1) \<in> bb_cells ?bk" by (simp add: bb_cells_def)
  moreover have "bb_get 1 1 ?bk = Some 4" by (simp add: bb_get_def bb_get_index_def)
  ultimately show ?thesis by (intro exI [of _ bk']) (simp, fastforce)
qed

text \<open>C40: The balance book does not check the account. Asking for the balance of the first id that is
  no account in it answers with account 0's balance of the next asset. A named account is such an id:
  creating it does not enter it into the balance book.\<close>

theorem unknown_account_reads_next_asset:
  assumes "bb_accounts (ex_balance_book ex) = of_nat (length (ex_accounts ex))"
    and "0 < bb_accounts (ex_balance_book ex)" and "unat asset + 1 < 2 ^ 32"
  shows "case create_account_with_name name ex of (new_id, ex') \<Rightarrow>
    bb_get new_id asset (ex_balance_book ex') = bb_get 0 (asset + 1) (ex_balance_book ex')"
proof -
  have "unat (asset + 1) = unat asset + 1" using assms(3) by (subst unat_add_exact) simp_all
  with assms(1) show ?thesis
    by (simp add: create_account_with_name_def Let_def bb_get_def bb_get_index_def add.commute
        flip: assms(1))
qed

theorem unknown_account_reads_next_asset_witness:
  "case create_account_with_name ''alice'' demo_exchange of (new_id, ex') \<Rightarrow>
     new_id = 2 \<and> bb_get 2 0 (ex_balance_book ex') = bb_get 0 1 (ex_balance_book ex') \<and>
     bb_get 2 0 (ex_balance_book ex') \<noteq> None"
  using unknown_account_reads_next_asset [of demo_exchange 0 "''alice''"]
  by (simp add: demo_exchange_def create_account_with_name_def bb_get_def bb_get_index_def Let_def)

section \<open>Recent transactions\<close>

text \<open>C34: The ring buffer returns the last transactions pushed, oldest first, as many as its capacity,
  whatever the number pushed.\<close>

theorem recent_transactions_are_the_last:
  assumes "0 < alloc c"
  shows "\<exists>r. recent.push_all (ts :: 'a list) (rt_with_capacity alloc c) = Some r \<and>
    rt_get r = Some (last_n (alloc c) ts)"
proof -
  have ok: "rt_ok (rt_with_capacity alloc c :: 'a recent_transactions)"
    "rt_view (rt_with_capacity alloc c :: 'a recent_transactions) = []"
    by (simp_all add: rt_with_capacity_ok assms)
  obtain r where "recent.push_all ts (rt_with_capacity alloc c) = Some r" "rt_ok r"
    "rt_view r = last_n (rt_capacity (rt_with_capacity alloc c :: 'a recent_transactions)) ts"
    using recent.push_all_view [OF ok(1), of ts] unfolding ok(2) append_Nil by (elim exE conjE)
  moreover have "rt_capacity (rt_with_capacity alloc c :: 'a recent_transactions) = alloc c"
    by (simp add: rt_with_capacity_def)
  ultimately show ?thesis by (intro exI [of _ r] conjI) (simp_all only: recent.get_view)
qed

theorem recent_transactions_are_the_last_witness:
  "\<exists>r. recent.push_all [1, 2, 3, 4, 5 :: int] (rt_with_capacity id 3) = Some r \<and> rt_get r = Some [3, 4, 5]"
  using recent_transactions_are_the_last [of id 3 "[1, 2, 3, 4, 5 :: int]"]
  by (simp add: last_n_def)

section \<open>Markets\<close>

text \<open>At most one market per pair: adding a pair creates an empty market for it and leaves the
  other markets, adding it again is refused and changes nothing.\<close>

theorem add_market_is_unique:
  assumes "markets_ok ms"
  shows "markets_ok (snd (markets_add_market zero pair ms)) \<and>
    (if markets_get ms pair = None
     then fst (markets_add_market zero pair ms) = Inr () \<and>
       markets_get (snd (markets_add_market zero pair ms)) =
         (markets_get ms)(pair \<mapsto> market_new zero pair)
     else markets_add_market zero pair ms = (Inl MarketAlreadyExists, ms))"
  using add_market_spec [OF assms] add_market_ok [OF assms] by blast

theorem add_market_is_unique_witness:
  "fst (markets_add_market (0 :: int) demo_pair markets_new) = Inr () \<and>
   markets_get (snd (markets_add_market (0 :: int) demo_pair markets_new)) demo_pair = Some (market_new 0 demo_pair)"
  using add_market_is_unique [OF markets_new_ok, of "0 :: int" demo_pair]
  by (simp add: markets_get_def markets_new_def)

section \<open>Commands and the thread\<close>

lemma handle_buffer_queries:
  "list_all is_query cmds \<Longrightarrow> handle_buffer b fx clock cmds ex = Some (results, ex') \<Longrightarrow> ex' = ex"
  by (induction cmds arbitrary: ex results) (auto split: option.splits dest: query_keeps_state)

text \<open>C35: A buffer is answered command by command, in order, each result of its command's kind. A buffer
  of queries leaves the exchange as it is.\<close>

theorem buffer_answers_each_command:
  assumes "handle_buffer b fx clock cmds ex = Some (results, ex')"
  shows "list_all2 answers cmds results \<and> (list_all is_query cmds \<longrightarrow> ex' = ex)"
  using handle_buffer_answers [OF assms] handle_buffer_queries [OF _ assms] by blast

theorem buffer_answers_each_command_witness:
  "\<exists>results. handle_buffer Release (i33f31_ops Release) demo_clock
       [command.GetBalance 0 1, command.GetAssets] demo_exchange = Some (results, demo_exchange) \<and>
     map result_name results = [''GetBalance'', ''GetAssets'']"
proof -
  let ?rs = "[GetBalance (Some (price 0)), GetAssets (ex_traded_assets demo_exchange)]"
  have "handle_buffer Release (i33f31_ops Release) demo_clock
      [command.GetBalance 0 1, command.GetAssets] demo_exchange = Some (?rs, demo_exchange)"
    by (simp add: bb_get_def bb_get_index_def demo_exchange_def)
  from buffer_answers_each_command [OF this] this show ?thesis
    by (intro exI [of _ ?rs]) (simp add: answers_def)
qed

text \<open>How the buffers come in chunks makes no difference to the replies or to the final state. While
  nothing panics, serving the buffers one by one is handling all their commands as one batch, the
  results cut as the commands were.\<close>

theorem chunks_make_no_difference:
  assumes "[] \<notin> set chunks"
  shows "run_inner b fx clock chunks ex = serve_chunk b fx clock (concat chunks) ex \<and>
    (case run_inner b fx clock chunks ex of
       (replies, None) \<Rightarrow> length replies < length (concat chunks)
     | (replies, Some ex') \<Rightarrow>
         handle_buffer b fx clock (concat (concat chunks)) ex = Some (concat replies, ex') \<and>
         list_all2 (list_all2 answers) (concat chunks) replies)"
proof -
  show ?thesis
    using run_inner_serves [OF assms, of b fx clock ex] thread.answered_length [of b fx clock "concat chunks" ex]
      serve_chunk_all [of b fx clock "concat chunks" ex]
    by (auto split: prod.splits option.splits)
qed

theorem chunks_make_no_difference_witness:
  "run_inner Release (i33f31_ops Release) demo_clock
       [[[command.GetAssets], []], [[command.GetAssets]]] demo_exchange =
   serve_chunk Release (i33f31_ops Release) demo_clock
       [[command.GetAssets], [], [command.GetAssets]] demo_exchange"
  using chunks_make_no_difference [of "[[[command.GetAssets], []], [[command.GetAssets]]]" Release
      "i33f31_ops Release" demo_clock demo_exchange]
  by simp

text \<open>A call of the client is the operation of the exchange: no call ends in the branch marked
  unreachable, and a query answers from the state without changing it.\<close>

theorem client_calls_the_exchange:
  "client_insert_order b fx clock req ex = exchange_insert_order b fx clock req ex \<and>
   client_get_assets b fx clock ex = Some (ex_traded_assets ex, ex) \<and>
   client_get_balance b fx clock account_id asset_id ex =
     Some (bb_get account_id asset_id (ex_balance_book ex), ex) \<and>
   client_get_all_l1 b fx clock ex = map_option (\<lambda>l. (l, ex)) (get_all_orderbook_l1 b ex) \<and>
   client_get_last_100_transactions b fx clock ex =
     map_option (\<lambda>l. (l, ex)) (get_last_100_transactions ex)"
  by (simp add: client_insert_order_def client_get_assets_def client_get_balance_def client_get_all_l1_def
      client_get_last_100_transactions_def send_one query_def split: option.split prod.split)

section \<open>The wire\<close>

text \<open>C36: An encoded message decodes to itself, whatever follows it, and while a byte of it is missing the
  decoder waits and keeps the bytes. What does not fit into 65535 bytes is refused and writes nothing.\<close>

theorem codec_round_trip:
  assumes "\<forall>mp. to_vec item = Some mp \<longrightarrow> from_slice mp = Some item"
  shows "case mp_encode to_vec item dst of
      (Inl err, out) \<Rightarrow> out = dst \<and> (\<forall>mp. to_vec item = Some mp \<longrightarrow> 65535 < length mp)
    | (Inr _, out) \<Rightarrow>
        \<exists>msg. out = dst @ msg \<and> (\<forall>rest. mp_decode from_slice (msg @ rest) = (Inr (Some item), rest)) \<and>
          (\<forall>n < length msg. mp_decode from_slice (take n msg) = (Inr None, take n msg))"
proof (cases "mp_encode to_vec item dst")
  case (Pair res out)
  show ?thesis
  proof (cases res)
    case (Inl err)
    with Pair show ?thesis by (auto simp: mp_encode_def split: option.splits if_splits)
  next
    case (Inr u)
    with Pair obtain mp where mp: "to_vec item = Some mp" "length mp \<le> 2 ^ 16 - 1" "out = dst @ frame mp"
      by (auto simp: mp_encode_frame)
    with assms have "mp_decode from_slice (frame mp @ rest) = (Inr (Some item), rest)" for rest
      by (intro mp_decode_frame) simp_all
    moreover have "mp_decode from_slice (take n (frame mp)) = (Inr None, take n (frame mp))"
      if "n < length (frame mp)" for n
    proof (cases "n < 2")
      case False
      then obtain k where "n = Suc (Suc k)" by (cases n; cases "n - 1") auto
      with that mp(2) show ?thesis
        by (simp add: mp_decode_def frame_def Let_def to_be_bytes_def be_bytes_inverse unat_of_nat_u16)
    qed (use that in \<open>simp add: mp_decode_def\<close>)
    ultimately show ?thesis using Pair Inr mp(3) by auto
  qed
qed

theorem codec_round_trip_witness:
  "mp_decode (\<lambda>bs. Some bs) (snd (mp_encode (\<lambda>bs. Some bs) [7, 8] []) @ [9 :: u8]) = (Inr (Some [7, 8]), [9])"
proof -
  have "fst (mp_encode (\<lambda>bs. Some bs) [7, 8] []) = Inr ()" by (simp add: mp_encode_def)
  with codec_round_trip [of "\<lambda>bs. Some bs" "[7, 8 :: u8]" "\<lambda>bs. Some bs" "[]"] show ?thesis
    by (cases "mp_encode (\<lambda>bs. Some bs) [7, 8 :: u8] []") auto
qed

text \<open>End to end, a connection that returns has handled the commands of all messages the client sent,
  in order, and the bytes it sent back decode to the results, one reply per message, however the bytes
  of the connection were cut.\<close>

theorem connection_answers_in_order:
  assumes sent: "list_all2 (\<lambda>mp cmds. length mp \<le> 65535 \<and> from_slice mp = Some cmds) mps bufs"
    and cut: "concat pieces = concat (map frame mps)" and "pieces \<noteq> []"
    and inverse: "\<And>mp results. to_vec results = Some mp \<Longrightarrow> from_reply mp = Some results"
    and returns: "handle_connection b fx clock to_vec from_slice [] pieces ex = Some (out, ex')"
  shows "\<exists>replies. handle_buffer b fx clock (concat bufs) ex = Some (concat replies, ex') \<and>
    list_all2 (list_all2 answers) bufs replies \<and> drain from_reply out = (replies, None, [])"
proof -
  have "drain from_slice (concat pieces) = (bufs, None, [])"
    using drain_frames [of from_slice mps bufs "[]"] sent
    by (simp add: cut drain.simps [of _ "[]"] mp_decode_def)
  with handle_connection_drain [OF assms(3), of b fx clock to_vec from_slice ex] returns
  have "answer_frames b fx clock to_vec bufs ex = Some (out, ex')" by simp
  from answer_frames_results [OF this] obtain replies mps' where
    serve: "serve_chunk b fx clock bufs ex = (replies, Some ex')" and out: "out = concat (map frame mps')"
    and enc: "list_all2 (\<lambda>mp r. length mp \<le> 2 ^ 16 - 1 \<and> to_vec r = Some mp) mps' replies" by blast
  have "list_all2 (\<lambda>mp r. length mp \<le> 2 ^ 16 - 1 \<and> from_reply mp = Some r) mps' replies"
    by (rule list_all2_mono [OF enc]) (use inverse in blast)
  from drain_frames [OF this, of "[]"] have "drain from_reply out = (replies, None, [])"
    by (simp add: out drain.simps [of _ "[]"] mp_decode_def)
  with serve_chunk_all [OF serve] show ?thesis by blast
qed

theorem connection_answers_in_order_witness:
  "\<exists>out. handle_connection Release (i33f31_ops Release) demo_clock
       (\<lambda>r. if r = [GetAssets (ex_traded_assets demo_exchange)] then Some [] else None)
       (\<lambda>_. Some [command.GetAssets]) [] [[0], [0]] demo_exchange = Some (out, demo_exchange) \<and>
     drain (\<lambda>_. Some [GetAssets (ex_traded_assets demo_exchange) :: i33f31 command_result]) out =
       ([[GetAssets (ex_traded_assets demo_exchange)]], None, [])"
proof -
  let ?r = "[GetAssets (ex_traded_assets demo_exchange) :: i33f31 command_result]"
  let ?to = "\<lambda>r. if r = ?r then Some [] else None" and ?from = "\<lambda>_ :: bytes. Some [command.GetAssets]"
  let ?out = "[0, 0] :: bytes"
  have returns: "handle_connection Release (i33f31_ops Release) demo_clock ?to ?from [] [[0], [0]] demo_exchange =
      Some (?out, demo_exchange)"
    by (simp add: drain.simps mp_decode_def from_be_bytes_def send_commands_handles mp_encode_def to_be_bytes_def)
  have "\<exists>replies. handle_buffer Release (i33f31_ops Release) demo_clock (concat [[command.GetAssets]])
        demo_exchange = Some (concat replies, demo_exchange) \<and>
      list_all2 (list_all2 answers) [[command.GetAssets]] replies \<and>
      drain (\<lambda>_. Some ?r) ?out = (replies, None, [])"
    by (rule connection_answers_in_order [where mps = "[[]]" and from_slice = ?from, OF _ _ _ _ returns])
      (simp_all add: frame_def to_be_bytes_def split: if_splits)
  then obtain replies where "concat replies = ?r" "list_all2 (list_all2 answers) [[command.GetAssets]] replies"
    "drain (\<lambda>_. Some ?r) ?out = (replies, None, [])" by auto
  moreover from this(1,2) have "replies = [?r]" by (auto simp: list_all2_Cons1)
  ultimately show ?thesis using returns by (intro exI [of _ ?out]) simp
qed

text \<open>C37: A reply that does not fit into a frame kills the connection after its commands have taken
  effect: the exchange has handled the buffer, the client never gets the results.\<close>

theorem oversized_reply_is_lost:
  assumes "handle_buffer b fx clock cmds ex = Some (results, ex')"
    and "to_vec results = Some reply" and "65535 < length reply"
    and "from_slice mp = Some cmds" and "length mp \<le> 65535"
  shows "handle_connection b fx clock to_vec from_slice [] [frame mp] ex = None \<and>
    serve_chunk b fx clock [cmds] ex = ([results], Some ex')"
proof -
  have "drain from_slice (frame mp) = ([cmds], None, [])"
    using drain_frames [of from_slice "[mp]" "[cmds]" "[]"] assms(4,5)
    by (simp add: drain.simps [of _ "[]"] mp_decode_def)
  then show ?thesis using assms(1-3) by (simp add: send_commands_handles mp_encode_def)
qed

theorem oversized_reply_is_lost_witness:
  "handle_connection Release (i33f31_ops Release) demo_clock (\<lambda>_. Some (replicate 65536 0))
     (\<lambda>_. Some [command.GetAssets]) [] [frame []] demo_exchange = None"
proof -
  have "handle_buffer Release (i33f31_ops Release) demo_clock [command.GetAssets] demo_exchange =
      Some ([GetAssets (ex_traded_assets demo_exchange)], demo_exchange)" by simp
  then have "handle_connection Release (i33f31_ops Release) demo_clock (\<lambda>_. Some (replicate 65536 0))
     (\<lambda>_. Some [command.GetAssets]) [] [frame []] demo_exchange = None \<and>
     serve_chunk Release (i33f31_ops Release) demo_clock [[command.GetAssets]] demo_exchange =
       ([[GetAssets (ex_traded_assets demo_exchange)]], Some demo_exchange)"
    by (rule oversized_reply_is_lost) (simp_all only: length_replicate, simp_all)
  then show ?thesis by simp
qed

text \<open>C39: A WebSocket connection only reads: whatever rounds it goes through, the exchange ends in the state
  the other clients' commands alone lead to, and at most one message is sent per round, after the assets.\<close>

theorem websocket_only_reads:
  assumes "handle_connection_ws b fx clock enc_assets enc_state rounds ex = Some (messages, ex')"
  shows "(\<exists>results. handle_buffer b fx clock (commands_of_others rounds) ex = Some (results, ex')) \<and>
    length messages \<le> Suc (length rounds)"
proof -
  from assms obtain ms where loop: "ws_loop b fx clock enc_state rounds ex = Some (ms, ex')"
    and messages: "messages = sent (enc_assets (ex_traded_assets ex)) @ ms"
    by (auto simp: handle_connection_ws_def client_queries split: Option.bind_splits)
  have "length ms \<le> length rounds"
    using loop
    by (induction rounds arbitrary: ex ms)
      (force simp: ws_round_def sent_def split: Option.bind_splits prod.splits option.splits)+
  with ws_loop_state [OF loop] show ?thesis by (simp add: messages sent_def split: option.split)
qed

theorem websocket_only_reads_witness:
  "\<exists>messages ex'. handle_connection_ws Release (i33f31_ops Release) demo_clock (\<lambda>_. Some [1]) (\<lambda>_. Some [2])
       [([[command.GetAssets]], default_metrics, [])] demo_exchange = Some (messages, ex') \<and>
     ex' = demo_exchange \<and> length messages \<le> 2"
proof -
  let ?rounds = "[([[command.GetAssets]], default_metrics, [])]"
  obtain l1s where "get_all_orderbook_l1 Release demo_exchange = Some l1s"
    using collect_l1_Release by (auto simp: get_all_orderbook_l1_def)
  moreover have "rt_ok (ex_last_100_tx demo_exchange)"
    using demo_exchange_ok by (simp add: exchange_ok_def)
  then obtain txs where "get_last_100_transactions demo_exchange = Some txs"
    using recent.get_view by (auto simp: get_last_100_transactions_def)
  ultimately obtain messages ex' where run: "handle_connection_ws Release (i33f31_ops Release) demo_clock
      (\<lambda>_. Some [1]) (\<lambda>_. Some [2]) ?rounds demo_exchange = Some (messages, ex')"
    by (simp add: handle_connection_ws_def ws_round_def client_queries)
  from websocket_only_reads [OF run] run show ?thesis by (auto simp: commands_of_others_def)
qed

section \<open>Setups\<close>

text \<open>A custom setup whose symbols are known and whose markets are distinct, none of an asset with
  itself, does not panic. The accounts and assets get their ids by position, the markets are the ones
  asked for, and the exchange it starts is a consistent one.\<close>

theorem custom_setup_is_consistent:
  assumes "n < 2 ^ 32" and "length create_assets < 2 ^ 32" and "0 < alloc 100"
    and "map (resolve (listing 0 create_assets)) create_markets = map Some markets"
    and "\<forall>pair \<in> set markets. primary pair \<noteq> secondary pair" and "distinct markets"
  shows "\<exists>ex. custom b fx alloc create_assets create_markets n = Some (ex, markets, map of_nat [0..<n]) \<and>
    exchange_ok ex \<and> ms_keys (ex_markets ex) = markets"
  by (rule custom_ok) (use assms in simp_all)

theorem custom_setup_is_consistent_witness:
  "\<exists>ex. custom Debug (i33f31_ops Debug) id
       [\<lparr>na_name = ''Euro'', na_symbol = ''eur''\<rparr>, \<lparr>na_name = ''Dollar'', na_symbol = ''USD''\<rparr>]
       [\<lparr>ps_primary = ''EUR'', ps_secondary = ''usd''\<rparr>] 2 = Some (ex, [demo_pair], [0, 1]) \<and> exchange_ok ex"
proof -
  let ?assets = "[\<lparr>na_name = ''Euro'', na_symbol = ''eur''\<rparr>, \<lparr>na_name = ''Dollar'', na_symbol = ''USD''\<rparr>]"
  let ?markets = "[\<lparr>ps_primary = ''EUR'', ps_secondary = ''usd''\<rparr>]"
  have "to_uppercase ''eur'' = ''EUR''" "to_uppercase ''usd'' = ''USD''" "to_uppercase ''EUR'' = ''EUR''"
    "to_uppercase ''USD'' = ''USD''" by code_simp+
  then have "map (resolve (listing 0 ?assets)) ?markets = map Some [demo_pair]"
    by (simp add: resolve_def asset_of_symbol_def demo_pair_def)
  then have "\<exists>ex. custom Debug (i33f31_ops Debug) id ?assets ?markets 2 =
      Some (ex, [demo_pair], map of_nat [0..<2]) \<and> exchange_ok ex \<and> ms_keys (ex_markets ex) = [demo_pair]"
    by (intro custom_setup_is_consistent) (simp_all add: demo_pair_def)
  then show ?thesis by (auto simp: upt_2)
qed

end
