(* ===== verification/Conservation.thy ===== *)
theory Conservation
  imports Command_Loop
begin

text \<open>
  Conservation: the total of an asset over all accounts, in bits of the fixed-point number and up to
  the wrap-around of 64 bits, is the same after every command. A transaction is a double entry, so its
  postings cancel; nothing else touches the balances.
\<close>

definition asset_total :: "('p \<Rightarrow> int) \<Rightarrow> asset_id \<Rightarrow> 'p balance_book \<Rightarrow> int" where
  "asset_total bits asset bk = balances.total bits ((\<lambda>account. (account, asset)) ` {..<bb_accounts bk}) bk"

lemma asset_total_sum:
  "asset_total bits asset bk = (\<Sum>account < bb_accounts bk. balance_bits bits bk (account, asset))"
  by (simp add: asset_total_def balances.total_def balance_bits_def sum.reindex inj_on_def)

lemma moved_total:
  assumes "moved bits bk bk' delta" and "asset < bb_assets bk"
  shows "asset_total bits asset bk' mod 2 ^ 64 =
    (asset_total bits asset bk + (\<Sum>account < bb_accounts bk. delta (account, asset))) mod 2 ^ 64"
proof -
  have "(account, asset) \<in> bb_cells bk" if "account \<in> {..<bb_accounts bk}" for account
    using that assms(2) by (simp add: bb_cells_def)
  then have "(\<Sum>account < bb_accounts bk. balance_bits bits bk' (account, asset) mod 2 ^ 64) =
    (\<Sum>account < bb_accounts bk. (balance_bits bits bk (account, asset) + delta (account, asset)) mod 2 ^ 64)"
    using assms(1) unfolding moved_def by (intro sum.cong refl) blast
  then have "(\<Sum>account < bb_accounts bk. balance_bits bits bk' (account, asset)) mod 2 ^ 64 =
    (\<Sum>account < bb_accounts bk. balance_bits bits bk (account, asset) + delta (account, asset)) mod 2 ^ 64"
    by (subst (1 2) mod_sum_eq [symmetric]) (rule arg_cong [where f = "\<lambda>x. x mod 2 ^ 64"])
  moreover have "bb_accounts bk' = bb_accounts bk" using assms(1) by (simp add: moved_def)
  ultimately show ?thesis by (simp add: asset_total_sum sum.distrib)
qed

lemma sum_entry_of:
  assumes "account < (n :: account_id)"
  shows "(\<Sum>a < n. entry_of (account, s) x (a, asset)) = (if s = asset then x else 0)"
proof -
  have "(\<Sum>a < n. entry_of (account, s) x (a, asset)) = (\<Sum>a < n. if a = account then (if s = asset then x else 0) else 0)"
    by (intro sum.cong) (auto simp: entry_of_def)
  also have "\<dots> = (if s = asset then x else 0)" using assms by (subst sum.delta) simp_all
  finally show ?thesis .
qed

lemma double_entry_cancels:
  assumes "maker_id < n" and "taker_id < n"
  shows "(\<Sum>a < n. double_entry pair sd maker_id taker_id x y (a, asset)) = 0"
  using assms by (cases sd) (simp_all add: double_entry_def sum.distrib sum_entry_of)

lemma postings_cancel:
  assumes "\<And>t. t \<in> set ts \<Longrightarrow> po_account_id (order_at orders (tx_order_id_maker t)) < n \<and>
    po_account_id (order_at orders (tx_order_id_taker t)) < n"
  shows "(\<Sum>a < n. postings fx bits pair orders ts (a, asset)) = 0"
  using assms
proof (induction ts)
  case (Cons t ts)
  then have "(\<Sum>a < n. posting fx bits pair orders t (a, asset)) = 0"
    by (simp add: posting_def double_entry_cancels)
  with Cons show ?case by (simp add: sum.distrib)
qed simp

lemma settled_conserves:
  assumes set: "settled fx bits clock pair (rev ts) ex ex'" and ready: "ready_to_settle pair ts ex"
    and "asset < bb_assets (ex_balance_book ex)"
  shows "asset_total bits asset (ex_balance_book ex') mod 2 ^ 64 =
    asset_total bits asset (ex_balance_book ex) mod 2 ^ 64"
proof -
  let ?bk = "ex_balance_book ex" and ?orders = "ex_session_orders ex"
  have "po_account_id (order_at ?orders (tx_order_id_maker t)) < bb_accounts ?bk \<and>
      po_account_id (order_at ?orders (tx_order_id_taker t)) < bb_accounts ?bk" if "t \<in> set ts" for t
    using that ready by (auto simp: ready_to_settle_def can_settle_def Let_def bb_cells_def)
  from postings_cancel [OF this, where ts = ts and fx = fx and bits = bits and pair = pair and asset = asset]
  have "(\<Sum>a < bb_accounts ?bk. postings fx bits pair ?orders ts (a, asset)) = 0" by blast
  moreover have "moved bits ?bk (ex_balance_book ex') (postings fx bits pair ?orders ts)"
    using set by (simp add: settled_def Let_def fun_eq_iff moved_def)
  ultimately show ?thesis using moved_total [OF _ assms(3)] by fastforce
qed

text \<open>A refused insertion changes the market's book and the transaction buffer at most.\<close>

lemma refused_insertion:
  assumes "exchange_insert_order b fx clock req ex = Some (Inl err, ex')"
  shows "ex_balance_book ex' = ex_balance_book ex" and "ex_session_orders ex' = ex_session_orders ex"
    and "ex_last_100_tx ex' = ex_last_100_tx ex" and "ex_accounts ex' = ex_accounts ex"
    and "ex_traded_assets ex' = ex_traded_assets ex"
  using assms by (auto simp: exchange_insert_order_def Let_def split: option.splits if_splits sum.splits)

lemma cancel_keeps_balances:
  "exchange_cancel_order req ex = (res, ex') \<Longrightarrow> ex_balance_book ex' = ex_balance_book ex"
  by (auto simp: exchange_cancel_order_def Let_def split: option.splits if_splits sum.splits prod.splits)

lemma modify_keeps_balances:
  "exchange_modify_order b req ex = Some (res, ex') \<Longrightarrow> ex_balance_book ex' = ex_balance_book ex"
  by (auto simp: exchange_modify_order_def Let_def split: option.splits if_splits sum.splits prod.splits)

lemma add_market_keeps_balances:
  "exchange_add_market fx pair ex = (res, ex') \<Longrightarrow> ex_balance_book ex' = ex_balance_book ex"
  by (auto simp: exchange_add_market_def split: if_splits prod.splits)

context fixed_price
begin

lemma handle_command_conserves:
  assumes ok: "exchange_ok ex" and total: "fx_total fx" and clock: "\<forall>n. clock n \<noteq> None"
    and run: "handle_command Release fx clock cmd ex = Some (result, ex')"
    and asset: "asset < bb_assets (ex_balance_book ex)"
  shows "asset_total bits asset (ex_balance_book ex') mod 2 ^ 64 =
    asset_total bits asset (ex_balance_book ex) mod 2 ^ 64"
proof (cases cmd)
  case (OrderInsert req)
  with run obtain res where res: "exchange_insert_order Release fx clock req ex = Some (res, ex')" by auto
  show ?thesis
  proof (cases rule: exchange_insert_cases [OF ok total clock, of req, case_names rejected self_trade settled])
    case (rejected err)
    with res show ?thesis by simp
  next
    case (self_trade ex1)
    with res have "exchange_insert_order Release fx clock req ex = Some (Inl SelfTrade, ex')" by simp
    from refused_insertion(1) [OF this] show ?thesis by simp
  next
    case (settled market market' ts m r ex1)
    then have "ex' = ex1" using res by simp
    with settled_conserves [OF settled(8,11)] asset show ?thesis by (simp add: before_settlement_def)
  qed
next
  case (OrderCancel req)
  with run show ?thesis by (auto split: prod.splits dest: cancel_keeps_balances)
next
  case (OrderModify req)
  with run show ?thesis by (auto dest: modify_keeps_balances)
next
  case (AddMarket pair)
  with run show ?thesis by (auto split: prod.splits dest: add_market_keeps_balances)
qed (use run in \<open>auto simp: query_def\<close>)

end

end
