(* ===== verification/Order_Lifecycle.thy ===== *)
theory Order_Lifecycle
  imports Conservation
begin

text \<open>
  What becomes of an order of the session after it was cancelled: it is in no book, no command changes
  it any more, and no transaction involves it.
\<close>

lemma cancelled_not_in_book:
  assumes ok: "exchange_ok ex" and cancelled: "po_status (order_at (ex_session_orders ex) i) = Cancelled"
    and get: "markets_get (ex_markets ex) pair = Some market"
  shows "i \<notin> set (book_ids (mk_orderbook market))"
  using exchange_ok_market(1) [OF ok get] cancelled
  by (force simp: market_inv_def Let_def book_conf_def book_ids_def entry_ids_def entry_conf_def)

lemma cancelled_not_resting:
  assumes "exchange_ok ex" and "po_status (order_at (ex_session_orders ex) i) = Cancelled"
    and "markets_get (ex_markets ex) pair = Some market"
  shows "\<not> resting side price i (mk_orderbook market)"
  using cancelled_not_in_book [OF assms]
  by (cases side) (force simp: resting_def book_ids_def entry_ids_def)+

lemma cancelled_not_involved:
  assumes fill: "fill order n (crossing_queue order ob) = Traded ts m r"
    and conf: "book_conf orders pair ob" and "oi_id order = length orders"
    and "i < length orders" and "po_status (order_at orders i) = Cancelled"
  shows "\<not> (\<exists>t \<in> set ts. involves i t)"
proof
  assume "\<exists>t \<in> set ts. involves i t"
  then obtain t where t: "t \<in> set ts" "involves i t" by blast
  from trade_conf [OF fill conf t(1)] obtain e where "tx_order_id_maker t = en_order_id e"
    "tx_order_id_taker t = oi_id order" "entry_conf orders pair (opposite (oi_side order)) (tx_price t, e)"
    by blast
  with t(2) assms(3-5) show False by (simp add: involves_def entry_conf_def Let_def)
qed

lemma order_after_not_involved: "\<not> (\<exists>t \<in> set ts. involves i t) \<Longrightarrow> order_after i ts order = order"
  by (simp add: order_after_def)

context fixed_price
begin

lemma cancelled_insert:
  assumes ok: "exchange_ok ex" and i: "i < length (ex_session_orders ex)"
    and cancelled: "po_status (order_at (ex_session_orders ex) i) = Cancelled"
    and total: "fx_total fx" and clock: "\<forall>n. clock n \<noteq> None"
    and run: "exchange_insert_order Release fx clock req ex = Some (res, ex')"
  shows "i < length (ex_session_orders ex') \<and>
    order_at (ex_session_orders ex') i = order_at (ex_session_orders ex) i"
proof (cases rule: exchange_insert_cases [OF ok total clock, of req, case_names rejected self_trade settled])
  case (rejected err)
  with run i show ?thesis by simp
next
  case (self_trade ex1)
  with run have "exchange_insert_order Release fx clock req ex = Some (Inl SelfTrade, ex')" by simp
  from refused_insertion(2) [OF this] i show ?thesis by simp
next
  case (settled market market' ts m r ex1)
  let ?ex = "before_settlement (inserted req ex) (rq_pair req) market' ts ex"
  have ex1: "ex' = ex1" using run settled(10) by simp
  have conf: "book_conf (ex_session_orders ex) (rq_pair req) (mk_orderbook market)"
    using exchange_ok_market(1,3) [OF ok settled(1)] by (simp add: market_inv_def Let_def)
  have "order_after i ts (order_at (ex_session_orders ex) i) = order_at (ex_session_orders ex) i"
    by (rule order_after_not_involved [OF cancelled_not_involved [OF settled(4) conf _ i cancelled]]) simp
  moreover have "order_at (ex_session_orders ?ex) i = order_at (ex_session_orders ex) i"
    using i by (simp add: before_settlement_def order_at_append)
  moreover have "i < length (ex_session_orders ?ex)" using i by (simp add: before_settlement_def)
  ultimately show ?thesis
    using settled(8) settled_length [OF settled(8)] unfolding settled_def Let_def ex1 by simp
qed

lemma cancelled_cancel:
  assumes ok: "exchange_ok ex" and i: "i < length (ex_session_orders ex)"
    and cancelled: "po_status (order_at (ex_session_orders ex) i) = Cancelled"
    and run: "exchange_cancel_order req ex = (res, ex')"
  shows "i < length (ex_session_orders ex') \<and>
    order_at (ex_session_orders ex') i = order_at (ex_session_orders ex) i"
proof (cases rule: exchange_cancel_cases [OF ok, of req, case_names rejected cancelled])
  case (rejected err)
  with run i show ?thesis by simp
next
  case (cancelled order market ls)
  then have "i \<noteq> cr_order_id req"
    using \<open>po_status _ = Cancelled\<close> by (auto simp: cancel_verdict_def Let_def split: if_splits)
  with cancelled run i show ?thesis by (simp add: order_at_write)
qed

lemma cancelled_modify:
  assumes ok: "exchange_ok ex" and i: "i < length (ex_session_orders ex)"
    and cancelled: "po_status (order_at (ex_session_orders ex) i) = Cancelled"
    and run: "exchange_modify_order Release req ex = Some (res, ex')"
  shows "i < length (ex_session_orders ex') \<and>
    order_at (ex_session_orders ex') i = order_at (ex_session_orders ex) i"
proof (cases rule: exchange_modify_cases [OF ok, of req Release, case_names rejected modified])
  case (rejected err)
  with run i show ?thesis by simp
next
  case (modified order market ls)
  then have "resting (po_side order) (po_price order) (mr_order_id req) (mk_orderbook market)"
    by (auto simp: modify_verdict_def Let_def split: if_splits)
  with cancelled_not_resting [OF ok cancelled] modified(2,4) have "i \<noteq> mr_order_id req" by blast
  moreover obtain order' where "ex_session_orders ex' = write_order (mr_order_id req) order' (ex_session_orders ex)"
    using modified(9) run by (cases "modified_order Release (mr_new_volume req) order") auto
  ultimately show ?thesis using i by (simp add: order_at_write [OF modified(1)])
qed

lemma cancelled_step:
  assumes ok: "exchange_ok ex" and i: "i < length (ex_session_orders ex)"
    and cancelled: "po_status (order_at (ex_session_orders ex) i) = Cancelled"
    and total: "fx_total fx" and clock: "\<forall>n. clock n \<noteq> None"
    and run: "handle_command Release fx clock cmd ex = Some (result, ex')"
  shows "i < length (ex_session_orders ex') \<and>
    order_at (ex_session_orders ex') i = order_at (ex_session_orders ex) i"
proof (cases cmd)
  case (OrderInsert req)
  with run cancelled_insert [OF ok i cancelled total clock] show ?thesis by auto
next
  case (OrderCancel req)
  with run cancelled_cancel [OF ok i cancelled] show ?thesis by (auto split: prod.splits)
next
  case (OrderModify req)
  with run cancelled_modify [OF ok i cancelled] show ?thesis by auto
next
  case (AddMarket pair)
  with run i show ?thesis
    by (auto simp: exchange_add_market_def split: prod.splits if_splits)
qed (use run i in \<open>auto simp: query_def\<close>)

text \<open>The same over a list of commands without a self-trade.\<close>

lemma cancelled_stays:
  assumes total: "fx_total fx" and clock: "\<forall>n. clock n \<noteq> None"
  shows "exchange_ok ex \<Longrightarrow> i < length (ex_session_orders ex) \<Longrightarrow>
    po_status (order_at (ex_session_orders ex) i) = Cancelled \<Longrightarrow> list_all proper cmds \<Longrightarrow>
    handle_buffer Release fx clock cmds ex = Some (results, ex') \<Longrightarrow> \<not> list_ex is_self_trade results \<Longrightarrow>
    exchange_ok ex' \<and> i < length (ex_session_orders ex') \<and>
    order_at (ex_session_orders ex') i = order_at (ex_session_orders ex) i"
proof (induction cmds arbitrary: ex results)
  case (Cons cmd cmds)
  from Cons.prems(5) obtain r ex1 rs where run: "handle_command Release fx clock cmd ex = Some (r, ex1)"
    and rest: "handle_buffer Release fx clock cmds ex1 = Some (rs, ex')" and rs: "results = r # rs"
    by (auto split: option.splits)
  have one: "i < length (ex_session_orders ex1)"
    "order_at (ex_session_orders ex1) i = order_at (ex_session_orders ex) i"
    using cancelled_step [OF Cons.prems(1-3) total clock run] by blast+
  have "exchange_ok ex1"
    using handle_command_ok [OF Cons.prems(1) total clock, of cmd] run Cons.prems(4,6) rs by auto
  from Cons.IH [OF this one(1) _ _ rest] one Cons.prems(3,4,6) rs show ?case by simp
qed simp

end

end
