(* ===== verification/Settlement_Exact.thy ===== *)
theory Settlement_Exact
  imports Settlement
begin

text \<open>
  Settlement within the range of the fixed-point number. In any build, when volume times price and the
  four balances afterwards are in range, settling a transaction does not panic and nothing wraps: every
  balance moves by exactly its amount. Each of the four cells is touched once, so the order of the updates
  does not matter and only the final balances need to be in range.
\<close>

definition shifted ::
    "('p \<Rightarrow> int) \<Rightarrow> 'p balance_book \<Rightarrow> 'p balance_book \<Rightarrow> (account_id \<times> asset_id \<Rightarrow> int) \<Rightarrow> bool" where
  "shifted bits bk bk' delta \<longleftrightarrow>
     bb_ok bk' \<and> bb_accounts bk' = bb_accounts bk \<and> bb_assets bk' = bb_assets bk \<and>
     (\<forall>k \<in> bb_cells bk. balance_bits bits bk' k = balance_bits bits bk k + delta k)"

lemma shifted_moved: "shifted bits bk bk' d \<Longrightarrow> moved bits bk bk' d"
  by (simp add: shifted_def moved_def)

lemma shifted_same:
  assumes "shifted bits bk bk' d"
  shows "bb_ok bk'" and "bb_cells bk' = bb_cells bk" and "bb_get_index bk' = bb_get_index bk"
  using assms by (simp_all add: shifted_def bb_cells_def bb_get_index_def fun_eq_iff)

text \<open>An operation on a balance that adds an amount to it when the balance is the one in the book.\<close>

definition adds ::
    "('p \<Rightarrow> int) \<Rightarrow> 'p balance_book \<Rightarrow> account_id \<times> asset_id \<Rightarrow> ('p \<Rightarrow> 'p option) \<Rightarrow> int \<Rightarrow> bool" where
  "adds bits bk k f amount \<longleftrightarrow>
     k \<in> bb_cells bk \<and>
     (\<forall>x. bits x = balance_bits bits bk k \<longrightarrow> (\<exists>c. f x = Some c \<and> bits c = balance_bits bits bk k + amount))"

lemma apply_at_shifts:
  assumes bk: "bb_ok bk" and shifted: "shifted bits bk bk1 d"
    and adds: "adds bits bk (account, asset) (\<lambda>x. f x v) amount" and fresh: "d (account, asset) = 0"
  shows "\<exists>bk'. apply_at f (bb_get_index bk asset account) v bk1 = Some bk' \<and>
    shifted bits bk bk' (\<lambda>k. entry_of (account, asset) amount k + d k)"
proof -
  note same = shifted_same [OF shifted]
  let ?i = "bb_get_index bk asset account" and ?k = "(account, asset)"
  have cell: "?k \<in> bb_cells bk" "?k \<in> bb_cells bk1" using adds same(2) by (simp_all add: adds_def)
  have "balance_bits bits bk1 ?k = bits (bb_balances bk1 ! ?i)"
    using get_cell [OF same(1) cell(2)] by (simp add: balance_bits_def bb_read_def same(3))
  moreover have "balance_bits bits bk1 ?k = balance_bits bits bk ?k"
    using shifted cell fresh by (simp add: shifted_def)
  ultimately obtain c where c: "f (bb_balances bk1 ! ?i) v = Some c" "bits c = balance_bits bits bk ?k + amount"
    using adds by (auto simp: adds_def)
  have "apply_at f ?i v bk1 = Some (bb_put ?k c bk1)"
    using c(1) by (simp add: apply_at_def bb_put_store [OF same(1) cell(2)] same(3))
  moreover have "shifted bits bk (bb_put ?k c bk1) (\<lambda>k. entry_of ?k amount k + d k)"
    using shifted c(2) fresh bb_read_put [OF same(1) cell(2)]
    by (auto simp: shifted_def balance_bits_def entry_of_def same(2))
  ultimately show ?thesis by blast
qed

text \<open>A sequence of such updates, each of its own cell, with the amounts they are meant to add.\<close>

fun apply_steps ::
    "'p balance_book \<Rightarrow> ((account_id \<times> asset_id) \<times> ('p \<Rightarrow> 'p \<Rightarrow> 'p option) \<times> 'p \<times> int) list
     \<Rightarrow> 'p balance_book \<Rightarrow> 'p balance_book option" where
  "apply_steps refs [] bk = Some bk"
| "apply_steps refs (((account, asset), f, v, amount) # steps) bk =
     (case apply_at f (bb_get_index refs asset account) v bk of
        None \<Rightarrow> None | Some bk' \<Rightarrow> apply_steps refs steps bk')"

definition step_adds ::
    "('p \<Rightarrow> int) \<Rightarrow> 'p balance_book \<Rightarrow> (account_id \<times> asset_id) \<times> ('p \<Rightarrow> 'p \<Rightarrow> 'p option) \<times> 'p \<times> int \<Rightarrow> bool" where
  "step_adds bits bk step \<longleftrightarrow>
     (case step of (k, f, v, amount) \<Rightarrow> adds bits bk k (\<lambda>x. f x v) amount)"

definition amounts :: "('k \<times> 'f \<times> 'v \<times> int) list \<Rightarrow> 'k \<Rightarrow> int" where
  "amounts steps k = (\<Sum>(k', f, v, amount)\<leftarrow>steps. entry_of k' amount k)"

lemma apply_steps_shift:
  assumes bk: "bb_ok bk"
  shows "shifted bits bk bk1 d \<Longrightarrow> distinct (map fst steps) \<Longrightarrow> list_all (step_adds bits bk) steps \<Longrightarrow>
    \<forall>k \<in> set (map fst steps). d k = 0 \<Longrightarrow>
    \<exists>bk'. apply_steps bk steps bk1 = Some bk' \<and> shifted bits bk bk' (\<lambda>k. amounts steps k + d k)"
proof (induction steps arbitrary: bk1 d)
  case (Cons step steps)
  obtain account asset f v amount where step: "step = ((account, asset), f, v, amount)"
    by (cases step) auto
  let ?k = "(account, asset)" and ?d = "\<lambda>k. entry_of (account, asset) amount k + d k"
  have "adds bits bk ?k (\<lambda>x. f x v) amount" "d ?k = 0"
    using Cons.prems(3,4) by (simp_all add: step step_adds_def)
  from apply_at_shifts [where f = f and v = v, OF bk Cons.prems(1) this] obtain bk2 where
    one: "apply_at f (bb_get_index bk asset account) v bk1 = Some bk2" and two: "shifted bits bk bk2 ?d"
    by blast
  have "?k \<notin> set (map fst steps)" using Cons.prems(2) by (simp add: step)
  then have "\<forall>k \<in> set (map fst steps). ?d k = 0"
    using Cons.prems(4) by (metis entry_of_def add_0 list.set_intros(2) list.simps(9))
  with Cons.IH [OF two] Cons.prems(2,3) obtain bk' where
    "apply_steps bk steps bk2 = Some bk'" "shifted bits bk bk' (\<lambda>k. amounts steps k + ?d k)"
    by auto
  moreover have "(\<lambda>k. amounts steps k + ?d k) = (\<lambda>k. amounts (step # steps) k + d k)"
    by (simp add: amounts_def step fun_eq_iff)
  ultimately show ?case using one by (simp add: step)
qed (simp add: amounts_def)

context fixed_price
begin

definition credit :: "account_id \<times> asset_id \<Rightarrow> 'p \<Rightarrow> (account_id \<times> asset_id) \<times> ('p \<Rightarrow> 'p \<Rightarrow> 'p option) \<times> 'p \<times> int" where
  "credit k v = (k, fx_add fx, v, bits v)"

definition debit :: "account_id \<times> asset_id \<Rightarrow> 'p \<Rightarrow> (account_id \<times> asset_id) \<times> ('p \<Rightarrow> 'p \<Rightarrow> 'p option) \<times> 'p \<times> int" where
  "debit k v = (k, fx_sub fx, v, - bits v)"

lemma credit_adds:
  assumes "k \<in> bb_cells bk" and "in_i64 (balance_bits bits bk k + bits v)"
  shows "step_adds bits bk (credit k v)"
proof -
  have "\<exists>c. fx_add fx x v = Some c \<and> bits c = balance_bits bits bk k + bits v"
    if "bits x = balance_bits bits bk k" for x
    using add_exact [of x v] assms(2) that by simp
  with assms(1) show ?thesis by (simp add: step_adds_def credit_def adds_def)
qed

lemma debit_adds:
  assumes "k \<in> bb_cells bk" and "in_i64 (balance_bits bits bk k - bits v)"
  shows "step_adds bits bk (debit k v)"
proof -
  have "\<exists>c. fx_sub fx x v = Some c \<and> bits c = balance_bits bits bk k - bits v"
    if "bits x = balance_bits bits bk k" for x
    using sub_exact [of x v] assms(2) that by simp
  with assms(1) show ?thesis by (simp add: step_adds_def debit_def adds_def)
qed

definition settlement_steps where
  "settlement_steps pair sd maker taker x y =
     (case sd of
        Ask \<Rightarrow> [debit (taker, primary pair) x, credit (taker, secondary pair) y,
                credit (maker, primary pair) x, debit (maker, secondary pair) y]
      | Bid \<Rightarrow> [credit (taker, primary pair) x, debit (taker, secondary pair) y,
                debit (maker, primary pair) x, credit (maker, secondary pair) y])"

lemma update_balances_steps:
  "update_balances fx sd x y
     (map (\<lambda>(s, a). bb_get_index bk s a)
       [(primary pair, maker), (primary pair, taker), (secondary pair, maker), (secondary pair, taker)]) bk' =
   apply_steps bk (settlement_steps pair sd maker taker x y) bk'"
  by (cases sd) (auto simp: update_balances_def settlement_steps_def credit_def debit_def
      split: option.split Option.bind_splits)

lemma settlement_amounts:
  "amounts (settlement_steps pair sd maker taker x y) = double_entry pair sd maker taker (bits x) (bits y)"
  by (cases sd) (simp_all add: settlement_steps_def amounts_def credit_def debit_def double_entry_def fun_eq_iff)

lemma update_balances_exact:
  assumes ok: "bb_ok bk" and apart: "maker_id \<noteq> taker_id" "primary pair \<noteq> secondary pair"
    and cells: "\<And>a s. a = maker_id \<or> a = taker_id \<Longrightarrow> s = primary pair \<or> s = secondary pair \<Longrightarrow>
      (a, s) \<in> bb_cells bk"
    and range: "\<And>k. k \<in> bb_cells bk \<Longrightarrow>
      in_i64 (balance_bits bits bk k + double_entry pair sd maker_id taker_id (bits x) (bits y) k)"
  shows "\<exists>bk'. update_balances fx sd x y
      (map (\<lambda>(s, a). bb_get_index bk s a)
        [(primary pair, maker_id), (primary pair, taker_id),
         (secondary pair, maker_id), (secondary pair, taker_id)]) bk = Some bk' \<and>
    shifted bits bk bk' (double_entry pair sd maker_id taker_id (bits x) (bits y))"
proof -
  let ?steps = "settlement_steps pair sd maker_id taker_id x y"
  have start: "shifted bits bk bk (\<lambda>_. 0)" using ok by (simp add: shifted_def)
  have four: "(taker_id, primary pair) \<in> bb_cells bk" "(taker_id, secondary pair) \<in> bb_cells bk"
    "(maker_id, primary pair) \<in> bb_cells bk" "(maker_id, secondary pair) \<in> bb_cells bk"
    using cells by simp_all
  have "list_all (step_adds bits bk) ?steps"
    using four [THEN range] apart four
    by (cases sd) (auto simp: settlement_steps_def double_entry_def entry_of_def intro!: credit_adds debit_adds)
  moreover have "distinct (map fst ?steps)"
    using apart by (cases sd) (auto simp: settlement_steps_def credit_def debit_def)
  ultimately show ?thesis
    using apply_steps_shift [OF ok start, of ?steps] unfolding update_balances_steps
    by (simp add: settlement_amounts)
qed

text \<open>The value of a trade in the secondary asset is its volume times its price, unrounded.\<close>

lemma value_secondary_exact:
  assumes "in_i64 (uint (tx_volume t) * bits (tx_price t))"
  shows "fx_mul fx (value_primary fx t) (tx_price t) = Some (value_secondary fx t)"
    and "bits (value_secondary fx t) = uint (tx_volume t) * bits (tx_price t)"
  using volume_times_price [OF assms] by (auto simp: value_primary_def value_secondary_def)

lemma settle_transaction_exact:
  assumes clock: "clock (rt_write_idx (ex_last_100_tx ex)) \<noteq> None" and ready: "ready_to_settle pair [t] ex"
    and product: "in_i64 (uint (tx_volume t) * bits (tx_price t))"
    and range: "\<And>k. k \<in> bb_cells (ex_balance_book ex) \<Longrightarrow>
      in_i64 (balance_bits bits (ex_balance_book ex) k + posting fx bits pair (ex_session_orders ex) t k)"
  obtains ex' where "settle_transaction b fx clock pair t ex = Some ex'"
    and "settled fx bits clock pair [t] ex ex'"
    and "shifted bits (ex_balance_book ex) (ex_balance_book ex') (posting fx bits pair (ex_session_orders ex) t)"
proof -
  let ?orders = "ex_session_orders ex" and ?bk = "ex_balance_book ex"
  let ?maker = "po_account_id (order_at ?orders (tx_order_id_maker t))"
    and ?taker = "po_account_id (order_at ?orders (tx_order_id_taker t))"
  have bk: "bb_ok ?bk" and apart: "?maker \<noteq> ?taker" "primary pair \<noteq> secondary pair"
    and cells: "\<And>a s. a = ?maker \<or> a = ?taker \<Longrightarrow>
      s = primary pair \<or> s = secondary pair \<Longrightarrow> (a, s) \<in> bb_cells ?bk"
    using ready by (auto simp: ready_to_settle_def can_settle_def Let_def)
  obtain bk' where upd: "update_balances fx (tx_taker_side t) (value_primary fx t) (value_secondary fx t)
      (map (\<lambda>(s, a). bb_get_index ?bk s a) [(primary pair, ?maker), (primary pair, ?taker),
        (secondary pair, ?maker), (secondary pair, ?taker)]) ?bk = Some bk'"
    and shifted: "shifted bits ?bk bk' (posting fx bits pair ?orders t)"
    using update_balances_exact [OF bk apart cells range [unfolded posting_def]] unfolding posting_def by blast
  show thesis
    by (rule settle_transaction_runs [where ex = ex and t = t and pair = pair and clock = clock and b = b,
          OF clock ready value_secondary_exact(1) [OF product] upd])
      (use that shifted shifted_moved in blast)
qed

end

section \<open>A batch in range\<close>

text \<open>The batch, in the order it is settled: every product and every balance on the way is in range.\<close>

definition settles_in_range ::
    "'p fixed_ops \<Rightarrow> ('p \<Rightarrow> int) \<Rightarrow> asset_id_pair \<Rightarrow> 'p ob_transaction_buffer \<Rightarrow> 'p exchange \<Rightarrow> bool" where
  "settles_in_range fx bits pair ts ex \<longleftrightarrow>
     (\<forall>t \<in> set ts. in_i64 (uint (tx_volume t) * bits (tx_price t))) \<and>
     (\<forall>k \<in> bb_cells (ex_balance_book ex). \<forall>i \<le> length ts.
        in_i64 (balance_bits bits (ex_balance_book ex) k +
          postings fx bits pair (ex_session_orders ex) (take i ts) k))"

text \<open>A bound that is easy to check: what the trades are worth at most, in any of the two assets.\<close>

definition turnover :: "('p \<Rightarrow> int) \<Rightarrow> 'p ob_transaction_buffer \<Rightarrow> int" where
  "turnover bits ts = (\<Sum>t\<leftarrow>ts. uint (tx_volume t) * max (2 ^ 31) \<bar>bits (tx_price t)\<bar>)"

lemma turnover_simps [simp]:
  "turnover bits [] = 0"
  "turnover bits (t # ts) = uint (tx_volume t) * max (2 ^ 31) \<bar>bits (tx_price t)\<bar> + turnover bits ts"
  by (simp_all add: turnover_def)

lemma turnover_rev [simp]: "turnover bits (rev ts) = turnover bits ts"
  by (simp add: turnover_def sum_list_rev flip: rev_map)

lemma turnover_nonneg: "0 \<le> turnover bits ts"
  by (induction ts) simp_all

lemma turnover_take: "turnover bits (take i ts) \<le> turnover bits ts"
proof -
  have "turnover bits (xs @ ys) = turnover bits xs + turnover bits ys" for xs ys
    by (induction xs) simp_all
  from this [of "take i ts" "drop i ts"] turnover_nonneg [of bits "drop i ts"] show ?thesis by simp
qed

lemma turnover_member:
  "t \<in> set ts \<Longrightarrow> uint (tx_volume t) * max (2 ^ 31) \<bar>bits (tx_price t)\<bar> \<le> turnover bits ts"
proof (induction ts)
  case (Cons u ts)
  then show ?case using turnover_nonneg [of bits ts] by (auto intro: add_increasing)
qed simp

lemma double_entry_bound:
  "maker \<noteq> taker \<Longrightarrow> primary pair \<noteq> secondary pair \<Longrightarrow>
   \<bar>double_entry pair sd maker taker x y k\<bar> \<le> max \<bar>x\<bar> \<bar>y\<bar>"
  by (cases sd; cases k) (auto simp: double_entry_def entry_of_def)

lemma in_i64_abs: "\<bar>i\<bar> < 2 ^ 63 \<Longrightarrow> in_i64 i"
  by (auto simp: in_i64_def)

context fixed_price
begin

lemma posting_bound:
  assumes "can_settle pair orders bk t" and "in_i64 (uint (tx_volume t) * bits (tx_price t))"
  shows "\<bar>posting fx bits pair orders t k\<bar> \<le> uint (tx_volume t) * max (2 ^ 31) \<bar>bits (tx_price t)\<bar>"
proof -
  have worth: "bits (value_primary fx t) = uint (tx_volume t) * 2 ^ 31"
    "bits (value_secondary fx t) = uint (tx_volume t) * bits (tx_price t)"
    using value_secondary_exact(2) [OF assms(2)] by (simp_all add: value_primary_def bits_from_u32)
  have "\<bar>posting fx bits pair orders t k\<bar> \<le> max \<bar>bits (value_primary fx t)\<bar> \<bar>bits (value_secondary fx t)\<bar>"
    unfolding posting_def
    by (rule double_entry_bound) (use assms(1) in \<open>auto simp: can_settle_def Let_def\<close>)
  also have "\<dots> = uint (tx_volume t) * max (2 ^ 31) \<bar>bits (tx_price t)\<bar>"
    unfolding worth by (simp add: abs_mult max_mult_distrib_left)
  finally show ?thesis .
qed

lemma postings_bound:
  "\<forall>t \<in> set ts. can_settle pair orders bk t \<Longrightarrow>
   \<forall>t \<in> set ts. in_i64 (uint (tx_volume t) * bits (tx_price t)) \<Longrightarrow>
   \<bar>postings fx bits pair orders ts k\<bar> \<le> turnover bits ts"
proof (induction ts)
  case (Cons t ts)
  with posting_bound [of pair orders bk t k] show ?case by simp
qed simp

lemma headroom_in_range:
  assumes ready: "ready_to_settle pair ts ex"
    and room: "\<forall>k \<in> bb_cells (ex_balance_book ex).
      \<bar>balance_bits bits (ex_balance_book ex) k\<bar> + turnover bits ts < 2 ^ 63"
  shows "settles_in_range fx bits pair ts ex"
proof -
  have total: "turnover bits ts < 2 ^ 63" if "t \<in> set ts" for t
  proof -
    from ready that obtain k where "k \<in> bb_cells (ex_balance_book ex)"
      by (auto simp: ready_to_settle_def can_settle_def Let_def)
    with room have "\<bar>balance_bits bits (ex_balance_book ex) k\<bar> + turnover bits ts < 2 ^ 63" by blast
    then show ?thesis by linarith
  qed
  have product: "in_i64 (uint (tx_volume t) * bits (tx_price t))" if "t \<in> set ts" for t
  proof (rule in_i64_abs)
    have "\<bar>uint (tx_volume t) * bits (tx_price t)\<bar> \<le> uint (tx_volume t) * max (2 ^ 31) \<bar>bits (tx_price t)\<bar>"
      by (simp add: abs_mult mult_left_mono)
    with turnover_member [OF that, of bits] total [OF that]
    show "\<bar>uint (tx_volume t) * bits (tx_price t)\<bar> < 2 ^ 63" by linarith
  qed
  have can: "\<forall>t \<in> set ts. can_settle pair (ex_session_orders ex) (ex_balance_book ex) t"
    using ready by (simp add: ready_to_settle_def)
  have "in_i64 (balance_bits bits (ex_balance_book ex) k + postings fx bits pair (ex_session_orders ex) (take i ts) k)"
    if "k \<in> bb_cells (ex_balance_book ex)" for k i
  proof (rule in_i64_abs)
    have "\<bar>postings fx bits pair (ex_session_orders ex) (take i ts) k\<bar> \<le> turnover bits (take i ts)"
      using can product by (intro postings_bound) (auto dest: in_set_takeD)
    with turnover_take [of bits i ts] room that
    show "\<bar>balance_bits bits (ex_balance_book ex) k + postings fx bits pair (ex_session_orders ex) (take i ts) k\<bar>
        < 2 ^ 63" by fastforce
  qed
  with product show ?thesis by (simp add: settles_in_range_def)
qed

lemma settle_popped_exact:
  assumes clock: "\<forall>n. clock n \<noteq> None"
  shows "ready_to_settle pair ts ex \<Longrightarrow> settles_in_range fx bits pair ts ex \<Longrightarrow>
    \<exists>ex'. settle_popped b fx clock pair ts ex = Some ex' \<and> settled fx bits clock pair ts ex ex' \<and>
      ex_transaction_buf ex' = [] \<and>
      shifted bits (ex_balance_book ex) (ex_balance_book ex') (postings fx bits pair (ex_session_orders ex) ts)"
proof (induction ts arbitrary: ex)
  case Nil
  then show ?case by (simp add: settled_Nil shifted_def ready_to_settle_def)
next
  case (Cons t ts)
  let ?bk = "ex_balance_book ex" and ?orders = "ex_session_orders ex"
  have first: "in_i64 (balance_bits bits ?bk k + posting fx bits pair ?orders t k)" if "k \<in> bb_cells ?bk" for k
    using Cons.prems(2) that by (auto simp: settles_in_range_def dest!: spec [of _ 1])
  have product: "in_i64 (uint (tx_volume t) * bits (tx_price t))"
    using Cons.prems(2) by (simp add: settles_in_range_def)
  obtain ex1 where step: "settle_transaction b fx clock pair t (ex\<lparr>ex_transaction_buf := rev ts\<rparr>) = Some ex1"
    and one: "settled fx bits clock pair [t] ex ex1"
    and shift: "shifted bits ?bk (ex_balance_book ex1) (posting fx bits pair ?orders t)"
    by (rule settle_transaction_exact [where ex = "ex\<lparr>ex_transaction_buf := rev ts\<rparr>" and t = t and pair = pair
          and clock = clock and b = b])
      (use clock ready_Cons [OF Cons.prems(1)] product first in simp_all)
  have later: "\<forall>u \<in> set ts. can_settle pair ?orders ?bk u" using Cons.prems(1) by (simp add: ready_to_settle_def)
  have after: "postings fx bits pair (ex_session_orders ex1) (take i ts) = postings fx bits pair ?orders (take i ts)" for i
    using postings_after(1) [OF one, of "take i ts" pair] later by (auto dest: in_set_takeD)
  have "in_i64 (balance_bits bits (ex_balance_book ex1) k + postings fx bits pair (ex_session_orders ex1) (take i ts) k)"
    if "k \<in> bb_cells ?bk" "i \<le> length ts" for k i
  proof -
    have "in_i64 (balance_bits bits ?bk k + postings fx bits pair ?orders (take (Suc i) (t # ts)) k)"
      by (intro Cons.prems(2) [unfolded settles_in_range_def, THEN conjunct2, rule_format]) (use that in simp_all)
    with shift that(1) show ?thesis by (simp add: after shifted_def add.assoc)
  qed
  then have range: "settles_in_range fx bits pair ts ex1"
    using Cons.prems(2) shifted_same(2) [OF shift] by (simp add: settles_in_range_def)
  from Cons.IH [OF ready_after [OF Cons.prems(1) one] range] obtain ex2 where
    rest: "settle_popped b fx clock pair ts ex1 = Some ex2" "settled fx bits clock pair ts ex1 ex2"
      "ex_transaction_buf ex2 = []"
    and shift': "shifted bits (ex_balance_book ex1) (ex_balance_book ex2)
      (postings fx bits pair (ex_session_orders ex1) ts)" by blast
  have "shifted bits ?bk (ex_balance_book ex2) (postings fx bits pair ?orders (t # ts))"
    using shift shift' after [of "length ts"] shifted_same(2) [OF shift] by (simp add: shifted_def)
  with step rest settled_Cons [OF Cons.prems(1) one rest(2)] show ?case by (simp del: postings_simps)
qed

end

end
