(* ===== verification/Any_Build.thy ===== *)
theory Any_Build
  imports Exchange_Invariant Settlement_Exact
begin

text \<open>
  Insertion in any build, also one with overflow checks, where every addition, subtraction and
  multiplication that leaves its range panics. What is needed is that the volume check does not overflow
  and that the balances have room for what the trades are worth; then nothing panics, nothing wraps and
  the balances move by the exact amounts.
\<close>

text \<open>The double entry of a trade, in integers: the volume and the volume times the price.\<close>

definition exact_posting ::
    "('p \<Rightarrow> int) \<Rightarrow> asset_id_pair \<Rightarrow> 'p session_orders \<Rightarrow> 'p ob_transaction \<Rightarrow> account_id \<times> asset_id \<Rightarrow> int" where
  "exact_posting bits pair orders t =
     double_entry pair (tx_taker_side t)
       (po_account_id (order_at orders (tx_order_id_maker t)))
       (po_account_id (order_at orders (tx_order_id_taker t)))
       (uint (tx_volume t) * 2 ^ 31) (uint (tx_volume t) * bits (tx_price t))"

definition exact_postings ::
    "('p \<Rightarrow> int) \<Rightarrow> asset_id_pair \<Rightarrow> 'p session_orders \<Rightarrow> 'p ob_transaction_buffer
     \<Rightarrow> account_id \<times> asset_id \<Rightarrow> int" where
  "exact_postings bits pair orders ts k = (\<Sum>t\<leftarrow>ts. exact_posting bits pair orders t k)"

definition room_for :: "('p \<Rightarrow> int) \<Rightarrow> 'p ob_transaction_buffer \<Rightarrow> 'p balance_book \<Rightarrow> bool" where
  "room_for bits ts bk \<longleftrightarrow> (\<forall>k \<in> bb_cells bk. \<bar>balance_bits bits bk k\<bar> + turnover bits ts < 2 ^ 63)"

lemma before_settlement_simps [simp]:
  "ex_balance_book (before_settlement order pair market ts ex) = ex_balance_book ex"
  "ex_transaction_buf (before_settlement order pair market ts ex) = ts"
  "ex_session_orders (before_settlement order pair market ts ex) =
     ex_session_orders ex @ [(length (ex_session_orders ex), from_insertion order)]"
  by (simp_all add: before_settlement_def)

text \<open>Settling leaves the accounts of the orders alone.\<close>

lemma exact_postings_after:
  assumes set: "settled fx bits clock pair us ex ex'" and ready: "ready_to_settle pair ts ex"
  shows "exact_postings bits pair (ex_session_orders ex') ts = exact_postings bits pair (ex_session_orders ex) ts"
proof -
  have "exact_posting bits pair (ex_session_orders ex') t = exact_posting bits pair (ex_session_orders ex) t"
    if "t \<in> set ts" for t
  proof -
    have "can_settle pair (ex_session_orders ex) (ex_balance_book ex) t"
      using ready that unfolding ready_to_settle_def by blast
    then have "tx_order_id_maker t < length (ex_session_orders ex)"
      "tx_order_id_taker t < length (ex_session_orders ex)" unfolding can_settle_def Let_def by blast+
    with settled_accounts [OF set] show ?thesis unfolding exact_posting_def by simp
  qed
  then show ?thesis unfolding exact_postings_def by (intro ext) (simp cong: map_cong)
qed

context fixed_price
begin

lemma postings_exact:
  assumes "settles_in_range fx bits pair ts ex"
  shows "postings fx bits pair orders ts k = exact_postings bits pair orders ts k"
proof -
  have "posting fx bits pair orders t = exact_posting bits pair orders t" if "t \<in> set ts" for t
    using assms that value_secondary_exact(2) [of t]
    by (simp add: posting_def exact_posting_def value_primary_def bits_from_u32 settles_in_range_def)
  then show ?thesis unfolding postings_def exact_postings_def by (simp cong: map_cong)
qed

lemma process_transactions_exact:
  assumes clock: "\<forall>n. clock n \<noteq> None" and ready: "ready_to_settle pair (ex_transaction_buf ex) ex"
    and room: "room_for bits (ex_transaction_buf ex) (ex_balance_book ex)"
  shows "\<exists>ex'. process_transactions b fx clock pair ex = Some ex' \<and>
    settled fx bits clock pair (rev (ex_transaction_buf ex)) ex ex' \<and> ex_transaction_buf ex' = [] \<and>
    shifted bits (ex_balance_book ex) (ex_balance_book ex')
      (exact_postings bits pair (ex_session_orders ex) (ex_transaction_buf ex))"
proof -
  let ?ts = "rev (ex_transaction_buf ex)"
  have ready': "ready_to_settle pair ?ts ex" using ready by simp
  have range: "settles_in_range fx bits pair ?ts ex"
    using room by (intro headroom_in_range [OF ready']) (simp add: room_for_def)
  have "postings fx bits pair (ex_session_orders ex) ?ts =
      exact_postings bits pair (ex_session_orders ex) (ex_transaction_buf ex)"
    using postings_exact [OF range, of "ex_session_orders ex"]
    by (simp add: fun_eq_iff exact_postings_def sum_list_rev flip: rev_map)
  with settle_popped_exact [OF clock ready' range, of b] show ?thesis
    unfolding process_transactions_def by simp
qed

text \<open>The verdict is the same in every build; the exchange afterwards is consistent; and the balances have
  moved exactly.\<close>

lemma insert_in_range:
  assumes ok: "exchange_ok ex" and clock: "\<forall>n. clock n \<noteq> None"
    and get: "markets_get (ex_markets ex) (rq_pair req) = Some market"
    and check: "check_volume b (inserted req ex) (mk_orderbook market) \<noteq> None"
    and room: "\<And>ts m r. fill (inserted req ex) (rq_volume req)
        (crossing_queue (inserted req ex) (mk_orderbook market)) = Traded ts m r \<Longrightarrow>
      room_for bits ts (ex_balance_book ex)"
  obtains (rejected) err where "err \<noteq> SelfTrade" "insert_verdict req ex = Inl err"
      "exchange_insert_order b fx clock req ex = Some (Inl err, ex)"
  | (self_trade) ex' where "insert_verdict req ex = Inl SelfTrade"
      "exchange_insert_order b fx clock req ex = Some (Inl SelfTrade, ex')"
  | (settled) ef ts m r ex' where "insert_verdict req ex = Inr ef"
      "fill (inserted req ex) (rq_volume req)
         (crossing_queue (inserted req ex) (mk_orderbook market)) = Traded ts m r"
      "exchange_insert_order b fx clock req ex = Some (Inr ef, ex')" "exchange_ok ex'"
      "shifted bits (ex_balance_book ex) (ex_balance_book ex')
         (exact_postings bits (rq_pair req) (ex_session_orders ex') ts)"
proof (rule exchange_insert_runs [where b = b and clock = clock and req = req, OF ok])
  show "check_volume b (inserted req ex) (mk_orderbook m) \<noteq> None"
    if "markets_get (ex_markets ex) (rq_pair req) = Some m" for m
    using check get that by simp
next
  fix market1 market' ts m r
  let ?ex2 = "before_settlement (inserted req ex) (rq_pair req) market' ts ex"
  assume get1: "markets_get (ex_markets ex) (rq_pair req) = Some market1"
    and fill: "fill (inserted req ex) (rq_volume req)
      (crossing_queue (inserted req ex) (mk_orderbook market1)) = Traded ts m r"
    and ready: "ready_to_settle (rq_pair req) ts ?ex2"
  have "room_for bits ts (ex_balance_book ex)" by (rule room) (use get get1 fill in simp)
  with process_transactions_exact [OF clock, of "rq_pair req" ?ex2 b] ready
  show "\<exists>ex'. process_transactions b fx clock (rq_pair req) ?ex2 = Some ex' \<and>
      settled fx bits clock (rq_pair req) (rev ts) ?ex2 ex' \<and> ex_transaction_buf ex' = []" by auto
next
  fix market1 market' ts m r ex'
  let ?ex2 = "before_settlement (inserted req ex) (rq_pair req) market' ts ex"
  assume get1: "markets_get (ex_markets ex) (rq_pair req) = Some market1"
    and account: "unat (rq_account_id req) < length (ex_accounts ex)"
    and check1: "check_volume b (inserted req ex) (mk_orderbook market1) = Some (Inr ())"
    and fill1: "fill (inserted req ex) (rq_volume req)
      (crossing_queue (inserted req ex) (mk_orderbook market1)) = Traded ts m r"
    and pair: "mk_asset_pair market' = rq_pair req" and inv: "market_inv (ex_session_orders ex') market'"
    and set: "settled fx bits clock (rq_pair req) (rev ts) ?ex2 ex'" and buf: "ex_transaction_buf ex' = []"
    and res: "exchange_insert_order b fx clock req ex =
      Some (Inr \<lparr>ie_id = length (ex_session_orders ex),
                 ie_status = (if 0 < m then AwaitingFill else Filled)\<rparr>, ex')"
    and ready: "ready_to_settle (rq_pair req) ts ?ex2"
    and proc: "process_transactions b fx clock (rq_pair req) ?ex2 = Some ex'"
  have same: "market1 = market" using get get1 by simp
  note fill = fill1 [unfolded same]
  have ok': "exchange_ok ex'"
    by (rule settled_insertion_ok [OF ok get _ _ _ pair inv set buf]) (use account fill in simp_all)
  have shift: "shifted bits (ex_balance_book ex) (ex_balance_book ex')
      (exact_postings bits (rq_pair req) (ex_session_orders ?ex2) ts)"
    using process_transactions_exact [OF clock, of "rq_pair req" ?ex2 b] ready room [OF fill] proc by auto
  moreover have "exact_postings bits (rq_pair req) (ex_session_orders ex') ts =
      exact_postings bits (rq_pair req) (ex_session_orders ?ex2) ts"
    by (rule exact_postings_after [OF set ready])
  ultimately have "shifted bits (ex_balance_book ex) (ex_balance_book ex')
      (exact_postings bits (rq_pair req) (ex_session_orders ex') ts)" by simp
  moreover have "insert_verdict req ex = Inr \<lparr>ie_id = length (ex_session_orders ex),
      ie_status = (if 0 < m then AwaitingFill else Filled)\<rparr>"
    using get account check_volume_same [OF check1] fill by (simp add: insert_verdict_def Let_def same)
  ultimately show thesis using settled [OF _ fill res ok'] by blast
qed (use rejected self_trade in blast)+

end

end
