(* ===== verification/Loops.thy ===== *)
theory Loops
  imports Price_Time Settlement
begin

text \<open>
  That the program's loops return. The matching loop of \<open>Orderbook::insert_order\<close>
  (\<open>src/orderbook.rs\<close>) and the settlement loop of \<open>process_transactions\<close>
  (\<open>src/exchange.rs\<close>) are \<open>while let\<close> loops over a structure that their own bodies change, so
  nothing in their form makes them end. Here they are written as the code has them, as partial
  functions whose \<open>None\<close> is a loop that does not return, and the theorems say that they return what
  the recursive definitions of the matching engine and the exchange give.
\<close>

section \<open>The matching loop\<close>

text \<open>
  \<open>while let Some(open_order) = open_orders.iter_mut().next()\<close>: the front order is changed in place
  and popped when it has nothing left.
\<close>

partial_function (option) match_loop ::
    "'p order_insertion \<Rightarrow> 'p \<Rightarrow> orderbook_entry list \<Rightarrow> volume \<Rightarrow> 'p ob_transaction_buffer
     \<Rightarrow> 'p level_outcome option" where
  "match_loop order price open_orders remaining buf =
     (if open_orders = [] then Some (Level_done open_orders remaining buf None)
      else
        (let open_order = hd open_orders;
             transaction_volume = min remaining (en_remaining_volume open_order);
             open_orders1 = open_orders[0 := open_order\<lparr>en_remaining_volume :=
               en_remaining_volume open_order - transaction_volume\<rparr>];
             remaining' = remaining - transaction_volume
         in if oi_account_id order = en_account_id (hd open_orders1)
            then Some (Level_self_trade open_orders1 buf)
            else
              (let buf' = buf @ [trade_with order price (hd open_orders1) transaction_volume];
                   open_orders2 = (if en_remaining_volume (hd open_orders1) = 0 then tl open_orders1
                                   else open_orders1)
               in if remaining' \<le> 0 then Some (Level_done open_orders2 remaining' buf' (Some price))
                  else match_loop order price open_orders2 remaining' buf')))"

lemma match_loop_returns:
  "match_loop order price open_orders remaining buf = Some (match_level order price open_orders remaining buf)"
proof (induction order price open_orders remaining buf rule: match_level.induct)
  case (1 order price remaining buf)
  show ?case by (simp add: match_loop.simps)
next
  case (2 order price open_order rest remaining buf)
  show ?case
    by (subst match_loop.simps, subst match_level.simps)
      (use 2 in \<open>auto simp: Let_def\<close>)
qed

fun level_buffer :: "'p level_outcome \<Rightarrow> 'p ob_transaction_buffer" where
  "level_buffer (Level_self_trade es buf) = buf"
| "level_buffer (Level_done es n buf p) = buf"

text \<open>An iteration records at most one trade and consumes at most one order: the buffer grows by no more
  than the orders that were waiting.\<close>

lemma match_level_buffer:
  "\<exists>ts. level_buffer (match_level order p es n buf) = buf @ ts \<and> length ts \<le> length es"
proof (induction es arbitrary: n buf)
  case (Cons e es)
  show ?case
    using Cons.IH [of "n - en_remaining_volume e" "buf @ [trade_with order p e (en_remaining_volume e)]"]
    by (auto simp: match_level_Cons)
qed simp

section \<open>The settlement loop\<close>

text \<open>
  \<open>while let Some(transaction) = self.transaction_buf.pop()\<close>. The outer \<open>None\<close> is a loop that does
  not return, the inner one a panic of its body.
\<close>

partial_function (option) settle_loop ::
    "build \<Rightarrow> 'p fixed_ops \<Rightarrow> clock \<Rightarrow> asset_id_pair \<Rightarrow> 'p exchange \<Rightarrow> 'p exchange option option" where
  "settle_loop b fx clock pair ex =
     (case vec_pop (ex_transaction_buf ex) of
        None \<Rightarrow> Some (Some ex)
      | Some t \<Rightarrow>
          (case settle_transaction b fx clock pair t
                  (ex\<lparr>ex_transaction_buf := butlast (ex_transaction_buf ex)\<rparr>) of
             None \<Rightarrow> Some None
           | Some ex' \<Rightarrow> settle_loop b fx clock pair ex'))"

text \<open>A settlement leaves the buffer alone and writes one record.\<close>

lemma settle_transaction_buf:
  "settle_transaction b fx clock pair t ex = Some ex' \<Longrightarrow>
   ex_transaction_buf ex' = ex_transaction_buf ex \<and>
   rt_write_idx (ex_last_100_tx ex') = Suc (rt_write_idx (ex_last_100_tx ex))"
  by (auto simp: settle_transaction_def Let_def bind_eq_Some_conv dest: rt_push_idx)

lemma settle_loop_returns:
  "ex_transaction_buf ex = rev ts \<Longrightarrow>
   settle_loop b fx clock pair ex = Some (settle_popped b fx clock pair ts ex)"
proof (induction ts arbitrary: ex)
  case Nil
  then show ?case by (subst settle_loop.simps) (simp add: vec_pop_def)
next
  case (Cons t ts)
  show ?case
  proof (cases "settle_transaction b fx clock pair t (ex\<lparr>ex_transaction_buf := rev ts\<rparr>)")
    case None
    with Cons.prems show ?thesis by (subst settle_loop.simps) (simp add: vec_pop_def)
  next
    case (Some ex1)
    with Cons.IH [of ex1] settle_transaction_buf [OF Some] Cons.prems show ?thesis
      by (subst settle_loop.simps) (simp add: vec_pop_def)
  qed
qed

lemma settle_popped_count:
  "settle_popped b fx clock pair ts ex = Some ex' \<Longrightarrow>
   ex_transaction_buf ex' = [] \<and>
   rt_write_idx (ex_last_100_tx ex') = rt_write_idx (ex_last_100_tx ex) + length ts"
  by (induction ts arbitrary: ex) (auto split: option.splits dest: settle_transaction_buf)

section \<open>The loops return\<close>

text \<open>C16: The matching loop over a price level returns, from every state of the level, with the outcome
  the matching engine's definition gives, and it has recorded at most one trade for every order that
  was waiting at the level.\<close>

theorem matching_loop_returns:
  "\<exists>out ts. match_loop order price open_orders remaining buf = Some out \<and>
     out = match_level order price open_orders remaining buf \<and>
     level_buffer out = buf @ ts \<and> length ts \<le> length open_orders"
  by (simp add: match_loop_returns match_level_buffer)

text \<open>C17: The settlement loop returns from every state of the exchange, with what \<open>process_transactions\<close>
  is defined to give: a panic of a settlement, or an exchange whose transaction buffer is empty and whose
  log took exactly one record for every transaction that was in it.\<close>

theorem settlement_loop_returns:
  "settle_loop b fx clock pair ex = Some (process_transactions b fx clock pair ex) \<and>
   (case process_transactions b fx clock pair ex of
      None \<Rightarrow> True
    | Some ex' \<Rightarrow> ex_transaction_buf ex' = [] \<and>
        rt_write_idx (ex_last_100_tx ex') =
          rt_write_idx (ex_last_100_tx ex) + length (ex_transaction_buf ex))"
proof (cases "process_transactions b fx clock pair ex")
  case None
  with settle_loop_returns [of ex "rev (ex_transaction_buf ex)" b fx clock pair] show ?thesis
    by (simp add: process_transactions_def)
next
  case (Some ex')
  with settle_loop_returns [of ex "rev (ex_transaction_buf ex)" b fx clock pair]
    settle_popped_count [of b fx clock pair "rev (ex_transaction_buf ex)" ex ex'] show ?thesis
    by (simp add: process_transactions_def)
qed

end
