(* ===== verification/Channel.thy ===== *)
theory Channel
  imports Exchange_Client "HOL-Library.Sublist"
begin

text \<open>
  The channel between the clients and the exchange's thread. \<open>Exchange::new\<close> creates a bounded MPSC
  channel of \<open>MPSC_CAPACITY\<close> places and a handle with its first sender; \<open>get_client\<close> clones the
  sender; \<open>run\<close> moves the exchange with the receiver to its own thread; \<open>send_commands\<close> sends a
  buffer with a oneshot channel for the reply and awaits it (\<open>src/exchange.rs\<close>,
  \<open>src/exchange_client.rs\<close>).

  The system is a state machine whose steps interleave freely: clients send while the thread receives
  chunks of messages and serves them one at a time. The channels themselves are tokio's; what is
  modelled of them is their documented behaviour: first in, first out; a sender waits while the channel
  is full and gets an error once the receiver is gone; \<open>blocking_recv_many\<close> takes at least one and
  at most the limit of the messages there, and 0 only when the channel is empty and all senders are
  dropped; a dropped oneshot sender wakes its receiver with an error.

  The specification is sequential: the buffers sent are served one after the other in the order of
  sending, by one exchange.
\<close>

section \<open>State\<close>

definition MPSC_CAPACITY :: nat where
  "MPSC_CAPACITY = 32"

text \<open>\<open>CommandBufferWithReplyChannel\<close>; the oneshot channel is named by the number of the message.\<close>

record 'p message =
  ms_command_buf :: "'p command_buffer"
  ms_tx_reply :: nat

text \<open>The thread: its receiver and its exchange live until it stops or panics.\<close>

datatype 'p thread = Running "'p exchange" | Stopped "'p exchange" | Panicked

text \<open>
  \<open>ExchangeHandle\<close> and \<open>ExchangeClient\<close> are wrappers of the channel's sender: \<open>sy_handles\<close> and
  \<open>sy_clients\<close> count those that are alive. \<open>sy_queue\<close> is what the channel holds.
  \<open>sy_channel_buf\<close> is the thread's chunk of received messages. \<open>sy_replies\<close> are the replies sent,
  with the number of their oneshot channel. \<open>sy_sent\<close> is the history of all messages sent.
\<close>

record 'p system =
  sy_handles :: nat
  sy_clients :: nat
  sy_queue :: "'p message list"
  sy_channel_buf :: "'p message list"
  sy_thread :: "'p thread"
  sy_replies :: "(nat \<times> 'p command_result_buffer) list"
  sy_sent :: "'p message list"

definition run :: "'p exchange \<Rightarrow> 'p system" where
  "run ex =
     \<lparr>sy_handles = 1, sy_clients = 0, sy_queue = [], sy_channel_buf = [], sy_thread = Running ex,
      sy_replies = [], sy_sent = []\<rparr>"

fun is_running :: "'p thread \<Rightarrow> bool" where
  "is_running (Running _) \<longleftrightarrow> True"
| "is_running _ \<longleftrightarrow> False"

section \<open>The clients' side\<close>

definition get_client :: "'p system \<Rightarrow> 'p system" where
  "get_client s = s\<lparr>sy_clients := sy_clients s + 1\<rparr>"

text \<open>The first half of \<open>send_commands\<close>: the message goes out, waits for a place, or finds no
  receiver, on which \<open>unwrap\<close> panics the client.\<close>

datatype 'p sending = Sent "'p system" | Full | Closed

definition client_send :: "'p command_buffer \<Rightarrow> 'p system \<Rightarrow> 'p sending" where
  "client_send command_buf s =
     (let tx_reply = length (sy_sent s);
          message = \<lparr>ms_command_buf = command_buf, ms_tx_reply = tx_reply\<rparr>
      in if \<not> is_running (sy_thread s) then Closed
         else if MPSC_CAPACITY \<le> length (sy_queue s) then Full
         else Sent (s\<lparr>sy_queue := sy_queue s @ [message], sy_sent := sy_sent s @ [message]\<rparr>))"

text \<open>The second half: the reply, or waiting for it, or a reply channel that was dropped.\<close>

datatype 'p awaiting = Answered "'p command_result_buffer" | Pending | Dropped

definition client_await :: "nat \<Rightarrow> 'p system \<Rightarrow> 'p awaiting" where
  "client_await rx_reply s =
     (case map_of (sy_replies s) rx_reply of
        Some result_buf \<Rightarrow> Answered result_buf
      | None \<Rightarrow>
          if rx_reply \<in> ms_tx_reply ` set (sy_channel_buf s @ sy_queue s) then Pending else Dropped)"

section \<open>The thread's side\<close>

text \<open>\<open>blocking_recv_many(&mut channel_buf, MPSC_CAPACITY)\<close> takes \<open>n\<close> messages.\<close>

definition receive :: "nat \<Rightarrow> 'p system \<Rightarrow> 'p system" where
  "receive n s =
     s\<lparr>sy_channel_buf := take n (sy_queue s), sy_queue := drop n (sy_queue s)\<rparr>"

text \<open>
  Serving the next message of the chunk. A panic unwinds the thread: the receiver, the messages in it
  and the rest of the chunk are dropped, and their reply channels with them.
\<close>

definition serve_next :: "build \<Rightarrow> 'p::linorder fixed_ops \<Rightarrow> clock \<Rightarrow> 'p exchange \<Rightarrow> 'p system \<Rightarrow> 'p system" where
  "serve_next b fx clock ex s =
     (let msg = hd (sy_channel_buf s)
      in case handle_buffer b fx clock (ms_command_buf msg) ex of
           None \<Rightarrow> s\<lparr>sy_thread := Panicked, sy_channel_buf := [], sy_queue := []\<rparr>
         | Some (response_buf, ex') \<Rightarrow>
             s\<lparr>sy_thread := Running ex', sy_channel_buf := tl (sy_channel_buf s),
               sy_replies := sy_replies s @ [(ms_tx_reply msg, response_buf)]\<rparr>)"

inductive thread_step ::
    "build \<Rightarrow> 'p::linorder fixed_ops \<Rightarrow> clock \<Rightarrow> 'p system \<Rightarrow> 'p system \<Rightarrow> bool"
  for b fx clock where
  thread_receive:
    "sy_thread s = Running ex \<Longrightarrow> sy_channel_buf s = [] \<Longrightarrow>
     1 \<le> n \<Longrightarrow> n \<le> MPSC_CAPACITY \<Longrightarrow> n \<le> length (sy_queue s) \<Longrightarrow>
     thread_step b fx clock s (receive n s)"
| thread_serve:
    "sy_thread s = Running ex \<Longrightarrow> sy_channel_buf s \<noteq> [] \<Longrightarrow>
     thread_step b fx clock s (serve_next b fx clock ex s)"
| thread_stop:
    "sy_thread s = Running ex \<Longrightarrow> sy_channel_buf s = [] \<Longrightarrow> sy_queue s = [] \<Longrightarrow>
     sy_handles s + sy_clients s = 0 \<Longrightarrow>
     thread_step b fx clock s (s\<lparr>sy_thread := Stopped ex\<rparr>)"

inductive system_step ::
    "build \<Rightarrow> 'p::linorder fixed_ops \<Rightarrow> clock \<Rightarrow> 'p system \<Rightarrow> 'p system \<Rightarrow> bool"
  for b fx clock where
  step_thread: "thread_step b fx clock s s' \<Longrightarrow> system_step b fx clock s s'"
| step_clone: "0 < sy_handles s \<Longrightarrow> system_step b fx clock s (s\<lparr>sy_handles := sy_handles s + 1\<rparr>)"
| step_get_client: "0 < sy_handles s \<Longrightarrow> system_step b fx clock s (get_client s)"
| step_drop_handle: "0 < sy_handles s \<Longrightarrow> system_step b fx clock s (s\<lparr>sy_handles := sy_handles s - 1\<rparr>)"
| step_drop_client: "0 < sy_clients s \<Longrightarrow> system_step b fx clock s (s\<lparr>sy_clients := sy_clients s - 1\<rparr>)"
| step_send:
    "0 < sy_handles s + sy_clients s \<Longrightarrow> client_send command_buf s = Sent s' \<Longrightarrow>
     system_step b fx clock s s'"

inductive system_run ::
    "build \<Rightarrow> 'p::linorder fixed_ops \<Rightarrow> clock \<Rightarrow> 'p exchange \<Rightarrow> 'p system \<Rightarrow> bool"
  for b fx clock ex0 where
  run_start: "system_run b fx clock ex0 (run ex0)"
| run_step: "system_run b fx clock ex0 s \<Longrightarrow> system_step b fx clock s s' \<Longrightarrow> system_run b fx clock ex0 s'"

inductive_cases thread_stepE: "thread_step b fx clock s s'"
inductive_cases system_stepE: "system_step b fx clock s s'"

section \<open>What a run of the system keeps\<close>

text \<open>
  Messages are numbered as they are sent; the replies answer the first messages, in order, with what
  serving the sent buffers one after the other answers; the rest are in the chunk and the queue while
  the thread runs. A thread that stopped has answered all and nobody can send any more; one that
  panicked did so at the first message without an answer, where the sequential service does.
\<close>

definition system_ok ::
    "build \<Rightarrow> 'p::linorder fixed_ops \<Rightarrow> clock \<Rightarrow> 'p exchange \<Rightarrow> 'p system \<Rightarrow> bool" where
  "system_ok b fx clock ex0 s \<longleftrightarrow>
     (let n = length (sy_replies s); bufs = map ms_command_buf (sy_sent s);
          replies = map snd (sy_replies s); waiting = sy_channel_buf s @ sy_queue s
      in map ms_tx_reply (sy_sent s) = [0..<length (sy_sent s)] \<and>
         map fst (sy_replies s) = [0..<n] \<and>
         length (sy_queue s) \<le> MPSC_CAPACITY \<and> length (sy_channel_buf s) \<le> MPSC_CAPACITY \<and>
         (case sy_thread s of
            Running ex \<Rightarrow> serve_chunk b fx clock (take n bufs) ex0 = (replies, Some ex) \<and>
              n \<le> length bufs \<and> waiting = drop n (sy_sent s)
          | Stopped ex \<Rightarrow> serve_chunk b fx clock bufs ex0 = (replies, Some ex) \<and> waiting = [] \<and>
              sy_handles s + sy_clients s = 0
          | Panicked \<Rightarrow> serve_chunk b fx clock bufs ex0 = (replies, None) \<and> waiting = []))"

lemma run_ok: "system_ok b fx clock ex0 (run ex0)"
  by (simp add: system_ok_def run_def)

lemma receive_ok:
  assumes "system_ok b fx clock ex0 s" and "sy_thread s = Running ex" and "sy_channel_buf s = []"
    and "n \<le> MPSC_CAPACITY"
  shows "system_ok b fx clock ex0 (receive n s)"
  using assms by (auto simp: system_ok_def receive_def Let_def simp del: drop_drop)

lemma serve_next_ok:
  assumes ok: "system_ok b fx clock ex0 s" and running: "sy_thread s = Running ex"
    and chunk: "sy_channel_buf s \<noteq> []"
  shows "system_ok b fx clock ex0 (serve_next b fx clock ex s)"
proof -
  let ?n = "length (sy_replies s)" and ?bufs = "map ms_command_buf (sy_sent s)"
  obtain msg rest where msg: "sy_channel_buf s = msg # rest" using chunk by (cases "sy_channel_buf s") auto
  have served: "serve_chunk b fx clock (take ?n ?bufs) ex0 = (map snd (sy_replies s), Some ex)"
    and wait: "msg # rest @ sy_queue s = drop ?n (sy_sent s)" and "?n \<le> length (sy_sent s)"
    using ok running msg by (simp_all add: system_ok_def Let_def)
  then have n: "?n < length (sy_sent s)" by (metis drop_eq_Nil list.discI not_le)
  have nth: "msg = sy_sent s ! ?n" "rest @ sy_queue s = drop (Suc ?n) (sy_sent s)"
    using wait n by (metis Cons_nth_drop_Suc list.inject)+
  have "map ms_tx_reply (sy_sent s) = [0..<length (sy_sent s)]" using ok by (simp add: system_ok_def Let_def)
  from arg_cong [OF this, of "\<lambda>xs. xs ! ?n"] have tx: "ms_tx_reply msg = ?n" using n nth(1) by simp
  have split: "take (Suc ?n) ?bufs = take ?n ?bufs @ [ms_command_buf msg]"
    using n nth(1) by (simp add: take_Suc_conv_app_nth)
  have all: "?bufs = take ?n ?bufs @ ms_command_buf msg # drop (Suc ?n) ?bufs"
    using id_take_nth_drop [of ?n ?bufs] n nth(1) by simp
  show ?thesis
  proof (cases "handle_buffer b fx clock (ms_command_buf msg) ex")
    case None
    then have "serve_chunk b fx clock ?bufs ex0 = (map snd (sy_replies s), None)"
      by (subst all) (simp add: thread.serve_then [OF served])
    with None ok msg show ?thesis by (simp add: system_ok_def serve_next_def Let_def)
  next
    case (Some r)
    then have "serve_chunk b fx clock (take (Suc ?n) ?bufs) ex0 = (map snd (sy_replies s) @ [fst r], Some (snd r))"
      unfolding split by (simp add: thread.serve_then [OF served] split: prod.split)
    with Some ok msg n nth(2) tx show ?thesis
      by (auto simp: system_ok_def serve_next_def Let_def split: prod.split)
  qed
qed

lemma client_send_ok:
  "system_ok b fx clock ex0 s \<Longrightarrow> client_send command_buf s = Sent s' \<Longrightarrow> system_ok b fx clock ex0 s'"
  by (auto simp: system_ok_def client_send_def Let_def split: if_splits thread.splits)

lemma system_step_ok:
  assumes ok: "system_ok b fx clock ex0 s" and step: "system_step b fx clock s s'"
  shows "system_ok b fx clock ex0 s'"
  using step
proof (cases rule: system_step.cases)
  case step_thread
  then show ?thesis
  proof (cases rule: thread_step.cases)
    case (thread_stop ex)
    with ok have "length (sy_replies s) = length (sy_sent s)" by (simp add: system_ok_def Let_def)
    with ok thread_stop show ?thesis by (simp add: system_ok_def Let_def)
  qed (use ok receive_ok serve_next_ok in \<open>simp_all\<close>)
next
  case (step_send command_buf)
  with ok client_send_ok show ?thesis by blast
qed (use ok in \<open>auto simp: system_ok_def get_client_def Let_def split: thread.splits\<close>)

lemma system_run_ok: "system_run b fx clock ex0 s \<Longrightarrow> system_ok b fx clock ex0 s"
  by (induction rule: system_run.induct) (auto intro: run_ok system_step_ok)

section \<open>The thread's work\<close>

text \<open>A bound on the steps the thread can take on its own: a message is received and served, then the
  thread stops.\<close>

definition work :: "'p system \<Rightarrow> nat" where
  "work s = 2 * length (sy_queue s) + length (sy_channel_buf s) +
     (if is_running (sy_thread s) then 1 else 0)"

lemma thread_step_works:
  assumes "thread_step b fx clock s s'"
  shows "work s' < work s" and "sy_sent s' = sy_sent s" and "sy_handles s' = sy_handles s"
    and "sy_clients s' = sy_clients s"
  using assms
  by (auto simp: work_def receive_def serve_next_def Let_def neq_Nil_conv
      elim!: thread_stepE split: option.splits)

lemma thread_steps_work:
  assumes "(thread_step b fx clock ^^ k) s s'"
  shows "k + work s' \<le> work s" and "sy_sent s' = sy_sent s"
proof -
  from assms have "k + work s' \<le> work s \<and> sy_sent s' = sy_sent s"
  proof (induction k arbitrary: s')
    case (Suc k)
    then obtain s1 where "(thread_step b fx clock ^^ k) s s1" and "thread_step b fx clock s1 s'" by auto
    with Suc.IH [of s1] thread_step_works(1,2) [of b fx clock s1 s'] show ?case by simp
  qed simp
  then show "k + work s' \<le> work s" and "sy_sent s' = sy_sent s" by simp_all
qed

lemma thread_steps_ok:
  "(thread_step b fx clock ^^ k) s s' \<Longrightarrow> system_ok b fx clock ex0 s \<Longrightarrow> system_ok b fx clock ex0 s'"
  by (induction k arbitrary: s') (auto intro: system_step_ok step_thread)

text \<open>A thread that cannot go on has nothing to do.\<close>

lemma thread_rests:
  assumes stuck: "\<And>s'. \<not> thread_step b fx clock s s'" and running: "sy_thread s = Running ex"
  shows "sy_channel_buf s = [] \<and> sy_queue s = [] \<and> 0 < sy_handles s + sy_clients s"
proof -
  have chunk: "sy_channel_buf s = []" using stuck thread_serve [OF running] by blast
  moreover have queue: "sy_queue s = []"
  proof (rule ccontr)
    assume "sy_queue s \<noteq> []"
    then have "1 \<le> length (sy_queue s)" by (cases "sy_queue s") simp_all
    then have "thread_step b fx clock s (receive 1 s)"
      by (intro thread_receive [OF running chunk]) (simp_all add: MPSC_CAPACITY_def)
    with stuck show False by blast
  qed
  moreover have "sy_handles s + sy_clients s \<noteq> 0"
    by (rule notI, rule stuck [THEN notE], rule thread_stop [OF running chunk queue])
  ultimately show ?thesis by simp
qed

section \<open>Replies\<close>

text \<open>The messages that have a reply, and the service they had, whatever the thread is doing.\<close>

lemma system_served:
  assumes ok: "system_ok b fx clock ex0 s"
  shows "\<exists>m end_state. serve_chunk b fx clock (take m (map ms_command_buf (sy_sent s))) ex0 =
    (map snd (sy_replies s), end_state)"
proof -
  let ?bufs = "map ms_command_buf (sy_sent s)"
  have all: "take (length ?bufs) ?bufs = ?bufs" by simp
  show ?thesis
  proof (cases "sy_thread s")
    case (Running ex)
    with ok show ?thesis by (auto simp: system_ok_def Let_def)
  next
    case (Stopped ex)
    with ok have "serve_chunk b fx clock (take (length ?bufs) ?bufs) ex0 = (map snd (sy_replies s), Some ex)"
      unfolding all by (simp add: system_ok_def Let_def)
    then show ?thesis by blast
  next
    case Panicked
    with ok have "serve_chunk b fx clock (take (length ?bufs) ?bufs) ex0 = (map snd (sy_replies s), None)"
      unfolding all by (simp add: system_ok_def Let_def)
    then show ?thesis by blast
  qed
qed

lemma answered_in_sequence:
  assumes ok: "system_ok b fx clock ex0 s" and i: "i < length (sy_replies s)"
  shows "i < length (sy_sent s) \<and>
    (\<exists>earlier ex ex'. serve_chunk b fx clock (map ms_command_buf (take i (sy_sent s))) ex0 = (earlier, Some ex) \<and>
       handle_buffer b fx clock (ms_command_buf (sy_sent s ! i)) ex = Some (snd (sy_replies s ! i), ex'))"
proof -
  let ?bufs = "map ms_command_buf (sy_sent s)"
  obtain m end_state where serve: "serve_chunk b fx clock (take m ?bufs) ex0 = (map snd (sy_replies s), end_state)"
    using system_served [OF ok] by blast
  from thread.answered_length [OF serve] i have "i < m" "i < length (sy_sent s)"
    by (auto split: option.splits)
  with thread.answered_nth [OF serve, of i] i show ?thesis by (auto simp: take_map)
qed

lemma map_of_numbered:
  "map fst xs = [0..<n] \<Longrightarrow> map_of xs i = (if i < n then Some (snd (xs ! i)) else None)"
proof -
  assume a: "map fst xs = [0..<n]"
  have "xs = zip (map fst xs) (map snd xs)" by (simp add: zip_map_fst_snd)
  then have xs: "xs = map (\<lambda>j. (j, snd (xs ! j))) [0..<n]"
    using a by (metis (no_types, lifting) length_map length_upt minus_nat.diff_0 map_nth nth_map nth_upt
        add_0 prod.collapse list_eq_iff_nth_eq)
  show "map_of xs i = (if i < n then Some (snd (xs ! i)) else None)"
    by (subst xs) (simp add: map_of_map_restrict restrict_map_def)
qed

text \<open>What a client gets is what the sequential exchange answers to its message.\<close>

lemma awaited_in_sequence:
  assumes ok: "system_ok b fx clock ex0 s" and reply: "client_await i s = Answered result_buf"
  shows "i < length (sy_sent s) \<and>
    (\<exists>earlier ex ex'. serve_chunk b fx clock (map ms_command_buf (take i (sy_sent s))) ex0 = (earlier, Some ex) \<and>
       send_commands b fx clock (ms_command_buf (sy_sent s ! i)) ex = Some (result_buf, ex'))"
proof -
  from ok have "map fst (sy_replies s) = [0..<length (sy_replies s)]" by (simp add: system_ok_def Let_def)
  from map_of_numbered [OF this, of i] reply have "i < length (sy_replies s)" "result_buf = snd (sy_replies s ! i)"
    by (auto simp: client_await_def split: if_splits)
  with answered_in_sequence [OF ok, of i] show ?thesis by (simp add: send_commands_handles)
qed

section \<open>When the thread can die\<close>

context fixed_price
begin

text \<open>Commands that are proper and meet no self-trade leave the thread alive on a consistent exchange.\<close>

lemma system_run_survives:
  assumes "fx_total fx" and "\<forall>n. clock n \<noteq> None" and "exchange_ok ex0"
    and run: "system_run Release fx clock ex0 s"
    and proper: "list_all proper (concat (map ms_command_buf (sy_sent s)))"
    and apart: "\<not> meets_self_trade Release fx clock (concat (map ms_command_buf (sy_sent s))) ex0"
  shows "case sy_thread s of Running ex \<Rightarrow> exchange_ok ex | Stopped ex \<Rightarrow> exchange_ok ex | Panicked \<Rightarrow> False"
proof -
  let ?bufs = "map ms_command_buf (sy_sent s)"
  have ok: "system_ok Release fx clock ex0 s" using run by (rule system_run_ok)
  have survives: "\<exists>ex. serve_chunk Release fx clock (take n ?bufs) ex0 = (replies, Some ex) \<and> exchange_ok ex"
    if "serve_chunk Release fx clock (take n ?bufs) ex0 = (replies, end_state)" for n replies end_state
  proof -
    have cmds: "concat ?bufs = concat (take n ?bufs) @ concat (drop n ?bufs)"
      by (metis append_take_drop_id concat_append)
    have "list_all proper (concat (take n ?bufs))" using proper unfolding cmds by simp
    moreover have "\<not> meets_self_trade Release fx clock (concat (take n ?bufs)) ex0"
      using apart meets_self_trade_append unfolding cmds by blast
    ultimately obtain results ex where
      "handle_buffer Release fx clock (concat (take n ?bufs)) ex0 = Some (results, ex)" "exchange_ok ex"
      using handle_buffer_survives [OF assms(1-3)] by blast
    with serve_chunk_handles [of Release fx clock "take n ?bufs" ex0] that show ?thesis by simp
  qed
  show ?thesis
  proof (cases "sy_thread s")
    case (Running ex)
    with ok survives [of "length (sy_replies s)"] show ?thesis by (auto simp: system_ok_def Let_def)
  next
    case (Stopped ex)
    with ok survives [of "length ?bufs"] show ?thesis by (auto simp: system_ok_def Let_def)
  next
    case Panicked
    with ok survives [of "length ?bufs"] show ?thesis by (auto simp: system_ok_def Let_def)
  qed
qed

end

end
