(* ===== verification/Connection.thy ===== *)
theory Connection
  imports Channel
begin

text \<open>
  \<open>handle_connection\<close> of \<open>src/bin/exchange_server.rs\<close> as a task beside others: it reads and decodes
  frames, sends each decoded buffer through its client, awaits the reply, writes the encoded results back
  and records the latency. Between any two of its steps other clients and the exchange's thread go on:
  their steps are the \<open>system_step\<close>s of \<open>Channel\<close>.

  A task waits where the code awaits: for bytes, for a place in the channel, for the reply. It panics where the
  code unwraps: when the receiver or the reply channel is gone, when the results do not encode and when
  they cannot be written.
\<close>

section \<open>The task\<close>

datatype 'p task_state =
  Reading
| Sending "'p command_buffer"
| Awaiting nat nat
| Disconnected
| Task_panicked

text \<open>
  \<open>cn_buf\<close> is what arrived and is not decoded yet, \<open>cn_samples\<close> what was given to
  \<open>metrics_recorder.record_n\<close>. The other fields are histories: the bytes that arrived, the numbers of the
  messages sent, the bytes written.
\<close>

record 'p connection =
  cn_buf :: bytes
  cn_state :: "'p task_state"
  cn_samples :: "(u64 \<times> u64) list"
  cn_input :: bytes
  cn_sent :: "nat list"
  cn_output :: bytes

definition new_connection :: "'p connection" where
  "new_connection =
     \<lparr>cn_buf = [], cn_state = Reading, cn_samples = [], cn_input = [], cn_sent = [], cn_output = []\<rparr>"

fun is_live :: "'p task_state \<Rightarrow> bool" where
  "is_live Disconnected \<longleftrightarrow> False"
| "is_live Task_panicked \<longleftrightarrow> False"
| "is_live _ \<longleftrightarrow> True"

text \<open>The task is over and its client dropped.\<close>

definition leave :: "'p task_state \<Rightarrow> 'p connection \<Rightarrow> 'p system \<Rightarrow> 'p connection \<times> 'p system" where
  "leave outcome c s = (c\<lparr>cn_state := outcome\<rparr>, s\<lparr>sy_clients := sy_clients s - 1\<rparr>)"

text \<open>\<open>framed_stream.next()\<close>; \<open>closed\<close> when the peer has closed the stream.\<close>

definition next_frame ::
    "(bytes \<Rightarrow> 'p command_buffer option) \<Rightarrow> bool \<Rightarrow> 'p connection \<Rightarrow> 'p system \<Rightarrow> 'p connection \<times> 'p system" where
  "next_frame from_slice closed c s =
     (case mp_decode from_slice (cn_buf c) of
        (Inl err, buf) \<Rightarrow> leave Disconnected c s
      | (Inr None, buf) \<Rightarrow> if closed then leave Disconnected c s else (c, s)
      | (Inr (Some decoded_commands), buf) \<Rightarrow>
          (c\<lparr>cn_buf := buf, cn_state := Sending decoded_commands\<rparr>, s))"

text \<open>The two halves of \<open>client.send_commands(decoded_commands)\<close>, and what follows the reply.\<close>

definition send_decoded :: "'p command_buffer \<Rightarrow> 'p connection \<Rightarrow> 'p system \<Rightarrow> 'p connection \<times> 'p system" where
  "send_decoded decoded_commands c s =
     (let num_commands = length decoded_commands; rx_reply = length (sy_sent s) in
      case client_send decoded_commands s of
        Sent s' \<Rightarrow> (c\<lparr>cn_state := Awaiting rx_reply num_commands, cn_sent := cn_sent c @ [rx_reply]\<rparr>, s')
      | Full \<Rightarrow> (c, s)
      | Closed \<Rightarrow> leave Task_panicked c s)"

definition write_reply ::
    "('p command_result_buffer \<Rightarrow> bytes option) \<Rightarrow> u64 \<Rightarrow> bool \<Rightarrow> nat \<Rightarrow> nat \<Rightarrow> 'p connection \<Rightarrow> 'p system
     \<Rightarrow> 'p connection \<times> 'p system" where
  "write_reply to_vec latency written rx_reply num_commands c s =
     (case client_await rx_reply s of
        Pending \<Rightarrow> (c, s)
      | Dropped \<Rightarrow> leave Task_panicked c s
      | Answered commands_results \<Rightarrow>
          (case mp_encode to_vec commands_results (cn_output c) of
             (Inl err, output) \<Rightarrow> leave Task_panicked c s
           | (Inr _, output) \<Rightarrow>
               if \<not> written then leave Task_panicked c s
               else (c\<lparr>cn_output := output, cn_state := Reading,
                       cn_samples := cn_samples c @ [(latency, of_nat num_commands)]\<rparr>, s)))"

text \<open>
  What happens to a task: bytes arrive, or it is polled, when the peer may have closed the stream, a write
  may fail, and the clock shows a latency.
\<close>

datatype task_event = Bytes_arrive bytes | Poll bool bool u64

fun task_step ::
    "('p command_result_buffer \<Rightarrow> bytes option) \<Rightarrow> (bytes \<Rightarrow> 'p command_buffer option) \<Rightarrow> task_event
     \<Rightarrow> 'p connection \<Rightarrow> 'p system \<Rightarrow> 'p connection \<times> 'p system" where
  "task_step to_vec from_slice (Bytes_arrive piece) c s =
     (if is_live (cn_state c)
      then (c\<lparr>cn_buf := cn_buf c @ piece, cn_input := cn_input c @ piece\<rparr>, s) else (c, s))"
| "task_step to_vec from_slice (Poll closed written latency) c s =
     (case cn_state c of
        Reading \<Rightarrow> next_frame from_slice closed c s
      | Sending decoded_commands \<Rightarrow> send_decoded decoded_commands c s
      | Awaiting rx_reply num_commands \<Rightarrow> write_reply to_vec latency written rx_reply num_commands c s
      | Disconnected \<Rightarrow> (c, s)
      | Task_panicked \<Rightarrow> (c, s))"

text \<open>
  The task beside everything else: it starts with a client of its own, which nobody else drops.
\<close>

inductive connection_run ::
    "build \<Rightarrow> 'p::linorder fixed_ops \<Rightarrow> clock \<Rightarrow> ('p command_result_buffer \<Rightarrow> bytes option)
     \<Rightarrow> (bytes \<Rightarrow> 'p command_buffer option) \<Rightarrow> 'p exchange \<Rightarrow> 'p connection \<Rightarrow> 'p system \<Rightarrow> bool"
  for b fx clock to_vec from_slice ex0 where
  connection_begins:
    "system_run b fx clock ex0 s \<Longrightarrow> 0 < sy_handles s \<Longrightarrow>
     connection_run b fx clock to_vec from_slice ex0 new_connection (get_client s)"
| connection_others:
    "connection_run b fx clock to_vec from_slice ex0 c s \<Longrightarrow> system_step b fx clock s s' \<Longrightarrow>
     (is_live (cn_state c) \<longrightarrow> 0 < sy_clients s') \<Longrightarrow>
     connection_run b fx clock to_vec from_slice ex0 c s'"
| connection_task:
    "connection_run b fx clock to_vec from_slice ex0 c s \<Longrightarrow>
     task_step to_vec from_slice event c s = (c', s') \<Longrightarrow>
     connection_run b fx clock to_vec from_slice ex0 c' s'"

section \<open>What the system's steps keep of a reply\<close>

lemma system_step_sent:
  assumes "system_step b fx clock s s'"
  shows "prefix (sy_sent s) (sy_sent s')"
  using assms
  by (auto simp: get_client_def client_send_def receive_def serve_next_def Let_def
      elim!: system_stepE thread_stepE split: if_splits option.splits)

lemma system_step_replies:
  assumes "system_step b fx clock s s'"
  shows "prefix (sy_replies s) (sy_replies s')"
  using assms
  by (auto simp: get_client_def client_send_def receive_def serve_next_def Let_def
      elim!: system_stepE thread_stepE split: if_splits option.splits)

lemma await_Answered: "client_await i s = Answered r \<longleftrightarrow> map_of (sy_replies s) i = Some r"
  by (auto simp: client_await_def split: option.splits)

lemma answered_stays:
  "client_await i s = Answered r \<Longrightarrow> system_step b fx clock s s' \<Longrightarrow> client_await i s' = Answered r"
  using system_step_replies by (fastforce simp: await_Answered prefix_def map_add_def)

text \<open>What a task does to the system is nothing, a send, or dropping its client.\<close>

lemma task_step_system:
  assumes "task_step to_vec from_slice event c s = (c', s')" and "is_live (cn_state c) \<longrightarrow> 0 < sy_clients s"
  shows "s' = s \<or> system_step b fx clock s s'"
    and "is_live (cn_state c') \<longrightarrow> 0 < sy_clients s'"
proof -
  have send: "system_step b fx clock s s''" "sy_clients s'' = sy_clients s"
    if "client_send cmds s = Sent s''" and "0 < sy_clients s" for cmds s''
    using step_send [OF _ that(1), of b fx clock] that
    by (auto simp: client_send_def Let_def split: if_splits)
  have drop: "system_step b fx clock s (s\<lparr>sy_clients := sy_clients s - 1\<rparr>)" if "0 < sy_clients s"
    by (rule step_drop_client [OF that])
  show "s' = s \<or> system_step b fx clock s s'"
    using assms send(1) drop
    by (cases event; cases "cn_state c")
      (auto simp: next_frame_def send_decoded_def write_reply_def leave_def Let_def
        split: prod.splits sum.splits option.splits sending.splits awaiting.splits if_splits)
  show "is_live (cn_state c') \<longrightarrow> 0 < sy_clients s'"
    using assms send(2)
    by (cases event; cases "cn_state c")
      (auto simp: next_frame_def send_decoded_def write_reply_def leave_def Let_def
        split: prod.splits sum.splits option.splits sending.splits awaiting.splits if_splits)
qed

section \<open>The conversation of a task\<close>

text \<open>The buffers a task has sent, and the one it has decoded and not sent yet.\<close>

definition sent_buf :: "'p system \<Rightarrow> nat \<Rightarrow> 'p command_buffer" where
  "sent_buf s i = ms_command_buf (sy_sent s ! i)"

definition sent_bufs :: "'p connection \<Rightarrow> 'p system \<Rightarrow> 'p command_buffer list" where
  "sent_bufs c s = map (sent_buf s) (cn_sent c)"

fun decoded_only :: "'p task_state \<Rightarrow> 'p command_buffer list" where
  "decoded_only (Sending decoded_commands) = [decoded_commands]"
| "decoded_only _ = []"

text \<open>
  A live task has decoded what its input holds, up to what is in its buffer; one that ended had sent a
  part of it.
\<close>

definition input_ok :: "(bytes \<Rightarrow> 'p command_buffer option) \<Rightarrow> 'p connection \<Rightarrow> 'p system \<Rightarrow> bool" where
  "input_ok from_slice c s \<longleftrightarrow>
     (if is_live (cn_state c)
      then drain from_slice (cn_input c) =
        (case drain from_slice (cn_buf c) of
           (xs, end, rest) \<Rightarrow> (sent_bufs c s @ decoded_only (cn_state c) @ xs, end, rest))
      else prefix (sent_bufs c s) (fst (drain from_slice (cn_input c))))"

text \<open>
  Its messages were sent in order, at most the last is without an answer, and the output is the frames of
  the replies.
\<close>

fun open_messages :: "'p task_state \<Rightarrow> nat list \<Rightarrow> nat \<Rightarrow> 'p system \<Rightarrow> bool" where
  "open_messages (Awaiting rx n) numbers answered s \<longleftrightarrow>
     numbers = take answered numbers @ [rx] \<and> n = length (sent_buf s rx)"
| "open_messages Task_panicked numbers answered s \<longleftrightarrow> length numbers \<le> Suc answered"
| "open_messages _ numbers answered s \<longleftrightarrow> length numbers = answered"

definition replies_ok :: "('p command_result_buffer \<Rightarrow> bytes option) \<Rightarrow> 'p connection \<Rightarrow> 'p system \<Rightarrow> bool" where
  "replies_ok to_vec c s \<longleftrightarrow>
     (\<exists>results mps. cn_output c = concat (map frame mps) \<and>
        list_all2 (\<lambda>mp r. length mp \<le> 2 ^ 16 - 1 \<and> to_vec r = Some mp) mps results \<and>
        list_all2 (\<lambda>i r. client_await i s = Answered r) (take (length (cn_samples c)) (cn_sent c)) results)"

definition conversation_ok :: "('p command_result_buffer \<Rightarrow> bytes option) \<Rightarrow> 'p connection \<Rightarrow> 'p system \<Rightarrow> bool" where
  "conversation_ok to_vec c s \<longleftrightarrow>
     sorted_wrt (<) (cn_sent c) \<and> (\<forall>i \<in> set (cn_sent c). i < length (sy_sent s)) \<and>
     length (cn_samples c) \<le> length (cn_sent c) \<and>
     open_messages (cn_state c) (cn_sent c) (length (cn_samples c)) s \<and> replies_ok to_vec c s \<and>
     map snd (cn_samples c) = map (of_nat \<circ> length) (take (length (cn_samples c)) (sent_bufs c s))"

lemmas conversation_defs = conversation_ok_def input_ok_def replies_ok_def

text \<open>Neither depends on what others send later.\<close>

lemma sent_bufs_stay:
  "prefix (sy_sent s) (sy_sent s') \<Longrightarrow> \<forall>i \<in> set (cn_sent c). i < length (sy_sent s) \<Longrightarrow>
   sent_bufs c s' = sent_bufs c s"
  by (auto simp: sent_bufs_def sent_buf_def prefix_def nth_append)

lemma conversation_stays:
  assumes ok: "conversation_ok to_vec c s" and sent: "prefix (sy_sent s) (sy_sent s')"
    and await: "\<And>i r. client_await i s = Answered r \<Longrightarrow> client_await i s' = Answered r"
  shows "conversation_ok to_vec c s'" and "input_ok from_slice c s \<Longrightarrow> input_ok from_slice c s'"
proof -
  have bound: "\<forall>i \<in> set (cn_sent c). i < length (sy_sent s)" using ok by (simp add: conversation_ok_def)
  note same = sent_bufs_stay [OF sent bound]
  have "open_messages (cn_state c) (cn_sent c) (length (cn_samples c)) s'"
  proof (cases "cn_state c")
    case (Awaiting rx n)
    with ok have "cn_sent c = take (length (cn_samples c)) (cn_sent c) @ [rx]"
      by (simp add: conversation_ok_def)
    then have "rx \<in> set (cn_sent c)" by (metis in_set_conv_decomp)
    with bound sent have "sent_buf s' rx = sent_buf s rx" by (auto simp: sent_buf_def prefix_def nth_append)
    with ok Awaiting show ?thesis by (simp add: conversation_ok_def)
  qed (use ok in \<open>auto simp: conversation_ok_def\<close>)
  moreover have "replies_ok to_vec c s'"
  proof -
    obtain results mps where r: "cn_output c = concat (map frame mps)"
      "list_all2 (\<lambda>mp r. length mp \<le> 2 ^ 16 - 1 \<and> to_vec r = Some mp) mps results"
      "list_all2 (\<lambda>i r. client_await i s = Answered r) (take (length (cn_samples c)) (cn_sent c)) results"
      using ok by (auto simp: conversation_ok_def replies_ok_def)
    have "list_all2 (\<lambda>i r. client_await i s' = Answered r) (take (length (cn_samples c)) (cn_sent c)) results"
      by (rule list_all2_mono [OF r(3)]) (rule await)
    with r(1,2) show ?thesis unfolding replies_ok_def by blast
  qed
  moreover have "length (sy_sent s) \<le> length (sy_sent s')" using sent by (rule prefix_length_le)
  ultimately show "conversation_ok to_vec c s'"
    using ok bound by (auto simp: conversation_ok_def same)
  show "input_ok from_slice c s \<Longrightarrow> input_ok from_slice c s'" by (simp add: input_ok_def same)
qed

lemma others_keep:
  assumes "system_step b fx clock s s'" and "conversation_ok to_vec c s"
  shows "conversation_ok to_vec c s'" and "input_ok from_slice c s \<Longrightarrow> input_ok from_slice c s'"
  using conversation_stays [OF assms(2) system_step_sent [OF assms(1)] answered_stays [OF _ assms(1)]] by blast+


section \<open>The task's own steps\<close>

lemma conversation_state:
  "conversation_ok to_vec c s \<Longrightarrow> open_messages x (cn_sent c) (length (cn_samples c)) s \<Longrightarrow>
   conversation_ok to_vec (c\<lparr>cn_state := x\<rparr>) s"
  by (simp add: conversation_ok_def replies_ok_def sent_bufs_def)

lemma unanswered_at_most_one:
  assumes ok: "conversation_ok to_vec c s"
  shows "length (cn_sent c) \<le> Suc (length (cn_samples c))"
proof (cases "cn_state c")
  case (Awaiting rx n)
  with ok have "cn_sent c = take (length (cn_samples c)) (cn_sent c) @ [rx]"
    by (simp add: conversation_ok_def)
  from arg_cong [OF this, of length] show ?thesis by simp
qed (use ok in \<open>simp_all add: conversation_ok_def\<close>)

lemma leave_keeps:
  assumes ok: "conversation_ok to_vec c s" "input_ok from_slice c s" and live: "is_live (cn_state c)"
    and step: "leave outcome c s = (c', s')"
    and outcome: "outcome = Disconnected \<and> cn_state c = Reading \<or> outcome = Task_panicked"
  shows "conversation_ok to_vec c' s' \<and> input_ok from_slice c' s'"
proof -
  have s': "s' = s\<lparr>sy_clients := sy_clients s - 1\<rparr>" and c': "c' = c\<lparr>cn_state := outcome\<rparr>"
    using step by (simp_all add: leave_def)
  have same: "client_await i s' = Answered r" if "client_await i s = Answered r" for i r
    using that by (simp add: s' await_Answered)
  have stays: "conversation_ok to_vec c s'" "input_ok from_slice c s'"
    using conversation_stays [OF ok(1) _ same] ok(2) by (simp_all add: s')
  with ok(1) outcome unanswered_at_most_one [OF ok(1)] have "open_messages outcome (cn_sent c) (length (cn_samples c)) s'"
    by (auto simp: conversation_ok_def)
  with conversation_state [OF stays(1)] have "conversation_ok to_vec c' s'" by (simp add: c')
  moreover have "input_ok from_slice c' s'"
    using stays(2) live outcome by (auto simp: c' input_ok_def sent_bufs_def split: prod.splits)
  ultimately show ?thesis by simp
qed

lemma arrive_keeps:
  assumes ok: "conversation_ok to_vec c s" "input_ok from_slice c s" and live: "is_live (cn_state c)"
    and c': "c' = c\<lparr>cn_buf := cn_buf c @ piece, cn_input := cn_input c @ piece\<rparr>"
  shows "conversation_ok to_vec c' s \<and> input_ok from_slice c' s"
proof
  show "conversation_ok to_vec c' s"
    using ok(1) by (simp add: c' conversation_ok_def replies_ok_def sent_bufs_def)
  obtain xs end_state rest where d: "drain from_slice (cn_buf c) = (xs, end_state, rest)"
    by (cases "drain from_slice (cn_buf c)")
  with ok(2) live have "drain from_slice (cn_input c) =
      (sent_bufs c s @ decoded_only (cn_state c) @ xs, end_state, rest)" by (simp add: input_ok_def)
  with d live show "input_ok from_slice c' s"
    by (simp add: c' input_ok_def sent_bufs_def drain_append split: option.split prod.split)
qed

lemma next_frame_keeps:
  assumes ok: "conversation_ok to_vec c s" "input_ok from_slice c s" and reading: "cn_state c = Reading"
    and step: "next_frame from_slice closed c s = (c', s')"
  shows "conversation_ok to_vec c' s' \<and> input_ok from_slice c' s'"
proof -
  obtain res buf where dec: "mp_decode from_slice (cn_buf c) = (res, buf)" by (cases "mp_decode from_slice (cn_buf c)")
  have live: "is_live (cn_state c)" by (simp add: reading)
  note left = leave_keeps [OF ok live, of Disconnected c' s'] 
  show ?thesis
  proof (cases res)
    case (Inl err)
    with dec step left reading show ?thesis by (simp add: next_frame_def)
  next
    case (Inr x)
    show ?thesis
    proof (cases x)
      case None
      with Inr dec step left ok reading show ?thesis by (auto simp: next_frame_def split: if_splits)
    next
      case (Some cmds)
      with Inr dec step have c': "c' = c\<lparr>cn_buf := buf, cn_state := Sending cmds\<rparr>" "s' = s"
        by (simp_all add: next_frame_def)
      have "drain from_slice (cn_buf c) =
          (case drain from_slice buf of (xs, end, rest) \<Rightarrow> (cmds # xs, end, rest))"
        using Inr Some dec by (simp add: drain.simps [of from_slice "cn_buf c"])
      with ok reading show ?thesis
        by (auto simp: c' conversation_defs sent_bufs_def split: prod.splits)
    qed
  qed
qed

lemma send_decoded_keeps:
  assumes ok: "conversation_ok to_vec c s" "input_ok from_slice c s" and sending: "cn_state c = Sending cmds"
    and step: "send_decoded cmds c s = (c', s')"
  shows "conversation_ok to_vec c' s' \<and> input_ok from_slice c' s'"
proof (cases "client_send cmds s")
  case (Sent s1)
  let ?rx = "length (sy_sent s)"
  have s1: "sy_sent s1 = sy_sent s @ [\<lparr>ms_command_buf = cmds, ms_tx_reply = ?rx\<rparr>]"
    "sy_replies s1 = sy_replies s"
    using Sent by (auto simp: client_send_def Let_def split: if_splits)
  have c': "c' = c\<lparr>cn_state := Awaiting ?rx (length cmds), cn_sent := cn_sent c @ [?rx]\<rparr>" and "s' = s1"
    using step Sent by (simp_all add: send_decoded_def Let_def)
  have ok1: "conversation_ok to_vec c s1" "input_ok from_slice c s1"
    using conversation_stays [OF ok(1), of s1] ok(2) by (simp_all add: s1 await_Answered)
  have buf: "sent_buf s1 ?rx = cmds" by (simp add: sent_buf_def s1)
  have before: "\<forall>i \<in> set (cn_sent c). i < ?rx" and all: "length (cn_sent c) = length (cn_samples c)"
    using ok(1) sending by (simp_all add: conversation_ok_def)
  from before ok1(1) all have "conversation_ok to_vec c' s1"
    by (auto simp: c' conversation_ok_def replies_ok_def sent_bufs_def buf s1 sorted_wrt_append)
  moreover have "input_ok from_slice c' s1"
    using ok1(2) sending by (simp add: c' input_ok_def sent_bufs_def buf)
  ultimately show ?thesis by (simp add: \<open>s' = s1\<close>)
next
  case Full
  with step ok show ?thesis by (simp add: send_decoded_def)
next
  case Closed
  with step sending leave_keeps [OF ok, of Task_panicked c' s'] show ?thesis
    by (simp add: send_decoded_def)
qed

lemma reply_recorded:
  assumes ok: "conversation_ok to_vec c s" and awaiting: "cn_state c = Awaiting rx n"
    and answered: "client_await rx s = Answered results"
    and mp: "to_vec results = Some mp" "length mp \<le> 2 ^ 16 - 1"
  shows "conversation_ok to_vec (c\<lparr>cn_output := cn_output c @ frame mp, cn_state := Reading,
    cn_samples := cn_samples c @ [(latency, of_nat n)]\<rparr>) s"
proof -
  define k where "k = length (cn_samples c)"
  define sent where "sent = take k (cn_sent c)"
  have all: "cn_sent c = sent @ [rx]" and n: "n = length (sent_buf s rx)"
    using ok awaiting by (simp_all add: conversation_ok_def k_def sent_def)
  have k: "length sent = k" using ok by (simp add: conversation_ok_def k_def sent_def)
  obtain results' mps where r: "cn_output c = concat (map frame mps)"
    "list_all2 (\<lambda>mp r. length mp \<le> 2 ^ 16 - 1 \<and> to_vec r = Some mp) mps results'"
    "list_all2 (\<lambda>i r. client_await i s = Answered r) sent results'"
    using ok by (auto simp: conversation_ok_def replies_ok_def k_def sent_def)
  let ?c = "c\<lparr>cn_output := cn_output c @ frame mp, cn_state := Reading,
    cn_samples := cn_samples c @ [(latency, of_nat n)]\<rparr>"
  have "replies_ok to_vec ?c s"
    unfolding replies_ok_def
  proof (intro exI [of _ "results' @ [results]"] exI [of _ "mps @ [mp]"] conjI)
    show "list_all2 (\<lambda>i r. client_await i s = Answered r)
        (take (length (cn_samples ?c)) (cn_sent ?c)) (results' @ [results])"
      using r(3) answered k by (simp add: all k_def list_all2_append list_all2_lengthD)
  qed (use r mp in \<open>simp_all add: list_all2_append list_all2_lengthD\<close>)
  moreover have "map snd (cn_samples c) = map (of_nat \<circ> length) (map (sent_buf s) sent)"
    using ok k by (simp add: conversation_ok_def sent_bufs_def all k_def)
  ultimately show ?thesis
    using ok n k by (simp add: conversation_ok_def sent_bufs_def all k_def)
qed

lemma write_reply_keeps:
  assumes ok: "conversation_ok to_vec c s" "input_ok from_slice c s" and awaiting: "cn_state c = Awaiting rx n"
    and step: "write_reply to_vec latency written rx n c s = (c', s')"
  shows "conversation_ok to_vec c' s' \<and> input_ok from_slice c' s'"
proof (cases "client_await rx s")
  case (Answered results)
  note panics = leave_keeps [OF ok, of Task_panicked c' s']
  obtain res out where enc: "mp_encode to_vec results (cn_output c) = (res, out)"
    by (cases "mp_encode to_vec results (cn_output c)")
  show ?thesis
  proof (cases "res = Inr () \<and> written")
    case True
    with enc obtain mp where mp: "to_vec results = Some mp" "length mp \<le> 2 ^ 16 - 1"
      and out: "out = cn_output c @ frame mp" by (auto simp: mp_encode_frame)
    have c': "c' = c\<lparr>cn_output := cn_output c @ frame mp, cn_state := Reading,
        cn_samples := cn_samples c @ [(latency, of_nat n)]\<rparr>" and "s' = s"
      using step Answered enc True out by (simp_all add: write_reply_def)
    with reply_recorded [OF ok(1) awaiting Answered mp] ok(2) awaiting show ?thesis
      by (simp add: input_ok_def sent_bufs_def)
  next
    case False
    with step Answered enc panics awaiting show ?thesis
      by (cases res) (simp_all add: write_reply_def)
  qed
next
  case Pending
  with step ok show ?thesis by (simp add: write_reply_def)
next
  case Dropped
  with step awaiting leave_keeps [OF ok, of Task_panicked c' s'] show ?thesis
    by (simp add: write_reply_def)
qed

lemma task_step_keeps:
  assumes ok: "conversation_ok to_vec c s" "input_ok from_slice c s"
    and step: "task_step to_vec from_slice event c s = (c', s')"
  shows "conversation_ok to_vec c' s' \<and> input_ok from_slice c' s'"
proof (cases event)
  case (Bytes_arrive piece)
  with step arrive_keeps [OF ok, of c' piece] ok show ?thesis by (auto split: if_splits)
next
  case (Poll closed written latency)
  with step next_frame_keeps [OF ok] send_decoded_keeps [OF ok] write_reply_keeps [OF ok] ok show ?thesis
    by (cases "cn_state c") auto
qed

lemma connection_run_ok:
  "connection_run b fx clock to_vec from_slice ex0 c s \<Longrightarrow>
   system_run b fx clock ex0 s \<and> (is_live (cn_state c) \<longrightarrow> 0 < sy_clients s) \<and>
   conversation_ok to_vec c s \<and> input_ok from_slice c s"
proof (induction rule: connection_run.induct)
  case (connection_begins s)
  have "system_run b fx clock ex0 (get_client s)"
    by (rule run_step [OF connection_begins(1) step_get_client [OF connection_begins(2)]])
  then show ?case
    by (simp add: new_connection_def conversation_defs sent_bufs_def get_client_def split: prod.split)
next
  case (connection_others c s s')
  with others_keep [OF connection_others.hyps(2), where c = c and to_vec = to_vec] show ?case
    by (auto intro: run_step)
next
  case (connection_task c s event c' s')
  with task_step_system(1) [OF connection_task.hyps(2), where b = b and fx = fx and clock = clock]
    task_step_system(2) [OF connection_task.hyps(2)] task_step_keeps [OF _ _ connection_task.hyps(2)]
  show ?case by (auto intro: run_step)
qed

end
