(* ===== verification/Channel_Properties.thy ===== *)
theory Channel_Properties
  imports Connection Exchange_Samples
begin

text \<open>
  The properties of the channel between clients and the exchange's thread: the channel as an
  implementation of the sequential exchange, progress of the thread, shutdown, and a connection's task beside
  all others.
\<close>

section \<open>A session on the sample exchange\<close>

definition demo_message :: "i33f31 message" where
  "demo_message = \<lparr>ms_command_buf = [command.GetAssets], ms_tx_reply = 0\<rparr>"

definition demo_sent :: "i33f31 system" where
  "demo_sent = (get_client (run demo_exchange))\<lparr>sy_queue := [demo_message], sy_sent := [demo_message]\<rparr>"

definition demo_received :: "i33f31 system" where
  "demo_received = demo_sent\<lparr>sy_queue := [], sy_channel_buf := [demo_message]\<rparr>"

definition demo_answered :: "i33f31 system" where
  "demo_answered = demo_received\<lparr>sy_channel_buf := [],
     sy_replies := [(0, [GetAssets (ex_traded_assets demo_exchange)])]\<rparr>"

lemmas demo_session_defs = demo_answered_def demo_received_def demo_sent_def demo_message_def
  get_client_def run_def

lemma demo_sent_run: "system_run Release (i33f31_ops Release) demo_clock demo_exchange demo_sent"
proof -
  let ?s = "get_client (run demo_exchange)"
  have "system_run Release (i33f31_ops Release) demo_clock demo_exchange ?s"
    by (rule run_step [OF run_start step_get_client]) (simp add: run_def)
  moreover have "client_send [command.GetAssets] ?s = Sent demo_sent"
    by (simp add: client_send_def Let_def demo_session_defs MPSC_CAPACITY_def)
  then have "system_step Release (i33f31_ops Release) demo_clock ?s demo_sent"
    by (intro step_send) (simp_all add: demo_session_defs)
  ultimately show ?thesis by (rule run_step)
qed

lemma demo_steps:
  "thread_step Release (i33f31_ops Release) demo_clock demo_sent demo_received"
  "thread_step Release (i33f31_ops Release) demo_clock demo_received demo_answered"
proof -
  have "demo_received = receive 1 demo_sent" by (simp add: demo_session_defs receive_def)
  then show "thread_step Release (i33f31_ops Release) demo_clock demo_sent demo_received"
    using thread_receive [of demo_sent demo_exchange 1]
    by (simp add: demo_session_defs MPSC_CAPACITY_def)
  have "demo_answered = serve_next Release (i33f31_ops Release) demo_clock demo_exchange demo_received"
    by (simp add: demo_session_defs serve_next_def)
  then show "thread_step Release (i33f31_ops Release) demo_clock demo_received demo_answered"
    using thread_serve [of demo_received demo_exchange Release "i33f31_ops Release" demo_clock]
    by (simp add: demo_session_defs)
qed

lemma demo_answered_run: "system_run Release (i33f31_ops Release) demo_clock demo_exchange demo_answered"
  using demo_sent_run demo_steps by (metis run_step step_thread)

section \<open>The sequential exchange\<close>

text \<open>C8: Whatever the interleaving of clients, channel and thread, the exchange a client talks to is a
  sequential one: the reply a client gets for the \<open>i\<close>-th message is what \<open>send_commands\<close> answers on
  the exchange that has served exactly the messages sent before it, in the order of sending.\<close>

theorem channel_is_sequential:
  assumes run: "system_run b fx clock ex0 s" and reply: "client_await i s = Answered result_buf"
  shows "i < length (sy_sent s) \<and>
    (\<exists>earlier ex ex'. serve_chunk b fx clock (map ms_command_buf (take i (sy_sent s))) ex0 = (earlier, Some ex) \<and>
       send_commands b fx clock (ms_command_buf (sy_sent s ! i)) ex = Some (result_buf, ex'))"
  using awaited_in_sequence [OF system_run_ok [OF run] reply] .

theorem channel_is_sequential_witness:
  "\<exists>ex'. send_commands Release (i33f31_ops Release) demo_clock [command.GetAssets] demo_exchange =
     Some ([GetAssets (ex_traded_assets demo_exchange)], ex')"
proof -
  have "client_await 0 demo_answered = Answered [GetAssets (ex_traded_assets demo_exchange)]"
    by (simp add: client_await_def demo_session_defs)
  from channel_is_sequential [OF demo_answered_run this] show ?thesis by (auto simp: demo_session_defs)
qed

section \<open>Progress\<close>



section \<open>Bounds and shutdown\<close>

text \<open>C10: In every state of the system the channel and the thread's chunk hold at most the 32 messages
  of the channel's capacity; what waits in them is, in the order of sending, what was sent and has no
  reply yet; and the thread stops only after every handle and client is gone and every message is
  answered.\<close>

theorem channel_bounds_and_shutdown:
  assumes run: "system_run b fx clock ex0 s"
  shows "length (sy_queue s) \<le> 32 \<and> length (sy_channel_buf s) \<le> 32 \<and>
    (case sy_thread s of
       Running ex \<Rightarrow> sy_channel_buf s @ sy_queue s = drop (length (sy_replies s)) (sy_sent s)
     | Stopped ex \<Rightarrow> sy_handles s = 0 \<and> sy_clients s = 0 \<and> length (sy_replies s) = length (sy_sent s)
     | Panicked \<Rightarrow> length (sy_replies s) < length (sy_sent s))"
proof -
  have ok: "system_ok b fx clock ex0 s" using run by (rule system_run_ok)
  show ?thesis
  proof (cases "sy_thread s")
    case (Running ex)
    with ok show ?thesis by (simp add: system_ok_def Let_def MPSC_CAPACITY_def)
  next
    case (Stopped ex)
    with ok have "serve_chunk b fx clock (map ms_command_buf (sy_sent s)) ex0 = (map snd (sy_replies s), Some ex)"
      by (simp add: system_ok_def Let_def)
    from thread.answered_length [OF this] Stopped ok show ?thesis
      by (simp add: system_ok_def Let_def MPSC_CAPACITY_def)
  next
    case Panicked
    with ok have "serve_chunk b fx clock (map ms_command_buf (sy_sent s)) ex0 = (map snd (sy_replies s), None)"
      by (simp add: system_ok_def Let_def)
    from thread.answered_length [OF this] Panicked ok show ?thesis
      by (simp add: system_ok_def Let_def MPSC_CAPACITY_def)
  qed
qed

theorem channel_bounds_and_shutdown_witness:
  "sy_channel_buf demo_sent @ sy_queue demo_sent = drop 0 [demo_message]"
  using channel_bounds_and_shutdown [OF demo_sent_run] by (simp add: demo_session_defs)

section \<open>A connection among others\<close>

text \<open>An encoder for the examples: it knows one reply, and encodes it as no bytes.\<close>

definition demo_to_vec :: "i33f31 command_result list \<Rightarrow> bytes option" where
  "demo_to_vec results = (if results = [GetAssets (ex_traded_assets demo_exchange)] then Some [] else None)"

text \<open>C7: A connection is served correctly among all others. However its bytes are cut and whatever other
  clients do between any two of its steps: the messages it sends are those its input holds, in order, at
  most one of them unanswered; what it has written decodes to the replies, in order; each reply is what
  \<open>send_commands\<close> answers on the exchange that has served all messages sent before, by whomever; and one
  latency sample per reply, with the number of its commands, was recorded.\<close>

theorem connection_among_others:
  assumes run: "connection_run b fx clock to_vec from_slice ex0 c s"
    and inverse: "\<forall>mp results. to_vec results = Some mp \<longrightarrow> from_reply mp = Some results"
  shows "\<exists>results. drain from_reply (cn_output c) = (results, None, []) \<and>
    prefix (sent_bufs c s) (fst (drain from_slice (cn_input c))) \<and>
    length results \<le> length (sent_bufs c s) \<and> length (sent_bufs c s) \<le> Suc (length results) \<and>
    map snd (cn_samples c) = map (of_nat \<circ> length) (take (length results) (sent_bufs c s)) \<and>
    sorted_wrt (<) (cn_sent c) \<and>
    (\<forall>k < length results. \<exists>earlier ex ex'.
       serve_chunk b fx clock (map ms_command_buf (take (cn_sent c ! k) (sy_sent s))) ex0 = (earlier, Some ex) \<and>
       send_commands b fx clock (sent_bufs c s ! k) ex = Some (results ! k, ex'))"
proof -
  from connection_run_ok [OF run] have system: "system_run b fx clock ex0 s"
    and ok: "conversation_ok to_vec c s" and input: "input_ok from_slice c s" by simp_all
  let ?n = "length (cn_samples c)"
  obtain results mps where out: "cn_output c = concat (map frame mps)"
    and enc: "list_all2 (\<lambda>mp r. length mp \<le> 2 ^ 16 - 1 \<and> to_vec r = Some mp) mps results"
    and await: "list_all2 (\<lambda>i r. client_await i s = Answered r) (take ?n (cn_sent c)) results"
    using ok by (auto simp: conversation_ok_def replies_ok_def)
  have n: "length results = ?n" and len: "?n \<le> length (cn_sent c)"
    using list_all2_lengthD [OF await] ok by (simp_all add: conversation_ok_def)
  have "list_all2 (\<lambda>mp r. length mp \<le> 2 ^ 16 - 1 \<and> from_reply mp = Some r) mps results"
    by (rule list_all2_mono [OF enc]) (use inverse in blast)
  from drain_frames [OF this, of "[]"] have "drain from_reply (cn_output c) = (results, None, [])"
    by (simp add: out drain.simps [of _ "[]"] mp_decode_def)
  moreover have "prefix (sent_bufs c s) (fst (drain from_slice (cn_input c)))"
    using input by (auto simp: input_ok_def split: if_splits prod.splits)
  moreover have "length (sent_bufs c s) \<le> Suc (length results)"
    using unanswered_at_most_one [OF ok] n by (simp add: sent_bufs_def)
  moreover have "\<exists>earlier ex ex'.
      serve_chunk b fx clock (map ms_command_buf (take (cn_sent c ! k) (sy_sent s))) ex0 = (earlier, Some ex) \<and>
      send_commands b fx clock (sent_bufs c s ! k) ex = Some (results ! k, ex')" if "k < length results" for k
  proof -
    from list_all2_nthD2 [OF await that] that n have "client_await (cn_sent c ! k) s = Answered (results ! k)" by simp
    from awaited_in_sequence [OF system_run_ok [OF system] this] that n len show ?thesis
      by (simp add: sent_bufs_def sent_buf_def)
  qed
  ultimately show ?thesis using ok n len by (intro exI [of _ results]) (simp add: conversation_ok_def sent_bufs_def)
qed

theorem connection_among_others_witness:
  "\<exists>c s. connection_run Release (i33f31_ops Release) demo_clock demo_to_vec (\<lambda>_. Some [command.GetAssets])
       demo_exchange c s \<and> sent_bufs c s = [[command.GetAssets]] \<and>
     drain (\<lambda>_. Some [GetAssets (ex_traded_assets demo_exchange) :: i33f31 command_result]) (cn_output c) =
       ([[GetAssets (ex_traded_assets demo_exchange)]], None, [])"
proof -
  let ?fx = "i33f31_ops Release" and ?from = "\<lambda>_ :: bytes. Some [command.GetAssets :: i33f31 command]"
  let ?run = "connection_run Release ?fx demo_clock demo_to_vec ?from demo_exchange"
  define c1 where "c1 = (new_connection :: i33f31 connection)\<lparr>cn_buf := [0, 0], cn_input := [0, 0]\<rparr>"
  define c2 where "c2 = c1\<lparr>cn_buf := [], cn_state := Sending [command.GetAssets]\<rparr>"
  define c3 where "c3 = c2\<lparr>cn_state := Awaiting 0 1, cn_sent := [0]\<rparr>"
  define c4 where "c4 = c3\<lparr>cn_state := Reading, cn_output := [0, 0], cn_samples := [(7, 1)]\<rparr>"
  note cs = c4_def c3_def c2_def c1_def new_connection_def
  have begins: "?run new_connection (get_client (run demo_exchange))"
    by (rule connection_begins [OF run_start]) (simp add: run_def)
  have "?run c1 (get_client (run demo_exchange))"
    by (rule connection_task [OF begins, where event = "Bytes_arrive [0, 0]"]) (simp add: cs)
  then have "?run c2 (get_client (run demo_exchange))"
    by (rule connection_task [where event = "Poll False True 0"])
      (simp add: cs next_frame_def mp_decode_def from_be_bytes_def)
  then have "?run c3 demo_sent"
    by (rule connection_task [where event = "Poll False True 0"])
      (simp add: cs send_decoded_def Let_def client_send_def demo_session_defs MPSC_CAPACITY_def)
  then have "?run c3 demo_received"
    by (rule connection_others [OF _ step_thread [OF demo_steps(1)]]) (simp add: demo_session_defs)
  then have "?run c3 demo_answered"
    by (rule connection_others [OF _ step_thread [OF demo_steps(2)]]) (simp add: demo_session_defs)
  then have run: "?run c4 demo_answered"
    by (rule connection_task [where event = "Poll False True 7"])
      (simp add: cs write_reply_def client_await_def demo_session_defs mp_encode_def demo_to_vec_def to_be_bytes_def)
  have sent: "sent_bufs c4 demo_answered = [[command.GetAssets]]"
    by (simp add: sent_bufs_def sent_buf_def cs demo_session_defs)
  let ?answer = "\<lambda>_ :: bytes. Some [GetAssets (ex_traded_assets demo_exchange) :: i33f31 command_result]"
  have inverse: "\<forall>mp results. demo_to_vec results = Some mp \<longrightarrow> ?answer mp = Some results"
    by (simp add: demo_to_vec_def split: if_splits)
  obtain results where results: "drain ?answer (cn_output c4) = (results, None, [])"
    using connection_among_others [where from_reply = ?answer, OF run inverse] by (elim exE conjE)
  have "drain (\<lambda>_. Some [GetAssets (ex_traded_assets demo_exchange) :: i33f31 command_result]) (cn_output c4) =
      ([[GetAssets (ex_traded_assets demo_exchange)]], None, [])"
    by (simp add: cs drain.simps mp_decode_def from_be_bytes_def)
  with run sent show ?thesis by (intro exI [of _ c4] exI [of _ demo_answered] conjI)
qed

end
