(* ===== verification/Server_Main.thy ===== *)
theory Server_Main
  imports Exchange_Server Channel
begin

text \<open>
  The processes of \<open>src/bin/exchange_server.rs\<close> around the exchange: \<open>main\<close>, which starts the
  exchange from the configuration and then accepts connections and spawns a task for each;
  \<open>collect_metrics\<close>, which publishes the latency percentiles of every interval; and what depends on
  the build.

  The configuration that \<open>figment\<close> extracts, whether the two addresses can be bound, the connections that
  arrive and whether their WebSocket handshake succeeds, and the histogram of \<open>hdrhistogram\<close> are
  arguments. \<open>None\<close> is a panic.
\<close>

section \<open>What depends on the build\<close>

datatype tracing_level = TRACE | INFO

fun tracing_max_level :: "build \<Rightarrow> tracing_level" where
  "tracing_max_level Debug = TRACE"
| "tracing_max_level Release = INFO"

fun get_config_profile :: "build \<Rightarrow> string" where
  "get_config_profile Debug = ''dev''"
| "get_config_profile Release = ''prod''"

section \<open>Metrics\<close>

text \<open>\<open>watch::Sender::send\<close>: an error, and no new value, when every receiver has been dropped.\<close>

definition watch_send :: "bool \<Rightarrow> 'v \<Rightarrow> 'v \<Rightarrow> (unit + unit) \<times> 'v" where
  "watch_send receivers new_value current =
     (if receivers then (Inr (), new_value) else (Inl (), current))"

text \<open>
  One round per element: the clock's seconds, the samples recorded since the last refresh, and whether the
  channel has a receiver. Quantiles are in thousandths. The result is the histogram, the value in the
  channel and whether the loop has ended.
\<close>

fun collect_metrics ::
    "('h \<Rightarrow> 'i \<Rightarrow> 'h) \<Rightarrow> ('h \<Rightarrow> nat \<Rightarrow> u64) \<Rightarrow> ('h \<Rightarrow> 'h) \<Rightarrow> (nat option \<times> 'i \<times> bool) list \<Rightarrow> 'h
     \<Rightarrow> exchange_metrics \<Rightarrow> ('h \<times> exchange_metrics \<times> bool) option" where
  "collect_metrics refresh value_at_quantile clear [] sync_hist published = Some (sync_hist, published, False)"
| "collect_metrics refresh value_at_quantile clear ((now, samples, receivers) # rounds) sync_hist published =
     (let sync_hist = refresh sync_hist samples in
      case now of
        None \<Rightarrow> None
      | Some timestamp \<Rightarrow>
          (let metrics = \<lparr>xm_timestamp = of_nat timestamp, xm_p50 = value_at_quantile sync_hist 500,
                 xm_p90 = value_at_quantile sync_hist 900, xm_p999 = value_at_quantile sync_hist 999\<rparr>;
               sync_hist = clear sync_hist
           in case watch_send receivers metrics published of
                (Inl _, published) \<Rightarrow> Some (sync_hist, published, True)
              | (Inr _, published) \<Rightarrow>
                  collect_metrics refresh value_at_quantile clear rounds sync_hist published))"

text \<open>What is published is about the last interval only, when a cleared histogram keeps no sample.\<close>

lemma metrics_of_the_last_interval:
  assumes clear: "\<And>h samples. refresh (clear h) samples = window samples"
    and start: "\<And>samples. refresh h0 samples = window samples"
    and live: "\<forall>(now, samples, receivers) \<in> set rounds. now \<noteq> None \<and> receivers"
  shows "\<exists>h. collect_metrics refresh value_at_quantile clear (rounds @ [(Some secs, samples, True)]) h0 published =
    Some (h, \<lparr>xm_timestamp = of_nat secs, xm_p50 = value_at_quantile (window samples) 500,
              xm_p90 = value_at_quantile (window samples) 900,
              xm_p999 = value_at_quantile (window samples) 999\<rparr>, False)"
  using start live
proof (induction rounds arbitrary: h0 published)
  case Nil
  then show ?case by (simp add: watch_send_def Let_def)
next
  case (Cons r rounds)
  obtain s samples' where r: "r = (Some s, samples', True)" using Cons.prems(2) by (cases r) auto
  show ?case
    using Cons.IH [of "clear (window samples')"] clear Cons.prems by (simp add: r watch_send_def Let_def)
qed

text \<open>Without a receiver the loop ends and the last value stays.\<close>

lemma metrics_end:
  "collect_metrics refresh value_at_quantile clear ((Some secs, samples, False) # rounds) h published =
     Some (clear (refresh h samples), published, True)"
  by (simp add: watch_send_def Let_def)

section \<open>Accepting connections\<close>

datatype task =
  Connection_task string nat
| Ws_task string u64

record 'p server =
  sv_system :: "'p system"
  sv_tasks :: "task list"

text \<open>
  What one \<open>select!\<close> comes to: a connection of a client or of a WebSocket, with the result of its
  handshake, or an error of both listeners, on which no branch is left and \<open>select!\<close> panics.
\<close>

datatype accepted = Client_accepted string | Ws_accepted string bool | Both_failed

fun accept_one :: "exchange_server_config \<Rightarrow> accepted \<Rightarrow> 'p server \<Rightarrow> 'p server option" where
  "accept_one config (Client_accepted addr) sv =
     Some (sv\<lparr>sv_system := get_client (sv_system sv),
              sv_tasks := sv_tasks sv @ [Connection_task addr (cfg_tcp_buffer_size config)]\<rparr>)"
| "accept_one config (Ws_accepted addr handshake) sv =
     Some (if handshake
           then sv\<lparr>sv_system := get_client (sv_system sv),
                   sv_tasks := sv_tasks sv @ [Ws_task addr (cfg_ws_send_interval_ms config)]\<rparr>
           else sv)"
| "accept_one config Both_failed sv = None"

text \<open>\<open>main\<close> up to its loop: the exchange runs, and both addresses must be bound.\<close>

definition server_start ::
    "build \<Rightarrow> 'p fixed_ops \<Rightarrow> (nat \<Rightarrow> nat) \<Rightarrow> exchange_server_config \<Rightarrow> bool \<Rightarrow> bool \<Rightarrow> 'p server option" where
  "server_start b fx alloc config bound_client bound_ws =
     (case server_exchange b fx alloc config of
        None \<Rightarrow> None
      | Some exchange \<Rightarrow>
          if \<not> bound_client then None
          else if \<not> bound_ws then None
          else Some \<lparr>sv_system = run exchange, sv_tasks = []\<rparr>)"

text \<open>The loop of \<open>main\<close> beside the exchange's thread and the tasks: a task sends through its client
  and drops it when its connection ends. \<open>main\<close> keeps its handle.\<close>

inductive server_run ::
    "build \<Rightarrow> 'p::linorder fixed_ops \<Rightarrow> clock \<Rightarrow> exchange_server_config \<Rightarrow> 'p server \<Rightarrow> 'p server \<Rightarrow> bool"
  for b fx clock config sv0 where
  server_begins: "server_run b fx clock config sv0 sv0"
| server_accepts:
    "server_run b fx clock config sv0 sv \<Longrightarrow> accept_one config event sv = Some sv' \<Longrightarrow>
     server_run b fx clock config sv0 sv'"
| server_thread:
    "server_run b fx clock config sv0 sv \<Longrightarrow> thread_step b fx clock (sv_system sv) s' \<Longrightarrow>
     server_run b fx clock config sv0 (sv\<lparr>sv_system := s'\<rparr>)"
| task_sends:
    "server_run b fx clock config sv0 sv \<Longrightarrow> 0 < sy_clients (sv_system sv) \<Longrightarrow>
     client_send command_buf (sv_system sv) = Sent s' \<Longrightarrow>
     server_run b fx clock config sv0 (sv\<lparr>sv_system := s'\<rparr>)"
| task_ends:
    "server_run b fx clock config sv0 sv \<Longrightarrow> 0 < sy_clients (sv_system sv) \<Longrightarrow>
     server_run b fx clock config sv0
       (sv\<lparr>sv_system := (sv_system sv)\<lparr>sy_clients := sy_clients (sv_system sv) - 1\<rparr>\<rparr>)"

text \<open>The server is a run of the system of \<open>Channel\<close> in which the handle stays, so its thread does not
  stop, and only the tasks spawned have clients.\<close>

lemma client_send_senders:
  "client_send command_buf s = Sent s' \<Longrightarrow> sy_handles s' = sy_handles s \<and> sy_clients s' = sy_clients s"
  by (auto simp: client_send_def Let_def split: if_splits)

lemma server_run_system:
  assumes "server_run b fx clock config sv0 sv" and "sv0 = \<lparr>sv_system = run ex0, sv_tasks = []\<rparr>"
  shows "system_run b fx clock ex0 (sv_system sv) \<and> sy_handles (sv_system sv) = 1 \<and>
    sy_clients (sv_system sv) \<le> length (sv_tasks sv)"
  using assms
proof (induction rule: server_run.induct)
  case server_begins
  then show ?case by (simp add: run_start) (simp add: run_def)
next
  case (server_accepts sv event sv')
  have "system_step b fx clock (sv_system sv) (get_client (sv_system sv))"
    using server_accepts.IH server_accepts.prems by (intro step_get_client) simp
  with server_accepts show ?case
    by (cases event) (auto simp: get_client_def intro: run_step)
next
  case (server_thread sv s')
  with thread_step_works(3,4) [OF server_thread.hyps(2)] show ?case
    by (auto intro: run_step step_thread)
next
  case (task_sends sv command_buf s')
  have "system_step b fx clock (sv_system sv) s'"
    using task_sends.hyps(2,3) by (intro step_send) simp_all
  with task_sends client_send_senders [OF task_sends.hyps(3)] show ?case by (auto intro: run_step)
next
  case (task_ends sv)
  with step_drop_client [OF task_ends.hyps(2), of b fx clock] show ?case by (auto intro: run_step)
qed

lemma server_never_stops:
  assumes "server_start b fx alloc config True True = Some sv0" and "server_run b fx clock config sv0 sv"
  shows "sy_thread (sv_system sv) \<noteq> Stopped ex"
proof -
  obtain ex0 where "sv0 = \<lparr>sv_system = run ex0, sv_tasks = []\<rparr>"
    using assms(1) by (auto simp: server_start_def split: option.splits)
  from server_run_system [OF assms(2) this] have run: "system_run b fx clock ex0 (sv_system sv)"
    and handle: "sy_handles (sv_system sv) = 1" by simp_all
  from system_run_ok [OF run] handle show ?thesis by (auto simp: system_ok_def Let_def)
qed

section \<open>The whole of \<open>main\<close>\<close>

text \<open>
  What is left running when \<open>main\<close> enters its loop: the exchange and the listeners, the level of the
  global tracing subscriber, and the metrics thread's histogram with the value of its \<open>watch\<close> channel.
\<close>

record ('p, 'h) process =
  pr_server :: "'p server"
  pr_config :: exchange_server_config
  pr_tracing :: tracing_level
  pr_sync_hist :: 'h
  pr_metrics :: exchange_metrics

definition unwrapped :: "bool \<Rightarrow> unit option" where
  "unwrapped ok = (if ok then Some () else None)"

text \<open>
  \<open>set_global_default\<close> says whether the subscriber can be set. \<open>extract_config\<close> is \<open>figment\<close> on the defaults and
  the selected profile of \<open>Config.toml\<close>, \<open>can_bind\<close> whether an address can be bound when others already
  are, and \<open>new_with_bounds\<close> the histogram.
\<close>

definition server_main ::
    "build \<Rightarrow> 'p fixed_ops \<Rightarrow> (nat \<Rightarrow> nat) \<Rightarrow> (tracing_level \<Rightarrow> bool)
     \<Rightarrow> (exchange_server_config \<Rightarrow> string \<Rightarrow> exchange_server_config option)
     \<Rightarrow> (string list \<Rightarrow> string \<Rightarrow> bool) \<Rightarrow> (nat \<Rightarrow> nat \<Rightarrow> nat \<Rightarrow> 'h option) \<Rightarrow> ('p, 'h) process option" where
  "server_main b fx alloc set_global_default extract_config can_bind new_with_bounds = do {
     let subscriber = tracing_max_level b;
     _ \<leftarrow> unwrapped (set_global_default subscriber);
     config \<leftarrow> extract_config default_server_config (get_config_profile b);
     let address_client = cfg_bind_address_client config;
     let bound_client = can_bind [] address_client;
     let bound_ws = can_bind [address_client] (cfg_bind_address_websocket config);
     sv \<leftarrow> server_start b fx alloc config bound_client bound_ws;
     sync_hist \<leftarrow> new_with_bounds 1 1000000 3;
     Some \<lparr>pr_server = sv, pr_config = config, pr_tracing = subscriber, pr_sync_hist = sync_hist,
       pr_metrics = default_metrics\<rparr>
   }"

text \<open>The configurations with which the exchange starts, and with which it is a consistent one.\<close>

definition market_names :: "exchange_server_config \<Rightarrow> asset_id_pair list \<Rightarrow> bool" where
  "market_names config markets \<longleftrightarrow>
     map (resolve (listing 0 (cfg_starting_assets config))) (cfg_starting_markets config) = map Some markets \<and>
     distinct markets"

lemma server_exchange_panics:
  fixes fx :: "'p::linorder fixed_ops"
  assumes "cfg_starting_accounts config < 2 ^ 32" and "length (cfg_starting_assets config) < 2 ^ 32"
    and "0 < alloc 100"
  shows "server_exchange b fx alloc config \<noteq> None \<longleftrightarrow> (\<exists>markets. market_names config markets)"
  using custom_panics [where alloc = alloc and b = b and fx = fx
      and create_markets = "cfg_starting_markets config", OF assms]
  by (auto simp: server_exchange_def market_names_def split: option.splits)

lemma server_exchange_ok:
  fixes fx :: "'p::linorder fixed_ops"
  assumes "cfg_starting_accounts config < 2 ^ 32" and "length (cfg_starting_assets config) < 2 ^ 32"
    and "0 < alloc 100" and "market_names config markets"
    and "\<forall>pair \<in> set markets. primary pair \<noteq> secondary pair"
  shows "\<exists>ex. server_exchange b fx alloc config = Some ex \<and> exchange_ok ex \<and> ms_keys (ex_markets ex) = markets"
  using custom_ok [where alloc = alloc and b = b and fx = fx and markets = markets
      and create_markets = "cfg_starting_markets config", OF assms(1-3)] assms(4,5)
  by (auto simp: server_exchange_def market_names_def)

end
