(* ===== verification/Build_Refinement.thy ===== *)
theory Build_Refinement
  imports Channel Exchange_Configs
begin

text \<open>
  The two builds compared. A build with overflow checks panics where one without them wraps, so the
  checked build refines the unchecked one: as long as it does not panic, both compute the same.
  \<open>agrees\<close> is that order on computations that may panic, and every operation of the exchange is
  shown to respect it, from the integer arithmetic up to the exchange's thread. Where the checked
  build has been run and has not panicked, what was seen holds of the release build.

  The locale \<open>checked_build\<close> is what the two builds promise of their operations: one relation
  between their arithmetics. It is interpreted on the numbers of \<open>Fixed_Price\<close>.
\<close>

section \<open>The order on computations that may panic\<close>

definition agrees :: "'a option \<Rightarrow> 'a option \<Rightarrow> bool" where
  "agrees x y \<longleftrightarrow> (\<forall>v. x = Some v \<longrightarrow> y = Some v)"

named_theorems agrees_intros "each operation of the checked build agrees with the unchecked one"

lemma agreesI: "(\<And>v. x = Some v \<Longrightarrow> y = Some v) \<Longrightarrow> agrees x y"
  by (simp add: agrees_def)

lemma agreesD: "agrees x y \<Longrightarrow> x = Some v \<Longrightarrow> y = Some v"
  by (simp add: agrees_def)

lemma agrees_refl [simp, agrees_intros]: "agrees x x"
  by (simp add: agrees_def)

lemma agrees_None [simp, agrees_intros]: "agrees None y"
  by (simp add: agrees_def)

lemma agrees_case [agrees_intros]:
  "agrees x y \<Longrightarrow> (\<And>v. agrees (f v) (g v)) \<Longrightarrow>
   agrees (case x of None \<Rightarrow> None | Some v \<Rightarrow> f v) (case y of None \<Rightarrow> None | Some v \<Rightarrow> g v)"
  by (cases x) (auto simp: agrees_def)

lemma agrees_bind [agrees_intros]:
  "agrees x y \<Longrightarrow> (\<And>v. agrees (f v) (g v)) \<Longrightarrow> agrees (Option.bind x f) (Option.bind y g)"
  by (cases x) (auto simp: agrees_def)

lemma agrees_map [agrees_intros]: "agrees x y \<Longrightarrow> agrees (map_option f x) (map_option f y)"
  by (cases x) (auto simp: agrees_def)

lemma agrees_if [agrees_intros]:
  "agrees x y \<Longrightarrow> agrees x' y' \<Longrightarrow> agrees (if c then x else x') (if c then y else y')"
  by simp

lemma agrees_known [agrees_intros]:
  "agrees n n' \<Longrightarrow> (\<And>v. agrees (f v) (g v)) \<Longrightarrow>
   agrees (case z of None \<Rightarrow> n | Some v \<Rightarrow> f v) (case z of None \<Rightarrow> n' | Some v \<Rightarrow> g v)"
  by (cases z) simp_all

lemma agrees_sum [agrees_intros]:
  "(\<And>v. agrees (f v) (f' v)) \<Longrightarrow> (\<And>v. agrees (g v) (g' v)) \<Longrightarrow>
   agrees (case z of Inl v \<Rightarrow> f v | Inr v \<Rightarrow> g v) (case z of Inl v \<Rightarrow> f' v | Inr v \<Rightarrow> g' v)"
  by (cases z) simp_all

lemma agrees_prod [agrees_intros]:
  "(\<And>u v. agrees (f u v) (g u v)) \<Longrightarrow>
   agrees (case z of (u, v) \<Rightarrow> f u v) (case z of (u, v) \<Rightarrow> g u v)"
  by (cases z) simp_all

lemma agrees_Let [agrees_intros]:
  "(\<And>v. agrees (f v) (g v)) \<Longrightarrow> agrees (let v = x in f v) (let v = x in g v)"
  by simp

section \<open>Integers and volumes\<close>

lemma u32_add_agrees [agrees_intros]: "agrees (u32_add b x y) (u32_add Release x y)"
  by (simp add: agrees_def u32_add_def)

lemma u32_sub_agrees [agrees_intros]: "agrees (u32_sub b x y) (u32_sub Release x y)"
  by (simp add: agrees_def u32_sub_def)

lemma u32_sum_agrees [agrees_intros]: "agrees (u32_sum b xs) (u32_sum Release xs)"
proof -
  have "agrees (u32_sum_from b acc xs) (u32_sum_from Release acc xs)" for acc
  proof (induction xs arbitrary: acc)
    case (Cons x xs)
    show ?case
      unfolding u32_sum_from.simps by (rule agrees_case [OF u32_add_agrees Cons.IH])
  qed simp
  then show ?thesis by (simp add: u32_sum_def)
qed

section \<open>The order book and its market\<close>

lemma check_volume_agrees [agrees_intros]:
  "agrees (check_volume b order ob) (check_volume Release order ob)"
  by (rule agreesI) (rule check_volume_same)

lemma market_insert_agrees [agrees_intros]:
  "agrees (market_insert_order b order m buf) (market_insert_order Release order m buf)"
proof -
  have "agrees (ob_insert_order b order ob buf) (ob_insert_order Release order ob buf)" for ob
    unfolding ob_insert_order_def by (intro agrees_intros)
  then show ?thesis unfolding market_insert_order_def by (intro agrees_intros)
qed

lemma aggregate_level_agrees [agrees_intros]:
  "agrees (aggregate_level b l) (aggregate_level Release l)"
  unfolding aggregate_level_def by (intro agrees_intros)

lemma market_l1_agrees [agrees_intros]: "agrees (market_get_l1 b m) (market_get_l1 Release m)"
  unfolding market_get_l1_def ob_get_l1_def aggregate_best_def by (intro agrees_intros)

lemma market_l2_agrees [agrees_intros]: "agrees (market_get_l2 b m) (market_get_l2 Release m)"
proof -
  have [agrees_intros]: "agrees (aggregate_levels b ls) (aggregate_levels Release ls)" for ls :: "'a levels"
  proof (induction ls)
    case (Cons l ls)
    show ?case
      unfolding aggregate_levels.simps
      by (rule agrees_case [OF aggregate_level_agrees agrees_case [OF Cons.IH agrees_refl]])
  qed simp
  show ?thesis unfolding market_get_l2_def ob_get_l2_def by (intro agrees_intros)
qed

lemma collect_l1_agrees [agrees_intros]: "agrees (collect_l1 b ms) (collect_l1 Release ms)"
proof (induction ms)
  case (Cons m ms)
  show ?case
    unfolding collect_l1.simps by (rule agrees_case [OF market_l1_agrees agrees_map [OF Cons.IH]])
qed simp

section \<open>The arithmetic of the two builds\<close>

locale checked_build =
  fixes fx fx' :: "('p::linorder) fixed_ops"
  assumes same_zero: "fx_zero fx = fx_zero fx'"
    and same_from_u32: "fx_from_u32 fx v = fx_from_u32 fx' v"
    and add_agrees: "agrees (fx_add fx x y) (fx_add fx' x y)"
    and sub_agrees: "agrees (fx_sub fx x y) (fx_sub fx' x y)"
    and mul_agrees: "agrees (fx_mul fx x y) (fx_mul fx' x y)"
begin

lemma update_balances_agrees:
  "agrees (update_balances fx s p q refs bk) (update_balances fx' s p q refs bk)"
proof -
  have at: "agrees (apply_at f i x bk') (apply_at g i x bk')"
    if "\<And>x y. agrees (f x y) (g x y)" for f g i x and bk' :: "'p balance_book"
    unfolding apply_at_def by (intro agrees_intros that)
  note steps = at [where f = "fx_add fx", OF add_agrees] at [where f = "fx_sub fx", OF sub_agrees]
  show ?thesis
  proof (cases "length refs = 4")
    case True
    then obtain i j k l where "refs = [i, j, k, l]" by (auto simp: numeral_eq_Suc length_Suc_conv)
    then show ?thesis by (cases s) (auto simp: update_balances_def intro!: agrees_bind steps)
  next
    case False
    then show ?thesis by (auto simp: update_balances_def split: list.split)
  qed
qed

lemma settle_transaction_agrees:
  "agrees (settle_transaction b fx clock pair t ex) (settle_transaction Release fx' clock pair t ex)"
  unfolding settle_transaction_def same_from_u32 take_volume_def
  by (intro agrees_intros mul_agrees update_balances_agrees)

lemma process_transactions_agrees:
  "agrees (process_transactions b fx clock pair ex) (process_transactions Release fx' clock pair ex)"
proof -
  have "agrees (settle_popped b fx clock pair ts ex) (settle_popped Release fx' clock pair ts ex)" for ts ex
  proof (induction ts arbitrary: ex)
    case (Cons t ts)
    show ?case
      unfolding settle_popped.simps by (rule agrees_case [OF settle_transaction_agrees Cons.IH])
  qed simp
  then show ?thesis by (simp add: process_transactions_def)
qed

lemma exchange_insert_agrees:
  "agrees (exchange_insert_order b fx clock req ex) (exchange_insert_order Release fx' clock req ex)"
  unfolding exchange_insert_order_def by (intro agrees_intros process_transactions_agrees)

lemma add_asset_agrees:
  "agrees (exchange_add_asset b fx name symbol ex) (exchange_add_asset Release fx' name symbol ex)"
  unfolding exchange_add_asset_def bb_add_asset_def same_zero by (intro agrees_intros)

lemma create_account_agrees:
  "agrees (create_account b fx ex) (create_account Release fx' ex)"
  unfolding create_account_def bb_add_account_def same_zero by (intro agrees_intros)

lemma exchange_modify_agrees:
  "agrees (exchange_modify_order b req ex) (exchange_modify_order Release req ex)"
  unfolding exchange_modify_order_def into_order_modification_def modified_order_def
  by (intro agrees_intros)

lemma add_market_same: "exchange_add_market fx pair ex = exchange_add_market fx' pair ex"
  by (simp add: exchange_add_market_def same_zero)

section \<open>Commands and the thread\<close>

lemma handle_command_agrees:
  "agrees (handle_command b fx clock cmd ex) (handle_command Release fx' clock cmd ex)"
  by (cases cmd)
    (auto simp: query_def get_orderbook_l1_def get_orderbook_l2_def get_all_orderbook_l1_def add_market_same
      intro!: agrees_intros exchange_insert_agrees exchange_modify_agrees split: option.split)

lemma handle_buffer_agrees:
  "agrees (handle_buffer b fx clock cmds ex) (handle_buffer Release fx' clock cmds ex)"
proof (induction cmds arbitrary: ex)
  case (Cons cmd cmds)
  show ?case
    unfolding handle_buffer.simps by (intro agrees_intros handle_command_agrees Cons.IH)
qed simp

text \<open>Served one by one: the same, or the same replies up to the panic.\<close>

lemma serve_chunk_agrees:
  assumes "serve_chunk b fx clock bufs ex = (replies, end_state)"
  shows "case end_state of
      Some ex' \<Rightarrow> serve_chunk Release fx' clock bufs ex = (replies, Some ex')
    | None \<Rightarrow> prefix replies (fst (serve_chunk Release fx' clock bufs ex))"
  using assms
proof (induction bufs arbitrary: ex replies)
  case (Cons cmds bufs)
  show ?case
  proof (cases "handle_buffer b fx clock cmds ex")
    case None
    with Cons.prems show ?thesis by auto
  next
    case (Some r)
    then obtain rs ex1 where one: "handle_buffer b fx clock cmds ex = Some (rs, ex1)" by (cases r) auto
    with Cons.prems obtain rest where "serve_chunk b fx clock bufs ex1 = (rest, end_state)"
      and "replies = rs # rest" by (auto split: prod.splits)
    with Cons.IH agreesD [OF handle_buffer_agrees one] show ?thesis
      by (fastforce split: option.splits prod.splits)
  qed
qed auto

lemma thread_step_refines:
  assumes "thread_step b fx clock s s'" and "sy_thread s' \<noteq> Panicked"
  shows "thread_step Release fx' clock s s'"
  using assms(1)
proof (cases rule: thread_step.cases)
  case (thread_receive ex n)
  then show ?thesis by (simp add: thread_step.thread_receive)
next
  case (thread_serve ex)
  then have s': "s' = serve_next b fx clock ex s" by simp
  with assms(2) obtain r where r: "handle_buffer b fx clock (ms_command_buf (hd (sy_channel_buf s))) ex = Some r"
    by (auto simp: serve_next_def Let_def split: option.splits)
  from agreesD [OF handle_buffer_agrees r] have "s' = serve_next Release fx' clock ex s"
    by (simp add: s' serve_next_def Let_def r)
  then show ?thesis by (simp add: thread_step.thread_serve [OF thread_serve(2,3)])
next
  case (thread_stop ex)
  then show ?thesis by (simp add: thread_step.thread_stop)
qed

lemma panicked_stays:
  assumes "system_step b fx clock s s'" and "sy_thread s = Panicked"
  shows "sy_thread s' = Panicked"
  using assms by (auto simp: get_client_def client_send_def Let_def elim!: system_stepE thread_stepE split: if_splits)

lemma system_run_refines:
  "system_run b fx clock ex0 s \<Longrightarrow> sy_thread s \<noteq> Panicked \<Longrightarrow> system_run Release fx' clock ex0 s"
proof (induction rule: system_run.induct)
  case run_start
  show ?case by (rule system_run.run_start)
next
  case (run_step s s')
  have "sy_thread s \<noteq> Panicked" using panicked_stays [OF run_step.hyps(2)] run_step.prems by blast
  then have run: "system_run Release fx' clock ex0 s" by (rule run_step.IH)
  from run_step.hyps(2) have "system_step Release fx' clock s s'"
  proof (cases rule: system_step.cases)
    case step_thread
    then show ?thesis using thread_step_refines run_step.prems system_step.step_thread by blast
  qed (simp_all only: system_step.intros)
  with run show ?case by (rule system_run.run_step)
qed

end

section \<open>The numbers\<close>

interpretation checked_i33f31: checked_build "i33f31_ops b" "i33f31_ops Release" for b
  by unfold_locales (auto simp: i33f31_ops_def i33f31_of_int_def agrees_def)

section \<open>Setups\<close>

context checked_build
begin

lemma create_accounts_agrees:
  "agrees (create_accounts b fx n ex) (create_accounts Release fx' n ex)"
proof (induction n arbitrary: ex)
  case (Suc n)
  show ?case
    unfolding create_accounts.simps by (intro agrees_intros create_account_agrees Suc.IH)
qed simp

lemma list_assets_agrees:
  "agrees (list_assets b fx create_assets ex) (list_assets Release fx' create_assets ex)"
proof (induction create_assets arbitrary: ex)
  case (Cons a create_assets)
  show ?case
    unfolding list_assets.simps by (intro agrees_intros add_asset_agrees Cons.IH)
qed simp

lemma add_markets_same: "add_markets fx pairs ex = add_markets fx' pairs ex"
  by (induction pairs arbitrary: ex) (simp_all add: add_market_same split: option.split)

lemma create_symbolic_markets_same:
  "create_symbolic_markets fx assets ms ex = create_symbolic_markets fx' assets ms ex"
  by (induction ms arbitrary: ex) (simp_all add: add_market_same)

lemmas setup_agrees =
  agrees_intros create_account_agrees create_accounts_agrees add_asset_agrees list_assets_agrees

lemma custom_agrees:
  "agrees (custom b fx alloc assets markets n) (custom Release fx' alloc assets markets n)"
  unfolding custom_def create_symbolic_markets_same by (intro setup_agrees)

lemma presets_agree:
  "agrees (market_eur_usd b fx alloc) (market_eur_usd Release fx' alloc)"
  "agrees (market_eur_usd_accs_2 b fx alloc) (market_eur_usd_accs_2 Release fx' alloc)"
  "agrees (markets_5_accs_5 b fx alloc) (markets_5_accs_5 Release fx' alloc)"
  unfolding market_eur_usd_def market_eur_usd_accs_2_def markets_5_accs_5_def add_market_same add_markets_same
  by (intro setup_agrees)+

end

end
