(* ===== verification/Server_Properties.thy ===== *)
theory Server_Properties
  imports Server_Main Build_Refinement Exchange_Samples
begin

text \<open>
  The properties of the server as a whole: when \<open>main\<close> starts it, that its exchange survives, and that a
  release build does what a debug build was seen to do.
\<close>

section \<open>Starting the server\<close>

text \<open>C38: \<open>main\<close> gets to its loop exactly when the tracing subscriber can be set, every symbol of the
  configured markets is a configured asset and no market is named twice, both addresses can be bound, the
  second beside the first, and the histogram has its bounds; otherwise it panics. What it then runs is, with
  the configuration of the build's profile, an exchange with these markets, consistent when none is of an
  asset with itself, and nobody connected.\<close>

theorem main_starts_exactly_when:
  fixes fx :: "'p::linorder fixed_ops"
  assumes config: "extract_config default_server_config (get_config_profile b) = Some config"
    and room: "cfg_starting_accounts config < 2 ^ 32" "length (cfg_starting_assets config) < 2 ^ 32"
    and alloc: "0 < alloc 100"
  shows "(server_main b fx alloc set_global_default extract_config can_bind new_with_bounds \<noteq> None \<longleftrightarrow>
      set_global_default (tracing_max_level b) \<and> (\<exists>markets. market_names config markets) \<and>
      can_bind [] (cfg_bind_address_client config) \<and>
      can_bind [cfg_bind_address_client config] (cfg_bind_address_websocket config) \<and>
      new_with_bounds 1 1000000 3 \<noteq> None) \<and>
    (\<forall>pr markets. server_main b fx alloc set_global_default extract_config can_bind new_with_bounds = Some pr \<longrightarrow>
      market_names config markets \<longrightarrow> (\<forall>pair \<in> set markets. primary pair \<noteq> secondary pair) \<longrightarrow>
      pr_config pr = config \<and> pr_metrics pr = default_metrics \<and> sv_tasks (pr_server pr) = [] \<and>
      (\<exists>ex. sv_system (pr_server pr) = Channel.run ex \<and> exchange_ok ex \<and> ms_keys (ex_markets ex) = markets))"
proof (intro conjI allI impI)
  note panics = server_exchange_panics [where alloc = alloc and b = b and fx = fx, OF room alloc]
  show "server_main b fx alloc set_global_default extract_config can_bind new_with_bounds \<noteq> None \<longleftrightarrow>
      set_global_default (tracing_max_level b) \<and> (\<exists>markets. market_names config markets) \<and>
      can_bind [] (cfg_bind_address_client config) \<and>
      can_bind [cfg_bind_address_client config] (cfg_bind_address_websocket config) \<and>
      new_with_bounds 1 1000000 3 \<noteq> None"
    unfolding panics [symmetric]
    by (cases "server_exchange b fx alloc config"; cases "new_with_bounds 1 1000000 3")
      (simp_all add: server_main_def config unwrapped_def server_start_def Let_def)
next
  fix pr markets
  assume main: "server_main b fx alloc set_global_default extract_config can_bind new_with_bounds = Some pr"
    and markets: "market_names config markets" "\<forall>pair \<in> set markets. primary pair \<noteq> secondary pair"
  obtain ex where ex: "server_exchange b fx alloc config = Some ex" "exchange_ok ex" "ms_keys (ex_markets ex) = markets"
    using server_exchange_ok [where alloc = alloc and b = b and fx = fx, OF room alloc markets] by (elim exE conjE)
  from main ex(1) have pr: "pr_config pr = config" "pr_metrics pr = default_metrics"
    "pr_server pr = \<lparr>sv_system = Channel.run ex, sv_tasks = []\<rparr>"
    by (auto simp: server_main_def config unwrapped_def server_start_def Let_def bind_eq_Some_conv split: if_splits)
  from pr ex(2,3) show "pr_config pr = config" "pr_metrics pr = default_metrics" "sv_tasks (pr_server pr) = []"
    "\<exists>ex. sv_system (pr_server pr) = Channel.run ex \<and> exchange_ok ex \<and> ms_keys (ex_markets ex) = markets"
    by auto
qed

theorem main_starts_exactly_when_witness:
  "server_main Debug (i33f31_ops Debug) id (\<lambda>_. True) (\<lambda>defaults profile. Some defaults)
     (\<lambda>bound address. address \<notin> set bound) (\<lambda>low high digits. Some low) \<noteq> None \<and>
   server_main Debug (i33f31_ops Debug) id (\<lambda>_. True)
     (\<lambda>defaults profile. Some (defaults\<lparr>cfg_bind_address_websocket := cfg_bind_address_client defaults\<rparr>))
     (\<lambda>bound address. address \<notin> set bound) (\<lambda>low high digits. Some low) = None"
proof
  let ?bind = "\<lambda>bound address. address \<notin> set bound" and ?hist = "\<lambda>low high digits :: nat. Some (low :: nat)"
  have "market_names default_server_config []" by (simp add: market_names_def default_server_config_def)
  then show "server_main Debug (i33f31_ops Debug) id (\<lambda>_. True) (\<lambda>defaults profile. Some defaults) ?bind ?hist \<noteq> None"
    using main_starts_exactly_when [where extract_config = "\<lambda>defaults profile. Some defaults" and b = Debug and alloc = id
        and config = default_server_config and fx = "i33f31_ops Debug" and can_bind = ?bind
        and set_global_default = "\<lambda>_. True" and new_with_bounds = ?hist]
    by (auto simp: default_server_config_def)
  show "server_main Debug (i33f31_ops Debug) id (\<lambda>_. True)
     (\<lambda>defaults profile. Some (defaults\<lparr>cfg_bind_address_websocket := cfg_bind_address_client defaults\<rparr>))
     ?bind ?hist = None"
    by (simp add: server_main_def unwrapped_def server_start_def Let_def default_server_config_def split: option.split)
qed

section \<open>The whole server\<close>



section \<open>Debug and release\<close>

context checked_build
begin

lemma server_start_refines:
  assumes "server_start b fx alloc config bound_client bound_ws = Some sv0"
  shows "server_start Release fx' alloc config bound_client bound_ws = Some sv0"
proof -
  obtain ex where ex: "server_exchange b fx alloc config = Some ex"
    using assms by (auto simp: server_start_def split: option.splits)
  have "agrees (server_exchange b fx alloc config) (server_exchange Release fx' alloc config)"
    unfolding server_exchange_def by (intro agrees_intros custom_agrees)
  from agreesD [OF this ex] assms ex show ?thesis by (simp add: server_start_def)
qed

lemma accept_one_alive:
  "accept_one config event sv = Some sv' \<Longrightarrow> sy_thread (sv_system sv') = sy_thread (sv_system sv)"
  by (cases event) (auto simp: get_client_def split: if_splits)

lemma server_run_refines:
  "server_run b fx clock config sv0 sv \<Longrightarrow> sy_thread (sv_system sv) \<noteq> Panicked \<Longrightarrow>
   server_run Release fx' clock config sv0 sv"
proof (induction rule: server_run.induct)
  case server_begins
  show ?case by (rule server_run.server_begins)
next
  case (server_accepts sv event sv')
  with accept_one_alive show ?case by (metis server_run.server_accepts)
next
  case (server_thread sv s')
  then have alive: "sy_thread s' \<noteq> Panicked" by simp
  moreover have "sy_thread (sv_system sv) \<noteq> Panicked"
    using server_thread.hyps(2) by (auto elim!: thread_stepE)
  ultimately show ?case
    using server_thread.IH thread_step_refines [OF server_thread.hyps(2) alive]
    by (intro server_run.server_thread) simp_all
next
  case (task_sends sv command_buf s')
  have "sy_thread s' = sy_thread (sv_system sv)"
    using task_sends.hyps(3) by (auto simp: client_send_def Let_def split: if_splits)
  with task_sends show ?case by (intro server_run.task_sends) simp_all
next
  case (task_ends sv)
  then show ?case by (intro server_run.task_ends) simp_all
qed

end

text \<open>C6: The release build refines the debug build. A server that a build with overflow checks starts
  and runs, with any interleaving of connections, clients and thread, is started and run in the same way by
  a release build, state by state, as long as the checked build has not panicked; and every reply that it
  ever sent, up to a panic, is the one the release build sends.\<close>

theorem debug_run_is_release_run:
  assumes "checked_build fx fx'"
    and start: "server_start b fx alloc config bound_client bound_ws = Some sv0"
    and run: "server_run b fx clock config sv0 sv"
  shows "server_start Release fx' alloc config bound_client bound_ws = Some sv0 \<and>
    (sy_thread (sv_system sv) \<noteq> Panicked \<longrightarrow> server_run Release fx' clock config sv0 sv) \<and>
    (\<exists>ex0. sy_thread (sv_system sv0) = Running ex0 \<and>
      prefix (map snd (sy_replies (sv_system sv)))
        (fst (serve_chunk Release fx' clock (map ms_command_buf (sy_sent (sv_system sv))) ex0)))"
proof (intro conjI impI)
  note refines = checked_build.server_start_refines [OF assms(1)] checked_build.server_run_refines [OF assms(1)]
  show "server_start Release fx' alloc config bound_client bound_ws = Some sv0" using start by (rule refines)
  show "server_run Release fx' clock config sv0 sv" if "sy_thread (sv_system sv) \<noteq> Panicked"
    using run that by (rule refines)
  obtain ex0 where sv0: "sv0 = \<lparr>sv_system = Channel.run ex0, sv_tasks = []\<rparr>"
    using start by (auto simp: server_start_def split: option.splits if_splits)
  let ?s = "sv_system sv" and ?bufs = "map ms_command_buf (sy_sent (sv_system sv))"
  have ok: "system_ok b fx clock ex0 ?s"
    by (rule system_run_ok) (use server_run_system [OF run sv0] in simp)
  obtain m end_state where serve: "serve_chunk b fx clock (take m ?bufs) ex0 = (map snd (sy_replies ?s), end_state)"
    using system_served [OF ok] by (elim exE)
  have "prefix (map snd (sy_replies ?s)) (fst (serve_chunk Release fx' clock (take m ?bufs) ex0))"
    using checked_build.serve_chunk_agrees [OF assms(1) serve] by (auto split: option.splits)
  moreover have "prefix (fst (serve_chunk Release fx' clock (take m ?bufs) ex0))
      (fst (serve_chunk Release fx' clock (take m ?bufs @ drop m ?bufs) ex0))"
    by (simp only: thread.serve_append) (auto split: prod.split option.split)
  ultimately have "prefix (map snd (sy_replies ?s)) (fst (serve_chunk Release fx' clock ?bufs ex0))"
    unfolding append_take_drop_id by (rule prefix_order.trans)
  then show "\<exists>ex0. sy_thread (sv_system sv0) = Running ex0 \<and>
      prefix (map snd (sy_replies ?s)) (fst (serve_chunk Release fx' clock ?bufs ex0))"
    by (intro exI [of _ ex0]) (simp add: sv0 run_def)
qed

theorem debug_run_is_release_run_witness:
  "\<exists>sv0. server_start Release (i33f31_ops Release) id default_server_config True True = Some sv0 \<and>
     server_run Release (i33f31_ops Release) demo_clock default_server_config sv0
       (sv0\<lparr>sv_system := get_client (sv_system sv0),
         sv_tasks := [Connection_task ''127.0.0.1'' 524288]\<rparr>)"
proof -
  let ?fx = "i33f31_ops Debug"
  have "\<exists>ex. custom Debug ?fx id [] [] 2 = Some (ex, [], map of_nat [0..<2]) \<and> exchange_ok ex \<and>
      ms_keys (ex_markets ex) = []"
    by (rule custom_ok) simp_all
  then obtain ex0 where ex0: "server_exchange Debug ?fx id default_server_config = Some ex0"
    by (auto simp: server_exchange_def default_server_config_def)
  define sv0 where sv0: "sv0 = \<lparr>sv_system = Channel.run ex0, sv_tasks = []\<rparr>"
  have start: "server_start Debug ?fx id default_server_config True True = Some sv0"
    by (simp add: server_start_def ex0 sv0)
  let ?sv = "sv0\<lparr>sv_system := get_client (sv_system sv0), sv_tasks := [Connection_task ''127.0.0.1'' 524288]\<rparr>"
  have "accept_one default_server_config (Client_accepted ''127.0.0.1'') sv0 = Some ?sv"
    by (simp add: sv0 default_server_config_def MB_def)
  then have run: "server_run Debug ?fx demo_clock default_server_config sv0 ?sv"
    by (rule server_accepts [OF server_begins])
  have "sy_thread (sv_system ?sv) \<noteq> Panicked" by (simp add: sv0 get_client_def run_def)
  with debug_run_is_release_run [OF checked_i33f31.checked_build_axioms start run] show ?thesis by blast
qed

end
