(* ===== verification/Displays.thy ===== *)
theory Displays
  imports Markets
begin

text \<open>
  How orders and markets are shown in logs: the \<open>Display\<close> impls of \<open>src/order.rs\<close> and
  \<open>src/market.rs\<close>, with the derived \<open>Debug\<close> formats they use. The format of a price is that of the
  crate \<open>fixed\<close>, an argument.
\<close>

section \<open>Decimals\<close>

definition digit :: "nat \<Rightarrow> char" where
  "digit d = char_of (48 + d)"

fun show_nat :: "nat \<Rightarrow> string" where
  "show_nat n = (if n < 10 then [digit n] else show_nat (n div 10) @ [digit (n mod 10)])"

declare show_nat.simps [simp del]

definition read_nat :: "string \<Rightarrow> nat" where
  "read_nat = foldl (\<lambda>n c. 10 * n + (of_char c - 48)) 0"

definition is_digit :: "char \<Rightarrow> bool" where
  "is_digit c \<longleftrightarrow> 48 \<le> (of_char c :: nat) \<and> of_char c < (58 :: nat)"

lemma of_char_digit [simp]: "d < 10 \<Longrightarrow> (of_char (digit d) :: nat) = 48 + d"
  by (simp add: digit_def)

lemma is_digit_digit [simp]: "d < 10 \<Longrightarrow> is_digit (digit d)"
  by (simp add: is_digit_def)

lemma show_nat_digits: "list_all is_digit (show_nat n)"
  by (induction n rule: show_nat.induct) (subst show_nat.simps, simp)

lemma read_show_nat [simp]: "read_nat (show_nat n) = n"
proof (induction n rule: show_nat.induct)
  case (1 n)
  then show ?case by (subst show_nat.simps) (auto simp: read_nat_def)
qed

text \<open>A number ends at the first character that is no digit.\<close>

lemma digits_then:
  assumes "list_all is_digit xs" and "list_all is_digit ys" and "\<not> is_digit c"
    and "xs @ c # zs = ys @ c # ws"
  shows "xs = ys \<and> zs = ws"
proof -
  have "takeWhile is_digit (as @ c # bs) = as" if "list_all is_digit as" for as bs
    using that assms(3) by (induction as) simp_all
  with assms(1,2,4) have "xs = ys" by metis
  with assms(4) show ?thesis by simp
qed

section \<open>The formats\<close>

fun debug_side :: "side \<Rightarrow> string" where
  "debug_side Bid = ''Bid''"
| "debug_side Ask = ''Ask''"

fun debug_order_type :: "order_type \<Rightarrow> string" where
  "debug_order_type Limit = ''Limit''"
| "debug_order_type Market = ''Market''"
| "debug_order_type FillOrKill = ''FillOrKill''"

definition debug_pair :: "asset_id_pair \<Rightarrow> string" where
  "debug_pair pair = ''AssetIdPair { primary: '' @ show_nat (unat (primary pair)) @
     '', secondary: '' @ show_nat (unat (secondary pair)) @ '' }''"

definition market_display :: "'p market \<Rightarrow> string" where
  "market_display market = ''Market '' @ debug_pair (mk_asset_pair market)"

definition order_insertion_display :: "('p \<Rightarrow> string) \<Rightarrow> 'p order_insertion \<Rightarrow> string" where
  "order_insertion_display show_price order =
     ''Order '' @ show_nat (oi_id order) @ '' in Market '' @ debug_pair (oi_pair order) @
     '' from account '' @ show_nat (unat (oi_account_id order)) @ '': '' @ debug_side (oi_side order) @
     '' '' @ show_price (oi_price order) @ '' ('' @ show_nat (unat (oi_volume order)) @ '' '' @
     debug_order_type (oi_order_type order) @ '') ''"

text \<open>A log line names its market: two markets shown the same are the same pair, and an order's line gives
  the order's id.\<close>

lemma debug_pair_inj: "debug_pair pair = debug_pair pair' \<longleftrightarrow> pair = pair'"
proof
  assume "debug_pair pair = debug_pair pair'"
  then have eq: "show_nat (unat (primary pair)) @ CHR '','' # '' secondary: '' @ show_nat (unat (secondary pair)) @ '' }'' =
      show_nat (unat (primary pair')) @ CHR '','' # '' secondary: '' @ show_nat (unat (secondary pair')) @ '' }''"
    by (simp add: debug_pair_def)
  have "\<not> is_digit CHR '',''" "\<not> is_digit CHR '' ''" by (simp_all add: is_digit_def)
  with digits_then [OF show_nat_digits show_nat_digits _ eq] have
    "show_nat (unat (primary pair)) = show_nat (unat (primary pair'))"
    "show_nat (unat (secondary pair)) @ CHR '' '' # ''}'' = show_nat (unat (secondary pair')) @ CHR '' '' # ''}''"
    by simp_all
  then have "unat (primary pair) = unat (primary pair')" "unat (secondary pair) = unat (secondary pair')"
    by (metis read_show_nat, simp) (metis read_show_nat)
  then show "pair = pair'" by (simp add: word_unat_eq_iff)
qed simp

lemma market_display_inj: "market_display m = market_display m' \<longleftrightarrow> mk_asset_pair m = mk_asset_pair m'"
  by (simp add: market_display_def debug_pair_inj)

lemma order_display_id:
  assumes "order_insertion_display show_price order = order_insertion_display show_price order'"
  shows "oi_id order = oi_id order'"
proof -
  have start: "\<exists>rest. order_insertion_display show_price o1 =
      ''Order '' @ show_nat (oi_id o1) @ CHR '' '' # rest" for o1
    by (simp add: order_insertion_display_def)
  obtain rest rest' where "order_insertion_display show_price order =
      ''Order '' @ show_nat (oi_id order) @ CHR '' '' # rest"
    "order_insertion_display show_price order' = ''Order '' @ show_nat (oi_id order') @ CHR '' '' # rest'"
    using start [of order] start [of order'] by blast
  with assms have "show_nat (oi_id order) @ CHR '' '' # rest = show_nat (oi_id order') @ CHR '' '' # rest'"
    by simp
  moreover have "\<not> is_digit CHR '' ''" by (simp add: is_digit_def)
  ultimately have "show_nat (oi_id order) = show_nat (oi_id order')"
    using digits_then [OF show_nat_digits show_nat_digits] by blast
  then show ?thesis by (metis read_show_nat)
qed

end
