(* ===== verification/Static_Data.thy ===== *)
theory Static_Data
  imports Settlement_Exact
begin

text \<open>
  The tables of \<open>src/util/statics.rs\<close>: the prices and volumes that the benchmarks place their orders
  with, and the size of their buffers. The lemmas give the ranges the tables stay in, and with them a
  bound on the turnover of trades among such orders.
\<close>

definition MAX_CMD_BUF_SIZE :: nat where
  "MAX_CMD_BUF_SIZE = 1024"

definition ORDER_PRICES :: "u32 list" where
  "ORDER_PRICES =
    [111, 93, 104, 99, 92, 93, 111, 120, 115, 85, 102, 100, 99, 97, 104, 115, 110, 120, 117, 99, 84,
    94, 85, 80, 104, 98, 83, 90, 83, 87, 80, 89, 103, 83, 85, 91, 113, 98, 82, 95, 83, 91, 83, 95,
    109, 82, 112, 101, 90, 90, 110, 96, 115, 94, 100, 117, 85, 120, 102, 91, 87, 80, 118, 86, 97,
    82, 108, 118, 97, 92, 96, 102, 88, 96, 109, 113, 89, 91, 101, 109, 94, 102, 93, 117, 119, 98,
    85, 115, 89, 115, 108, 105, 120, 115, 83, 118, 82, 96, 83, 119, 119, 87, 81, 119, 91, 100, 88,
    97, 85, 86, 112, 96, 86, 89, 118, 103, 81, 82, 120, 111, 116, 103, 102, 118, 116, 119, 84, 100,
    111, 80, 88, 96, 102, 85, 90, 91, 100, 85, 105, 84, 108, 117, 111, 111, 109, 89, 90, 114, 101,
    97, 84, 106, 114, 102, 94, 85, 97, 86, 115, 114, 101, 87, 109, 86, 82, 98, 85, 98, 113, 88, 87,
    105, 84, 83, 117, 118, 114, 120, 80, 81, 116, 91, 105, 113, 96, 104, 100, 117, 82, 92, 110, 84,
    114, 94, 109, 95, 102, 81, 100, 97, 100, 118, 102, 101, 113, 97, 96, 107, 80, 99, 112, 92, 89,
    115, 82, 99, 117, 116, 117, 89, 89, 117, 109, 94, 83, 81, 93, 99, 109, 94, 88, 82, 119, 120, 93,
    95, 101, 104, 117, 113, 111, 111, 101, 83, 120, 112, 114, 108, 83, 81, 88, 106, 94, 84, 110, 93,
    86, 90, 110, 110, 91, 86, 111, 98, 120, 108, 91, 118, 117, 94, 90, 116, 106, 95, 115, 87, 95,
    89, 103, 81, 111, 88, 108, 83, 115, 110, 112, 97, 118, 84, 83, 81, 89, 117, 87, 118, 102, 82,
    87, 111, 96, 83, 84, 118, 114, 96, 90, 91, 86, 80, 110, 110, 116, 84, 80, 104, 92, 96, 117, 84,
    89, 86, 87, 117, 103, 80, 86, 85, 112, 102, 109, 104, 94, 101, 89, 94, 91, 94, 88, 83, 108, 104,
    103, 82, 119, 82, 94, 118, 83, 104, 82, 96, 82, 82, 120, 96, 86, 80, 108, 88, 103, 81, 120, 81,
    98, 89, 96, 105, 101, 91, 98, 101, 118, 84, 98, 117, 114, 86, 101, 120, 120, 116, 102, 87, 90,
    95, 92, 80, 84, 100, 95, 100, 112, 81, 101, 82, 105, 109, 109, 116, 95, 107, 101, 101, 90, 93,
    111, 119, 91, 89, 114, 82, 108, 92, 92, 98, 83, 112, 86, 81, 114, 112, 108, 95, 95, 89, 116, 80,
    84, 120, 90, 103, 94, 90, 98, 90, 103, 119, 110, 109, 99, 97, 116, 115, 113, 118, 82, 103, 88,
    103, 94, 81, 88, 88, 92, 98, 90, 84, 99, 80, 88, 98, 97, 94, 80, 111, 84, 82, 87, 116, 88, 97,
    84, 107, 112, 88, 94, 93, 84, 98, 90, 103, 89, 91, 82, 114, 98, 117, 100, 104, 119, 95, 90, 94,
    99, 99, 93, 89, 91, 99, 92, 115, 80, 116, 82, 120, 114, 93, 92, 114, 97, 104, 103, 110, 82, 102,
    81, 113, 117, 117, 80, 90, 94, 83, 86, 87, 117, 116, 102, 119, 97, 102, 86, 85, 98, 86, 90, 91,
    87, 97, 105, 90, 113, 89, 82, 115, 83, 92, 89, 99, 89, 88, 86, 96, 109, 105, 98, 103, 102, 82,
    87, 108, 91, 119, 89, 101, 86, 99, 109, 89, 88, 87, 104, 80, 95, 98, 99, 80, 117, 86, 107, 109,
    104, 83, 105, 114, 93, 89, 112, 110, 93, 98, 101, 80, 108, 109, 94, 118, 83, 110, 87, 117, 115,
    82, 115, 90, 104, 116, 84, 86, 115, 110, 109, 105, 82, 119, 85, 101, 96, 81, 106, 92, 114, 107,
    91, 81, 110, 113, 118, 118, 101, 94, 88, 103, 117, 100, 99, 81, 117, 91, 93, 102, 103, 104, 113,
    118, 110, 88, 80, 113, 90, 117, 100, 85, 96, 83, 85, 92, 93, 113, 90, 87, 85, 111, 110, 104, 84,
    119, 100, 98, 101, 95, 110, 116, 116, 110, 93, 88, 113, 115, 94, 118, 113, 110, 92, 82, 96, 109,
    84, 81, 116, 99, 116, 97, 81, 112, 115, 81, 119, 96, 119, 81, 107, 87, 116, 84, 95, 103, 112,
    93, 105, 119, 93, 106, 119, 116, 82, 118, 100, 92, 114, 103, 92, 109, 104, 101, 106, 107, 87,
    90, 118, 89, 94, 118, 107, 106, 92, 94, 99, 98, 117, 101, 97, 111, 81, 114, 117, 89, 113, 81,
    119, 83, 115, 118, 105, 115, 107, 115, 80, 101, 84, 118, 84, 106, 95, 119, 119, 106, 109, 85,
    108, 94, 107, 105, 120, 106, 88, 108, 89, 117, 111, 119, 106, 106, 93, 83, 119, 99, 83, 116, 81,
    114, 118, 105, 101, 84, 110, 92, 88, 84, 112, 81, 84, 84, 97, 115, 112, 118, 93, 89, 80, 99, 99,
    104, 100, 82, 80, 93, 100, 86, 107, 90, 92, 82, 112, 94, 86, 120, 105, 81, 98, 102, 106, 87,
    111, 107, 83, 87, 119, 93, 116, 100, 111, 115, 104, 117, 82, 108, 115, 100, 83, 84, 103, 118,
    90, 89, 96, 92, 90, 107, 99, 108, 85, 118, 98, 99, 107, 109, 88, 99, 89, 98, 94, 82, 97, 116,
    117, 112, 88, 95, 106, 107, 90, 118, 106, 103, 91, 113, 95, 82, 118, 95, 100, 105, 99, 105, 101,
    107, 108, 97, 108, 87, 105, 115, 93, 85, 95, 104, 99, 99, 117, 100, 81, 98, 107, 115, 120, 109,
    105, 103, 105, 102, 118, 103, 89, 109, 104, 117, 93, 114, 112, 114, 81, 112, 107, 100, 85, 112,
    80, 108, 83, 106, 92, 87, 103, 101, 96, 111, 119, 89, 106, 100, 82, 86, 110, 84, 100, 80, 98,
    114, 116, 113, 117, 91, 101, 117, 84, 109, 90, 119, 113, 96, 88, 84, 110, 90, 102, 103, 97, 102,
    102, 104, 114, 106, 85, 100, 93, 85, 85, 91, 81, 85, 118, 111, 95, 89, 84, 93, 103, 100]"

definition VOLUMES :: "u32 list" where
  "VOLUMES =
    [2833, 40, 3186, 1830, 3790, 523, 3966, 3087, 2152, 713, 957, 3638, 3346, 619, 279, 2938, 1483,
    1375, 899, 1536, 368, 3381, 2143, 2920, 1389, 3744, 1786, 3413, 2054, 166, 1554, 2731, 1159,
    2501, 2493, 3613, 3094, 3034, 2243, 1979, 322, 2842, 3419, 1590, 729, 2451, 3446, 2062, 2506,
    1474, 2519, 1850, 697, 2326, 962, 1790, 2331, 1686, 2385, 1405, 1945, 2732, 1951, 1734, 2027,
    504, 1762, 3452, 3137, 2033, 3590, 830, 824, 935, 949, 988, 256, 1784, 3777, 3820, 856, 3194,
    3045, 2484, 2865, 2141, 122, 723, 1221, 1988, 881, 1882, 3225, 3650, 1604, 1750, 1466, 2780,
    2015, 737, 702, 1183, 237, 845, 2426, 3247, 2585, 3729, 3818, 168, 1463, 2441, 460, 3033, 3242,
    1167, 1311, 176, 1916, 3610, 2339, 1814, 1172, 3129, 2819, 308, 1738, 1282, 423, 3431, 2298,
    2461, 433, 1249, 3153, 1153, 2794, 2826, 177, 787, 3185, 3772, 500, 803, 2333, 3680, 959, 989,
    834, 1722, 3919, 1040, 105, 2010, 3358, 3515, 2137, 3738, 2244, 1852, 2137, 2875, 3402, 3050,
    3167, 449, 2149, 755, 2343, 2755, 3554, 2933, 2331, 2286, 1657, 573, 2305, 3447, 1901, 1468,
    2579, 1133, 3965, 2357, 995, 2302, 642, 2119, 1209, 560, 1857, 835, 144, 2000, 2262, 544, 2085,
    3673, 3077, 1798, 313, 1178, 369, 3985, 3206, 3011, 3886, 2763, 2621, 207, 3209, 278, 3497,
    1497, 3039, 3646, 1272, 1866, 2331, 3745, 2211, 963, 78, 364, 2519, 2453, 2410, 1432, 392, 2556,
    370, 1238, 3847, 3424, 248, 2567, 3535, 2321, 3956, 2847, 2077, 515, 916, 2933, 1810, 2610,
    1456, 3227, 3379, 2351, 2807, 1226, 1942, 638, 630, 2199, 1537, 1986, 2730, 1581, 1424, 3558,
    2477, 2928, 3789, 1280, 3085, 2057, 209, 315, 3233, 2187, 1568, 2414, 3217, 2374, 41, 889, 698,
    4, 1844, 1098, 2430, 869, 3859, 3080, 1466, 110, 272, 2886, 3168, 25, 2391, 1293, 382, 1841,
    1135, 2693, 3923, 2834, 1464, 882, 1726, 1297, 18, 683, 3672, 3862, 2082, 2765, 3805, 2983,
    3169, 258, 3722, 3617, 3527, 562, 3592, 1963, 2833, 3058, 3382, 178, 1284, 945, 288, 2721, 1398,
    1595, 1622, 2234, 241, 2669, 1919, 1074, 1882, 2727, 57, 1175, 719, 1935, 61, 138, 898, 2052,
    761, 3737, 1880, 3868, 2482, 2043, 495, 1492, 1799, 844, 1699, 751, 1336, 2587, 3653, 1585,
    1684, 3433, 1377, 533, 486, 3125, 2079, 3973, 1766, 1769, 2213, 251, 1616, 1777, 2804, 2091,
    2879, 2794, 698, 1306, 1468, 3608, 2518, 3190, 2627, 3784, 217, 1320, 3420, 1555, 2660, 2358,
    48, 1228, 3165, 1287, 1185, 3596, 2827, 536, 2427, 2720, 79, 2507, 2428, 966, 1841, 3959, 1197,
    764, 2234, 1450, 3019, 2528, 2815, 2294, 2592, 780, 806, 3194, 3488, 1551, 2467, 554, 2551,
    2475, 552, 2964, 1440, 1729, 3364, 1299, 2824, 1654, 3704, 2381, 1075, 3336, 3835, 976, 3308,
    2524, 2062, 2903, 334, 3054, 2840, 2338, 2470, 3155, 3896, 3539, 2665, 178, 1989, 3880, 2737,
    2666, 3556, 3079, 2959, 3543, 334, 171, 3538, 1897, 1513, 1208, 3110, 1735, 2260, 3692, 3452,
    3561, 820, 727, 2027, 3065, 1186, 172, 3967, 2147, 2207, 2677, 2909, 562, 145, 512, 3587, 3627,
    3905, 1366, 3821, 47, 275, 2988, 2211, 3514, 2379, 1740, 2618, 84, 3721, 1596, 2063, 3527, 3054,
    2904, 2543, 2262, 2700, 3997, 1329, 3095, 2558, 3390, 2234, 1244, 372, 2048, 3290, 2480, 2666,
    1733, 1269, 2295, 2989, 808, 1226, 2588, 3833, 3719, 2196, 2650, 2829, 218, 3451, 1087, 2728,
    3495, 2030, 460, 1683, 3700, 541, 485, 2516, 1733, 1234, 2199, 2533, 2598, 3614, 1771, 2814,
    1047, 718, 633, 3048, 2119, 2826, 2419, 1096, 1217, 1423, 2306, 3563, 3232, 1990, 3888, 757,
    1703, 1132, 2075, 1108, 2939, 1087, 1971, 2154, 3553, 3377, 2080, 3713, 2410, 3441, 2827, 2935,
    311, 3463, 2385, 3399, 3067, 2809, 2752, 1596, 931, 3572, 3723, 2593, 861, 252, 2894, 3186,
    3486, 3508, 1044, 121, 2282, 3195, 98, 2692, 2094, 2718, 3427, 2581, 107, 769, 3191, 1638, 409,
    616, 3300, 1910, 1493, 116, 969, 1686, 1063, 37, 1732, 3520, 3648, 548, 1931, 3169, 2845, 486,
    743, 1032, 3473, 2980, 3212, 3358, 2354, 1659, 2878, 357, 72, 1600, 2415, 3404, 547, 3785, 2557,
    1725, 710, 2120, 827, 1382, 2264, 2, 3503, 2469, 2239, 2723, 1545, 898, 1021, 3333, 2428, 468,
    1791, 1669, 3712, 1079, 3911, 99, 2491, 2348, 1339, 399, 3376, 1712, 1353, 2751, 3150, 3888,
    260, 2473, 2472, 3172, 3313, 2783, 688, 1919, 2753, 3224, 2914, 161, 1246, 441, 224, 1563, 2952,
    2413, 1570, 116, 995, 2519, 2991, 442, 2948, 3315, 3456, 1499, 606, 745, 2598, 946, 612, 2369,
    830, 2073, 720, 798, 2623, 2144, 1049, 3094, 2429, 147, 822, 666, 1670, 3997, 153, 997, 2079,
    877, 3237, 2553, 1575, 3774, 597, 2944, 2473, 54, 1973, 818, 2605, 2796, 2265, 2066, 2449, 358,
    2956, 2163, 3042, 3753, 2787, 1336, 1704, 236, 869, 3986, 2269, 3280, 233, 3145, 991, 3464,
    1626, 1043, 2928, 75, 881, 3348, 353, 2715, 424, 1524, 2917, 1668, 1306, 1541, 2725, 2050, 3617,
    1831, 2792, 2991, 406, 2802, 3461, 3275, 1163, 1572, 2561, 1415, 1525, 317, 943, 2923, 3140,
    1902, 2166, 1272, 2663, 3101, 2821, 2432, 3360, 1786, 3004, 2065, 3665, 2315, 1030, 2895, 3786,
    3150, 2335, 3047, 1150, 3798, 2050, 2462, 3166, 972, 2000, 836, 1193, 1785, 612, 451, 1299,
    3596, 2470, 171, 344, 3037, 1793, 1719, 3999, 3570, 3566, 1129, 3617, 3391, 2395, 722, 3407,
    2977, 2744, 2289, 3951, 1189, 2244, 2114, 722, 396, 2172, 783, 1973, 3880, 2016, 572, 2360,
    2443, 2935, 3694, 2342, 303, 3937, 2156, 2291, 413, 2131, 1890, 3302, 2542, 2157, 3469, 917,
    3925, 599, 3759, 1577, 654, 2875, 3986, 2638, 1746, 126, 2103, 1087, 3083, 344, 3724, 3270,
    1807, 977, 1518, 2941, 2361, 3484, 3651, 589, 3763, 3983, 1396, 1094, 969, 2503, 2427, 533,
    2031, 773, 68, 645, 3021, 1342, 2222, 3608, 3733, 170, 3584, 1795, 2082, 2104, 2757, 60, 1289,
    1763, 3993, 659, 1213, 1369, 1125, 3202, 2874, 854, 1766, 453, 2407, 3867, 730, 3892, 1092,
    2468, 500, 741, 931, 852, 761, 3060, 1945, 152, 3390, 1209, 2831, 1749, 1543, 1183, 2524, 2640,
    2660, 3870, 2182, 723, 896, 2933, 3390, 1248, 1054, 775, 2813, 3085, 3298, 3841, 3036, 1790,
    2824, 2146, 1788, 3432, 3337, 790, 1963, 1747, 945, 3555, 337, 1447, 3140, 1637, 2785, 118]"

lemma table_lengths: "length ORDER_PRICES = 1000" "length VOLUMES = 1000"
  by (simp_all add: ORDER_PRICES_def VOLUMES_def)

lemma order_prices_range: "list_all (\<lambda>p. 80 \<le> p \<and> p \<le> 120) ORDER_PRICES"
  by (simp add: ORDER_PRICES_def)

lemma volumes_range: "list_all (\<lambda>v. 0 < v \<and> v \<le> 4000) VOLUMES"
  by (simp add: VOLUMES_def)

text \<open>A trade among orders of the tables is worth at most 4000 at 120, so that some 8900 of them fit into the
  range of a balance.\<close>

lemma table_turnover:
  assumes "\<forall>t \<in> set ts. tx_volume t \<in> set VOLUMES \<and> (\<exists>p \<in> set ORDER_PRICES. bits (tx_price t) = uint p * 2 ^ 31)"
  shows "turnover bits ts \<le> int (length ts) * (4000 * (120 * 2 ^ 31))"
  using assms
proof (induction ts)
  case (Cons t ts)
  have "tx_volume t \<le> 4000" using Cons.prems volumes_range by (auto simp: list_all_iff)
  then have volume: "uint (tx_volume t) \<le> 4000" by (simp add: word_le_def)
  obtain p where p: "p \<in> set ORDER_PRICES" "bits (tx_price t) = uint p * 2 ^ 31" using Cons.prems by auto
  then have "80 \<le> p" "p \<le> 120" using order_prices_range by (auto simp: list_all_iff)
  then have "80 \<le> uint p" "uint p \<le> 120" by (simp_all add: word_le_def)
  then have "max (2 ^ 31) \<bar>bits (tx_price t)\<bar> \<le> 120 * 2 ^ 31" unfolding p(2) by simp
  with volume have "uint (tx_volume t) * max (2 ^ 31) \<bar>bits (tx_price t)\<bar> \<le> 4000 * (120 * 2 ^ 31)"
    by (intro mult_mono) simp_all
  with Cons show ?case by (simp add: algebra_simps)
qed simp

corollary table_orders_have_room:
  assumes "\<forall>t \<in> set ts. tx_volume t \<in> set VOLUMES \<and> (\<exists>p \<in> set ORDER_PRICES. bits (tx_price t) = uint p * 2 ^ 31)"
    and "length ts \<le> 8900"
  shows "turnover bits ts < 2 ^ 63"
proof -
  have "int (length ts) * (4000 * (120 * 2 ^ 31)) \<le> 8900 * (4000 * (120 * 2 ^ 31))"
    using assms(2) by (intro mult_right_mono) simp_all
  with table_turnover [OF assms(1)] show ?thesis by simp
qed

end
