(* ===== verification/Playground.thy ===== *)
theory Playground
  imports Exchange_Client
begin

text \<open>
  The executable of \<open>src/bin/playground.rs\<close>: it encodes a buffer of two equal insertions with the wire
  codec, decodes the bytes again and prints both. The result is what it prints, \<open>None\<close> an \<open>unwrap\<close>
  that panics. \<open>one\<close> is \<open>Price::ONE\<close> of the crate \<open>fixed\<close>.
\<close>

definition playground_command :: "'p \<Rightarrow> 'p command" where
  "playground_command one = command.OrderInsert
     \<lparr>rq_account_id = 0, rq_order_type = Limit, rq_pair = \<lparr>primary = 0, secondary = 1\<rparr>, rq_side = Ask,
      rq_volume = 5, rq_price = one\<rparr>"

definition playground_main ::
    "('p command list \<Rightarrow> bytes option) \<Rightarrow> (bytes \<Rightarrow> 'p command list option) \<Rightarrow> 'p
     \<Rightarrow> (bytes \<times> 'p command list) option" where
  "playground_main to_vec from_slice one =
     (let command_buf = replicate 2 (playground_command one) in
      case mp_encode to_vec command_buf [] of
        (Inl err, bytes) \<Rightarrow> None
      | (Inr _, bytes) \<Rightarrow>
          (case mp_decode from_slice bytes of
             (Inr (Some bytes_decoded), _) \<Rightarrow> Some (bytes, bytes_decoded)
           | _ \<Rightarrow> None))"

text \<open>It prints the frame and the buffer it started from.\<close>

lemma playground_round_trip:
  assumes "to_vec (replicate 2 (playground_command one)) = Some mp" and "length mp \<le> 2 ^ 16 - 1"
    and "from_slice mp = Some (replicate 2 (playground_command one))"
  shows "playground_main to_vec from_slice one = Some (frame mp, replicate 2 (playground_command one))"
proof -
  have "mp_encode to_vec (replicate 2 (playground_command one)) [] = (Inr (), frame mp)"
    using assms(1,2) by (simp add: mp_encode_frame)
  with mp_decode_frame [where from_slice = from_slice and rest = "[]", OF assms(2,3)] show ?thesis by (simp add: playground_main_def)
qed

end
