(* ===== verification/Integration_Tests.thy ===== *)
theory Integration_Tests
  imports Exchange_Configs Price_Time
begin

text \<open>
  The integration tests of \<open>tests/exchange_tests.rs\<close> on the model: each test is the program it is in the
  source, a setup and calls of a client, and the lemma about it says that its assertions hold, in either
  build. They are evaluated with the numbers of \<open>Fixed_Price\<close>.

  \<open>Price::lit("0.85")\<close> is the nearest number with 31 fractional bits; \<open>lit\<close> makes it from its bits, so
  that 0.85 is \<open>lit 1825361101\<close>, 0.86 \<open>lit 1846835937\<close>, 0.9 \<open>lit 1932735283\<close>.
\<close>

section \<open>Numbers by their bits\<close>

definition lit :: "int \<Rightarrow> i33f31" where
  "lit n = From_bits (word_of_int n)"

lemma lit_bits: "in_i64 n \<Longrightarrow> i33f31_bits (lit n) = n"
  by (simp add: lit_def i33f31_bits_def sint_word_of_int)

lemma lit_ops [simp]:
  "fx_zero (i33f31_ops b) = lit 0"
  "fx_from_u32 (i33f31_ops b) v = lit (uint v * 2147483648)"
  "in_i64 m \<Longrightarrow> in_i64 n \<Longrightarrow> in_i64 (m + n) \<Longrightarrow> fx_add (i33f31_ops b) (lit m) (lit n) = Some (lit (m + n))"
  "in_i64 m \<Longrightarrow> in_i64 n \<Longrightarrow> in_i64 (m - n) \<Longrightarrow> fx_sub (i33f31_ops b) (lit m) (lit n) = Some (lit (m - n))"
  "in_i64 m \<Longrightarrow> in_i64 n \<Longrightarrow> in_i64 (m * n div 2147483648) \<Longrightarrow>
    fx_mul (i33f31_ops b) (lit m) (lit n) = Some (lit (m * n div 2147483648))"
  by (simp_all add: i33f31_ops_def i33f31_of_int_def lit_bits) (simp_all add: lit_def)

lemma lit_order [simp]:
  assumes "in_i64 m" and "in_i64 n"
  shows "lit m \<le> lit n \<longleftrightarrow> m \<le> n" and "lit m < lit n \<longleftrightarrow> m < n" and "lit m = lit n \<longleftrightarrow> m = n"
proof -
  show le: "lit m \<le> lit n \<longleftrightarrow> m \<le> n"
    by (simp only: fixed_i33f31.bits_le [of "lit m" "lit n"] lit_bits assms)
  have ge: "lit n \<le> lit m \<longleftrightarrow> n \<le> m"
    by (simp only: fixed_i33f31.bits_le [of "lit n" "lit m"] lit_bits assms)
  from le ge show "lit m < lit n \<longleftrightarrow> m < n" by (simp add: less_le_not_le)
  from le ge show "lit m = lit n \<longleftrightarrow> m = n" by (simp add: order_eq_iff)
qed

lemma in_i64_numeral [simp]:
  "in_i64 0" "in_i64 1"
  "in_i64 (numeral k) \<longleftrightarrow> (numeral k :: int) < 9223372036854775808"
  "in_i64 (- numeral k) \<longleftrightarrow> (numeral k :: int) \<le> 9223372036854775808"
  by (simp_all add: in_i64_def)

section \<open>What the tests call\<close>

definition unwrap :: "'e + 'a \<Rightarrow> 'a option" where
  "unwrap r = (case r of Inl _ \<Rightarrow> None | Inr v \<Rightarrow> Some v)"

definition insert_and_unwrap ::
    "build \<Rightarrow> clock \<Rightarrow> account_id \<Rightarrow> order_type \<Rightarrow> asset_id_pair \<Rightarrow> side \<Rightarrow> volume \<Rightarrow> i33f31 \<Rightarrow> i33f31 exchange
     \<Rightarrow> (order_insertion_effects \<times> i33f31 exchange) option" where
  "insert_and_unwrap b clock account t pair s v p ex = do {
     (result, ex') \<leftarrow> client_insert_order b (i33f31_ops b) clock
       \<lparr>rq_account_id = account, rq_order_type = t, rq_pair = pair, rq_side = s, rq_volume = v, rq_price = p\<rparr> ex;
     effects \<leftarrow> unwrap result;
     Some (effects, ex')
   }"

definition balance :: "build \<Rightarrow> clock \<Rightarrow> account_id \<Rightarrow> asset_id \<Rightarrow> i33f31 exchange \<Rightarrow> i33f31 option" where
  "balance b clock account asset ex =
     (case client_get_balance b (i33f31_ops b) clock account asset ex of
        None \<Rightarrow> None | Some (answer, ex') \<Rightarrow> answer)"

text \<open>\<open>accounts.pop()\<close> twice and \<open>pairs.pop()\<close>, from the setup of all four tests.\<close>

definition test_setup ::
    "build \<Rightarrow> (account_id \<times> account_id \<times> asset_id_pair \<times> i33f31 exchange) option" where
  "test_setup b = do {
     (ex, pairs, accounts) \<leftarrow> market_eur_usd_accs_2 b (i33f31_ops b) id;
     acc_id_1 \<leftarrow> vec_pop accounts;
     acc_id_2 \<leftarrow> vec_pop (butlast accounts);
     pair \<leftarrow> vec_pop pairs;
     Some (acc_id_1, acc_id_2, pair, ex)
   }"

text \<open>The four balances: primary of both accounts, secondary of both.\<close>

definition balances_of ::
    "build \<Rightarrow> clock \<Rightarrow> account_id \<Rightarrow> account_id \<Rightarrow> asset_id_pair \<Rightarrow> i33f31 exchange \<Rightarrow> i33f31 list option" where
  "balances_of b clock acc_id_1 acc_id_2 pair ex = do {
     bal_primary_1 \<leftarrow> balance b clock acc_id_1 (primary pair) ex;
     bal_primary_2 \<leftarrow> balance b clock acc_id_2 (primary pair) ex;
     bal_secondary_1 \<leftarrow> balance b clock acc_id_1 (secondary pair) ex;
     bal_secondary_2 \<leftarrow> balance b clock acc_id_2 (secondary pair) ex;
     Some [bal_primary_1, bal_primary_2, bal_secondary_1, bal_secondary_2]
   }"

section \<open>The tests\<close>

definition buy_sell_limit :: "build \<Rightarrow> clock \<Rightarrow> i33f31 list option" where
  "buy_sell_limit b clock = do {
     (acc_id_1, acc_id_2, pair, ex) \<leftarrow> test_setup b;
     (_, ex1) \<leftarrow> insert_and_unwrap b clock acc_id_1 Limit pair Ask 5 (lit 1825361101) ex;
     (_, ex2) \<leftarrow> insert_and_unwrap b clock acc_id_1 Limit pair Ask 5 (lit 1846835937) ex1;
     (_, ex3) \<leftarrow> insert_and_unwrap b clock acc_id_2 Limit pair Bid 20 (lit 1932735283) ex2;
     balances_of b clock acc_id_1 acc_id_2 pair ex3
   }"

definition buy_sell_market :: "build \<Rightarrow> clock \<Rightarrow> i33f31 list option" where
  "buy_sell_market b clock = do {
     (acc_id_1, acc_id_2, pair, ex) \<leftarrow> test_setup b;
     (_, ex1) \<leftarrow> insert_and_unwrap b clock acc_id_1 Limit pair Ask 5 (lit 1825361101) ex;
     (_, ex2) \<leftarrow> insert_and_unwrap b clock acc_id_1 Limit pair Ask 5 (lit 2147483648000) ex1;
     (_, ex3) \<leftarrow> insert_and_unwrap b clock acc_id_2 Market pair Bid 10 (lit 1932735283) ex2;
     balances_of b clock acc_id_1 acc_id_2 pair ex3
   }"

text \<open>The last result of a command sent on its own.\<close>

definition send_single ::
    "build \<Rightarrow> clock \<Rightarrow> i33f31 command \<Rightarrow> i33f31 exchange \<Rightarrow> (i33f31 command_result \<times> i33f31 exchange) option" where
  "send_single b clock cmd ex = do {
     (result_buf, ex') \<leftarrow> send_commands b (i33f31_ops b) clock [cmd] ex;
     result \<leftarrow> vec_pop result_buf;
     Some (result, ex')
   }"

definition cancel_order :: "build \<Rightarrow> clock \<Rightarrow> (i33f31 command_result \<times> i33f31 list) option" where
  "cancel_order b clock = do {
     (acc_id_1, acc_id_2, pair, ex) \<leftarrow> test_setup b;
     (effects, ex1) \<leftarrow> insert_and_unwrap b clock acc_id_1 Limit pair Ask 5 (lit 1825361101) ex;
     (res, ex2) \<leftarrow> send_single b clock
       (command.OrderCancel \<lparr>cr_account_id = acc_id_1, cr_order_id = ie_id effects\<rparr>) ex1;
     (_, ex3) \<leftarrow> insert_and_unwrap b clock acc_id_2 Limit pair Bid 100 (lit 1825361101) ex2;
     balances \<leftarrow> balances_of b clock acc_id_1 acc_id_2 pair ex3;
     Some (res, balances)
   }"

definition modify_order :: "build \<Rightarrow> clock \<Rightarrow> (i33f31 command_result \<times> i33f31 list) option" where
  "modify_order b clock = do {
     (acc_id_1, acc_id_2, pair, ex) \<leftarrow> test_setup b;
     (effects, ex1) \<leftarrow> insert_and_unwrap b clock acc_id_1 Limit pair Ask 5 (lit 1825361101) ex;
     (res, ex2) \<leftarrow> send_single b clock
       (command.OrderModify \<lparr>mr_account_id = acc_id_1, mr_order_id = ie_id effects, mr_new_volume = 3\<rparr>) ex1;
     (_, ex3) \<leftarrow> insert_and_unwrap b clock acc_id_2 Limit pair Bid 100 (lit 1825361101) ex2;
     balances \<leftarrow> balances_of b clock acc_id_1 acc_id_2 pair ex3;
     Some (res, balances)
   }"

section \<open>Evaluating them\<close>

definition test_clock :: clock where
  "test_clock n = Some (1700000000000 + n)"

definition eur_usd :: asset_id_pair where
  "eur_usd = \<lparr>primary = 0, secondary = 1\<rparr>"

text \<open>The exchange with a book, a last price, its orders and balances; nothing else changes before a trade.\<close>

definition test_exchange ::
    "i33f31 levels \<Rightarrow> i33f31 session_orders \<Rightarrow> i33f31 exchange" where
  "test_exchange offers orders =
     \<lparr>ex_accounts = [(0, \<lparr>ac_id = 0, ac_username = ''''\<rparr>), (1, \<lparr>ac_id = 1, ac_username = ''''\<rparr>)],
      ex_traded_assets =
        [\<lparr>as_id = 0, as_name = ''Euro'', as_symbol = ''EUR''\<rparr>,
         \<lparr>as_id = 1, as_name = ''United States Dollar'', as_symbol = ''USD''\<rparr>],
      ex_balance_book = \<lparr>bb_accounts = 2, bb_assets = 2, bb_balances = [lit 0, lit 0, lit 0, lit 0]\<rparr>,
      ex_markets = \<lparr>ms_keys = [eur_usd], ms_inner =
        [\<lparr>mk_asset_pair = eur_usd, mk_last_traded_price = lit 0, mk_orderbook = \<lparr>bids = [], asks = offers\<rparr>\<rparr>]\<rparr>,
      ex_session_orders = orders, ex_last_100_tx = rt_with_capacity id 100, ex_transaction_buf = []\<rparr>"

definition resting_ask :: "order_id \<Rightarrow> volume \<Rightarrow> orderbook_entry" where
  "resting_ask i v = \<lparr>en_order_id = i, en_account_id = 1, en_remaining_volume = v\<rparr>"

definition placed_ask :: "order_id \<Rightarrow> i33f31 \<Rightarrow> volume \<Rightarrow> order_execution_status \<Rightarrow> i33f31 placed_order" where
  "placed_ask i p v status =
     \<lparr>po_id = i, po_account_id = 1, po_pair = eur_usd, po_side = Ask, po_price = p, po_volume = v,
      po_remaining_volume = 5, po_status = status\<rparr>"

lemma test_setup_value: "test_setup b = Some (1, 0, eur_usd, test_exchange [] [])"
  by (simp add: test_setup_def market_eur_usd_accs_2_def test_exchange_def eur_usd_def exchange_new_def
      create_account_def exchange_add_asset_def bb_new_def bb_add_account_def bb_add_asset_def
      exchange_add_market_def is_traded_asset_def markets_add_market_def markets_new_def
      markets_contains_def vec_insert_def unwrap_market_def u32_add_def Let_def upt_rec market_new_def
      new_orderbook_def vec_pop_def)
    (simp add: numeral_eq_Suc)

lemmas client_defs = client_insert_order_def send_commands_handles insert_and_unwrap_def unwrap_def
  vec_pop_def test_clock_def
lemmas insert_defs = exchange_insert_order_def markets_get_def into_insertion_def
  market_insert_order_def ob_insert_order_def check_volume_def insert_limit_order_no_matching_def
  from_insertion_def markets_store_def entry_from_insertion_def default_status_def Let_def
lemmas settle_defs = process_transactions_def settle_transaction_def get_disjoint_orders_def take_volume_def
  write_order_def bb_get_disjoint_mut_def bb_get_index_def update_balances_def apply_at_def rt_push_def
  rt_with_capacity_def
lemmas state_defs = test_exchange_def resting_ask_def placed_ask_def eur_usd_def

lemma first_ask:
  "insert_and_unwrap b test_clock 1 Limit eur_usd Ask 5 (lit 1825361101) (test_exchange [] []) =
   Some (\<lparr>ie_id = 0, ie_status = AwaitingFill\<rparr>,
     test_exchange [(lit 1825361101, [resting_ask 0 5])] [(0, placed_ask 0 (lit 1825361101) 5 AwaitingFill)])"
  by (simp add: client_defs insert_defs settle_defs state_defs)

lemma second_ask:
  "p \<in> {1846835937, 2147483648000} \<Longrightarrow>
   insert_and_unwrap b test_clock 1 Limit eur_usd Ask 5 (lit p)
     (test_exchange [(lit 1825361101, [resting_ask 0 5])] [(0, placed_ask 0 (lit 1825361101) 5 AwaitingFill)]) =
   Some (\<lparr>ie_id = 1, ie_status = AwaitingFill\<rparr>,
     test_exchange [(lit 1825361101, [resting_ask 0 5]), (lit p, [resting_ask 1 5])]
       [(0, placed_ask 0 (lit 1825361101) 5 AwaitingFill), (1, placed_ask 1 (lit p) 5 AwaitingFill)])"
  by (auto simp: client_defs insert_defs settle_defs state_defs)

lemma balances_value:
  "ex_balance_book ex = \<lparr>bb_accounts = 2, bb_assets = 2, bb_balances = [w, x, y, z]\<rparr> \<Longrightarrow>
   balances_of b clock 1 0 eur_usd ex = Some [x, w, z, y]"
  by (simp add: balances_of_def balance_def client_get_balance_def send_commands_handles vec_pop_def
      bb_get_def bb_get_index_def eur_usd_def Let_def)

text \<open>The orders that trade: who pays what.\<close>

lemmas trade_defs = client_defs insert_defs settle_defs state_defs match_level_Cons trade_with_def
  price_out_of_reach_def enough_volume_market_def

definition after_trade :: "i33f31 list \<Rightarrow> (order_insertion_effects \<times> i33f31 exchange) option \<Rightarrow> bool" where
  "after_trade balances r = (case r of None \<Rightarrow> False | Some (effects, ex) \<Rightarrow>
     ex_balance_book ex = \<lparr>bb_accounts = 2, bb_assets = 2, bb_balances = balances\<rparr>)"

lemma after_trade_balances:
  "after_trade [w, x, y, z] r \<Longrightarrow>
   Option.bind r (\<lambda>(effects, ex). balances_of b clock 1 0 eur_usd ex) = Some [x, w, z, y]"
  by (auto simp: after_trade_def balances_value split: option.splits)

lemma limit_bid_trades:
  "after_trade [lit 21474836480, lit (- 21474836480), lit (- 18360985190), lit 18360985190]
     (insert_and_unwrap b test_clock 0 Limit eur_usd Bid 20 (lit 1932735283)
       (test_exchange [(lit 1825361101, [resting_ask 0 5]), (lit 1846835937, [resting_ask 1 5])]
         [(0, placed_ask 0 (lit 1825361101) 5 AwaitingFill), (1, placed_ask 1 (lit 1846835937) 5 AwaitingFill)]))"
  by (simp add: after_trade_def trade_defs)

lemma market_bid_trades:
  "after_trade [lit 21474836480, lit (- 21474836480), lit (- 10746545045505), lit 10746545045505]
     (insert_and_unwrap b test_clock 0 Market eur_usd Bid 10 (lit 1932735283)
       (test_exchange [(lit 1825361101, [resting_ask 0 5]), (lit 2147483648000, [resting_ask 1 5])]
         [(0, placed_ask 0 (lit 1825361101) 5 AwaitingFill), (1, placed_ask 1 (lit 2147483648000) 5 AwaitingFill)]))"
  by (simp add: after_trade_def trade_defs u32_add_def)

lemma cancelled_ask:
  "send_single b test_clock (command.OrderCancel \<lparr>cr_account_id = 1, cr_order_id = 0\<rparr>)
     (test_exchange [(lit 1825361101, [resting_ask 0 5])] [(0, placed_ask 0 (lit 1825361101) 5 AwaitingFill)]) =
   Some (OrderCancel (Inr ()), test_exchange [] [(0, placed_ask 0 (lit 1825361101) 5 Cancelled)])"
  by (simp add: send_single_def client_defs insert_defs settle_defs state_defs exchange_cancel_order_def
      market_cancel_order_def ob_cancel_order_def into_cancellation_def store_level_def)

lemma bid_finds_nothing:
  "after_trade [lit 0, lit 0, lit 0, lit 0]
     (insert_and_unwrap b test_clock 0 Limit eur_usd Bid 100 (lit 1825361101)
       (test_exchange [] [(0, placed_ask 0 (lit 1825361101) 5 Cancelled)]))"
  by (simp add: after_trade_def trade_defs)

lemma modified_ask:
  "send_single b test_clock (command.OrderModify \<lparr>mr_account_id = 1, mr_order_id = 0, mr_new_volume = 3\<rparr>)
     (test_exchange [(lit 1825361101, [resting_ask 0 5])] [(0, placed_ask 0 (lit 1825361101) 5 AwaitingFill)]) =
   Some (OrderModify (Inr ()),
     test_exchange [(lit 1825361101, [resting_ask 0 3])] [(0, placed_ask 0 (lit 1825361101) 3 AwaitingFill)])"
  by (simp add: send_single_def client_defs insert_defs settle_defs state_defs exchange_modify_order_def
      market_modify_order_def ob_modify_order_def into_order_modification_def modified_order_def store_level_def)

lemma bid_takes_three:
  "after_trade [lit 6442450944, lit (- 6442450944), lit (- 5476083303), lit 5476083303]
     (insert_and_unwrap b test_clock 0 Limit eur_usd Bid 100 (lit 1825361101)
       (test_exchange [(lit 1825361101, [resting_ask 0 3])] [(0, placed_ask 0 (lit 1825361101) 3 AwaitingFill)]))"
  by (simp add: after_trade_def trade_defs)

text \<open>
  The assertions: what one account gains the other loses; 10 EUR are traded at the ask prices, none after
  the cancellation, 3 after the modification.
\<close>

lemma buy_sell_limit_passes:
  "buy_sell_limit b test_clock =
   Some [lit (- (10 * 2147483648)), lit (10 * 2147483648),
     lit (5 * 1825361101 + 5 * 1846835937), lit (- (5 * 1825361101 + 5 * 1846835937))]"
  using after_trade_balances [OF limit_bid_trades [of b], of b test_clock]
  by (simp add: buy_sell_limit_def test_setup_value first_ask second_ask)

lemma buy_sell_market_passes:
  "buy_sell_market b test_clock =
   Some [lit (- (10 * 2147483648)), lit (10 * 2147483648),
     lit (5 * 1825361101 + 5 * 2147483648000), lit (- (5 * 1825361101 + 5 * 2147483648000))]"
  using after_trade_balances [OF market_bid_trades [of b], of b test_clock]
  by (simp add: buy_sell_market_def test_setup_value first_ask second_ask)

lemma after_trade_answer:
  "after_trade [w, x, y, z] r \<Longrightarrow>
   Option.bind r (\<lambda>(effects, ex).
     Option.bind (balances_of b clock 1 0 eur_usd ex) (\<lambda>balances. Some (answer, balances))) =
   Some (answer, [x, w, z, y])"
  by (auto simp: after_trade_def balances_value split: option.splits)

lemma cancel_order_passes:
  "cancel_order b test_clock = Some (OrderCancel (Inr ()), [lit 0, lit 0, lit 0, lit 0])"
  using after_trade_answer [OF bid_finds_nothing [of b], of b test_clock "OrderCancel (Inr ())"]
  by (simp add: cancel_order_def test_setup_value first_ask cancelled_ask)

lemma modify_order_passes:
  "modify_order b test_clock =
   Some (OrderModify (Inr ()),
     [lit (- (3 * 2147483648)), lit (3 * 2147483648), lit (3 * 1825361101), lit (- (3 * 1825361101))])"
  using after_trade_answer [OF bid_takes_three [of b], of b test_clock "OrderModify (Inr ())"]
  by (simp add: modify_order_def test_setup_value first_ask modified_ask)

end
