(* ===== verification/Spec2Isabelle.thy ===== *)
theory Spec2Isabelle
  imports Book_Properties Service_Properties Order_Lifecycle Any_Build Loops Channel_Properties
    Server_Properties Displays Static_Data Playground Integration_Tests
begin

text \<open>
  A verification development of the exchange server under \<open>src/\<close>: a Rust program that keeps order
  books for pairs of assets, matches orders by price-time priority, settles the trades in a book of
  balances, and serves clients over framed MessagePack and a WebSocket.

  \<^bold>\<open>The program and its model.\<close> An \<open>Exchange\<close> runs on one thread and owns all state. Clients send
  it buffers of commands over a channel; it answers each buffer with the buffer of its results. An order
  goes from \<open>Exchange::insert_order\<close> to its \<open>Market\<close>, whose \<open>Orderbook\<close> matches it and pushes
  transactions into a buffer of the exchange; \<open>process_transactions\<close> then settles them: order volumes
  and statuses, balances, the log of recent transactions. Files are named relative to \<open>src/src/\<close>.

  \<^item> \<open>Prelude\<close>: \<open>u32\<close> arithmetic in a build with overflow checks (\<open>Debug\<close>) and one without
    (\<open>Release\<close>), ids, list and option lemmas. \<open>Ordered_Map\<close>: \<open>BTreeMap\<close> as a sorted association
    list, with the locale \<open>ordered_map\<close> and its interpretation.
  \<^item> \<open>Errors\<close> (errors.rs), with codes and texts, \<open>Orders\<close> (order.rs, asset.rs, statuses of
    market.rs): the data.
  \<^item> \<open>Order_Book\<close> (orderbook.rs): state, resting, cancelling and modifying, the invariants of a book.
    \<open>Matching\<close>: the volume checks and the two loops of \<open>insert_order\<close>. \<open>Price_Time\<close>: the
    specification \<open>fill\<close>, which matches an order with a flat queue, and the proof that the inner loop
    implements it. \<open>Insertion\<close>: the same for the whole insertion; locale \<open>price_priority\<close>, one
    treatment of both sides. \<open>Book_Views\<close>: the L1 and L2 views. \<open>Volume_Checks\<close>: exactness of the
    checks. \<open>Displays\<close>: how orders and markets are shown in logs.
  \<^item> \<open>Balance_Book\<close> (balance_book.rs): the vector of balances; locale \<open>ledger\<close>, the contract that
    settlement relies on. \<open>Markets\<close> (market.rs): locale \<open>registry\<close>. \<open>Recent_Transactions\<close>
    (exchange.rs): the ring buffer; locale \<open>bounded_log\<close>. \<open>Fixed_Price\<close>: the arithmetic of the
    crate \<open>fixed\<close> as the locale \<open>fixed_price\<close>, interpreted on 64-bit words.
  \<^item> \<open>Exchange\<close> (exchange.rs): state and operations. \<open>Settlement\<close>, \<open>Settlement_Exact\<close>: what
    settling a batch does, modulo \<open>2^64\<close> and exactly within range. \<open>Exchange_Invariant\<close>:
    the invariant \<open>exchange_ok\<close>, insertion in its cases. \<open>Any_Build\<close>: insertion with overflow
    checks. \<open>Loops\<close>: the \<open>while let\<close> loops of matching and settlement as loops, and that they
    return. \<open>Order_Changes\<close>: cancelling and modifying.
    \<open>Command_Loop\<close>: commands, the thread's loop with the locale \<open>responder\<close>, reachable states. \<open>Conservation\<close>: the total of an
    asset. \<open>Order_Lifecycle\<close>: cancelled orders.
  \<^item> \<open>Codec\<close> (util/mp_command_codec.rs), \<open>Playground\<close> (bin/playground.rs), \<open>Exchange_Client\<close>
    (exchange_client.rs and the connection handler of bin/exchange_server.rs), \<open>Exchange_Configs\<close>
    (util/exchange_configs.rs, util/format_exact_width.rs), \<open>Static_Data\<close> (util/statics.rs).
  \<^item> \<open>Channel\<close> (the channel, handle and thread of exchange.rs, the two halves of
    \<open>ExchangeClient::send_commands\<close>): a state machine in which clients and thread interleave, its
    invariant, and the work of the thread. \<open>Connection\<close> (bin/exchange_server.rs): the connection
    handler as a task among others. \<open>Exchange_Server\<close>, \<open>Server_Main\<close> (bin/exchange_server.rs): the
    configuration and the WebSocket handler; the metrics, all of \<open>main\<close>, and its loop beside the system.
  \<^item> \<open>Build_Refinement\<close>: the two builds compared, from the arithmetic to the thread; locale
    \<open>checked_build\<close>, interpreted on the numbers of \<open>Fixed_Price\<close>.
    \<open>Integration_Tests\<close> (tests/exchange_tests.rs): the tests as programs on the model, with what they
    assert evaluated.
  \<^item> \<open>Samples\<close>, \<open>Exchange_Samples\<close>: concrete books and exchanges on which the properties are shown
    to apply. \<open>Book_Properties\<close>, \<open>Loops\<close>, \<open>Service_Properties\<close>, \<open>Channel_Properties\<close>,
    \<open>Server_Properties\<close> and this theory: the properties, each with the concrete instance where it has hypotheses.

  \<^bold>\<open>How the state corresponds.\<close> A struct is a record with prefixed fields (\<open>ex_\<close> of \<open>Exchange\<close>,
  \<open>po_\<close> of \<open>PlacedOrder\<close>, \<open>en_\<close> of \<open>OrderbookEntry\<close>, \<open>bb_\<close>, \<open>mk_\<close>, \<open>ms_\<close>, \<open>rt_\<close>,
  \<open>tr_\<close>, \<open>tx_\<close>), an enum a datatype, \<open>u32\<close> a 32-bit word, \<open>usize\<close> a natural number with the one
  product that could overflow shown not to. A reference into a vector is its index. A panic is the result
  \<open>None\<close>, an \<open>Err\<close> is \<open>Inl\<close>; the state is threaded through, also on the early returns that leave
  changes behind, such as the one on a self-trade. Prices are any linear order: the code compares and
  copies them, and computes with them only in settlement.

  \<^bold>\<open>Arguments of the model\<close> stand for what is not under \<open>src/\<close>: \<open>fx\<close> for the arithmetic of
  \<open>fixed\<close> (assumed only to be that of a 64-bit number with 31 fractional bits, \<open>fixed_price\<close>),
  \<open>clock\<close> for the system clock, one reading per recorded transaction, \<open>alloc\<close> for the capacity
  \<open>Vec::with_capacity\<close> gives, \<open>to_vec\<close> and \<open>from_slice\<close> for \<open>rmp_serde\<close>, and the readings of
  the metrics, a histogram for \<open>hdrhistogram\<close>, and what \<open>figment\<close> extracts. Of tokio's channels the documented behaviour is modelled.
  Sockets are the sequences of what they deliver. Where a handler is a function of what it receives, other
  clients are the buffers handled before and between its own, which \<open>channel_is_sequential\<close> justifies.

  \<^bold>\<open>What the properties show.\<close> The order book: matching refines price-time priority, keeps the book
  uncrossed and conserves volume; trades are fair; Fill-or-Kill and Market orders are all or nothing; when
  the checks are exact and when they are not; what cancelling, modifying and the views do. The exchange:
  an accepted order is settled as specified, each asset's total is conserved, insertion is exact and does
  not panic in any build while the balances have room, the invariant holds in every reachable state and no
  proper command panics there; what insertion, cancellation and modification answer; a cancelled order is
  final. The service: results match their
  commands, chunks and cuts of the byte stream make no difference, replies decode to the results, the
  WebSocket only reads, a setup starts a consistent exchange. The processes: the channel makes the exchange
  a sequential one for its clients, is bounded, leaves no client waiting and stops only when all are gone;
  a connection is answered in order beside any others; \<open>main\<close> starts exactly on the configurations it
  should; the server survives whatever its connections send, up to what is excluded next; and a release
  build does, state by state, what a debug build does until it panics.

  \<^bold>\<open>What they exclude, and why.\<close> Reachable states stop at the first self-trade and list no market of an
  asset with itself, because the code does not survive these, and have no accounts with a name, because
  these are not in the balance book: \<open>stale_trade_panics\<close>, \<open>same_asset_trade_panics\<close>,
  \<open>unknown_account_reads_next_asset\<close>. \<open>second_modification_misfires\<close>, \<open>self_trade_loses_volume\<close>,
  \<open>fok_ask_killed_by_lowest_bid\<close>, \<open>volume_check_overflows\<close> and \<open>oversized_reply_is_lost\<close> show
  other behaviour that differs from what the code says it means. Theorems about runs of the whole exchange
  are about \<open>Release\<close>; with overflow checks an addition that leaves its range panics, and
  \<open>insertion_in_any_build\<close> gives a condition under which an insertion meets none. By
  \<open>debug_run_is_release_run\<close> they speak of a debug build too, as long as it runs.

  \<^bold>\<open>Termination and bounds.\<close> All functions but two are total; no fuel is used. The two loops of \<open>Loops\<close>
  are partial functions, shown to return: the matching loop because an iteration that goes on has removed
  the front order, the settlement loop because each iteration pops a transaction. The frame decoder ends
  because a frame is at least two bytes, and the thread's own steps because each lowers \<open>work\<close>. Channel
  and chunk hold at most 32 messages.

  \<^bold>\<open>Not modelled\<close>: the log output, socket I/O and the extraction of the configuration, which are calls
  of other code; the type \<open>OrderChange\<close>, which nothing uses; the tests of tests/rmp_tests.rs, which
  exercise only \<open>rmp_serde\<close>, an argument here; the benchmarks, which do not compile; and the Python client.
\<close>

section \<open>Insertion and settlement\<close>

text \<open>C2: An accepted order settles: the market is matched by price-time priority, the new order is recorded
  under the next id with its status, and the exchange afterwards is the one before with every transaction
  settled, last first. Settled means that both orders of each transaction lose its volume and are Filled
  when nothing is left, the four balances move by its double entry, and the log grows by its record. The
  new order has left what it did not trade and, unless it asked for nothing, the status answered.\<close>

theorem insertion_settles:
  assumes "fixed_price fx bits" and "fx_total fx" and "\<forall>n. clock n \<noteq> None" and "exchange_ok ex"
    and "exchange_insert_order Release fx clock req ex = Some (Inr ef, ex')"
  shows "\<exists>market market' ts m r.
    markets_get (ex_markets ex) (rq_pair req) = Some market \<and>
    fill (inserted req ex) (rq_volume req) (crossing_queue (inserted req ex) (mk_orderbook market)) = Traded ts m r \<and>
    ob_insert_order Release (inserted req ex) (mk_orderbook market) [] =
      Some (Inr \<lparr>ef_status = ie_status ef, ef_last_traded_price = last_price ts m\<rparr>, mk_orderbook market', ts) \<and>
    ef = \<lparr>ie_id = length (ex_session_orders ex), ie_status = (if 0 < m then AwaitingFill else Filled)\<rparr> \<and>
    settled fx bits clock (rq_pair req) (rev ts)
      (before_settlement (inserted req ex) (rq_pair req) market' ts ex) ex' \<and>
    po_remaining_volume (order_at (ex_session_orders ex') (ie_id ef)) = m \<and>
    (rq_volume req \<noteq> 0 \<longrightarrow> po_status (order_at (ex_session_orders ex') (ie_id ef)) = ie_status ef) \<and>
    exchange_ok ex'"
proof -
  have ok': "exchange_ok ex'"
    using fixed_price.exchange_insert_ok [OF assms(1,4,2,3), of req] assms(5) by auto
  show ?thesis
  proof (cases rule: fixed_price.exchange_insert_cases [OF assms(1,4,2,3), of req,
        case_names rejected self_trade settled])
    case (settled market market' ts m r ex1)
    have "ex' = ex1" "ef = \<lparr>ie_id = length (ex_session_orders ex),
        ie_status = (if 0 < m then AwaitingFill else Filled)\<rparr>"
      using settled(10) assms(5) by simp_all
    moreover have "book_conf (ex_session_orders ex) (rq_pair req) (mk_orderbook market)"
      using exchange_ok_market(1,3) [OF assms(4) settled(1)] by (simp add: market_inv_def Let_def)
    note recorded_order [OF _ this _ settled(8), of m r]
    ultimately show ?thesis using settled(1,4,6,8) ok' by (intro exI conjI) simp_all
  qed (use assms(5) in simp_all)
qed

theorem insertion_settles_witness:
  "\<exists>ex'. exchange_insert_order Release (i33f31_ops Release) demo_clock (demo_request 1 3 2) demo_exchange =
     Some (Inr \<lparr>ie_id = 1, ie_status = Filled\<rparr>, ex') \<and> exchange_ok ex'"
proof -
  obtain ex' where run: "exchange_insert_order Release (i33f31_ops Release) demo_clock (demo_request 1 3 2)
      demo_exchange = Some (Inr \<lparr>ie_id = 1, ie_status = Filled\<rparr>, ex')" by (rule demo_accepts)
  from insertion_settles [OF fixed_i33f31.fixed_price_axioms i33f31_Release_total demo_clock_runs
      demo_exchange_ok run] run show ?thesis by blast
qed

text \<open>C19: What an insertion answers: the market and the account are checked first, then the volume a
  Fill-or-Kill or Market order needs, then whether the order reaches one of its own account; otherwise it
  gets the next id. A refusal leaves the orders, balances and log alone, and one that is no self-trade
  leaves everything alone.\<close>

theorem insertion_answers:
  assumes "fixed_price fx bits" and "fx_total fx" and "\<forall>n. clock n \<noteq> None" and "exchange_ok ex"
  shows "\<exists>ex'. exchange_insert_order Release fx clock req ex = Some (insert_verdict req ex, ex') \<and>
    (case insert_verdict req ex of
       Inl err \<Rightarrow> (err \<noteq> SelfTrade \<longrightarrow> ex' = ex) \<and>
         ex_session_orders ex' = ex_session_orders ex \<and> ex_balance_book ex' = ex_balance_book ex \<and>
         ex_last_100_tx ex' = ex_last_100_tx ex
     | Inr _ \<Rightarrow> length (ex_session_orders ex') = Suc (length (ex_session_orders ex)))"
proof (cases rule: fixed_price.exchange_insert_cases [OF assms(1,4,2,3), of req,
      case_names rejected self_trade settled])
  case (self_trade ex')
  with refused_insertion [OF self_trade(1)] show ?thesis by simp
next
  case (settled market market' ts m r ex')
  have "insert_verdict req ex = Inr \<lparr>ie_id = length (ex_session_orders ex),
      ie_status = (if 0 < m then AwaitingFill else Filled)\<rparr>"
    using fixed_price.exchange_insert_verdict [OF assms(1,4,2,3), of req] settled(10) by simp
  with settled(10) settled_length [OF settled(8)] show ?thesis by (simp add: before_settlement_def)
qed simp

theorem insertion_answers_witness:
  "\<exists>ex'. exchange_insert_order Release (i33f31_ops Release) demo_clock (demo_request 7 3 2) demo_exchange =
     Some (Inl AccountDoesNotExist, ex') \<and> ex' = demo_exchange"
proof -
  have "insert_verdict (demo_request 7 3 2) demo_exchange = Inl AccountDoesNotExist"
    by (simp add: insert_verdict_def demo_exchange_defs markets_get_def)
  with insertion_answers [OF fixed_i33f31.fixed_price_axioms i33f31_Release_total demo_clock_runs
      demo_exchange_ok, of "demo_request 7 3 2"] show ?thesis by simp
qed

text \<open>C11: No command creates or destroys an asset: the total of its balances over all accounts is the same
  afterwards, in bits of the fixed-point number and up to the wrap-around of 64 bits.\<close>

theorem commands_conserve_assets:
  assumes "fixed_price fx bits" and "fx_total fx" and "\<forall>n. clock n \<noteq> None" and "exchange_ok ex"
    and "handle_command Release fx clock cmd ex = Some (result, ex')"
    and "asset < bb_assets (ex_balance_book ex)"
  shows "asset_total bits asset (ex_balance_book ex') mod 2 ^ 64 =
    asset_total bits asset (ex_balance_book ex) mod 2 ^ 64"
  by (rule fixed_price.handle_command_conserves [OF assms(1,4,2,3,5,6)])

theorem commands_conserve_assets_witness:
  "\<exists>result ex'. handle_command Release (i33f31_ops Release) demo_clock
       (command.OrderInsert (demo_request 1 3 2)) demo_exchange = Some (result, ex') \<and>
     asset_total i33f31_bits 1 (ex_balance_book ex') mod 2 ^ 64 =
     asset_total i33f31_bits 1 (ex_balance_book demo_exchange) mod 2 ^ 64"
proof -
  obtain ex' where "exchange_insert_order Release (i33f31_ops Release) demo_clock (demo_request 1 3 2)
      demo_exchange = Some (Inr \<lparr>ie_id = 1, ie_status = Filled\<rparr>, ex')" by (rule demo_accepts)
  then have run: "handle_command Release (i33f31_ops Release) demo_clock
      (command.OrderInsert (demo_request 1 3 2)) demo_exchange =
      Some (OrderInsert (Inr \<lparr>ie_id = 1, ie_status = Filled\<rparr>), ex')" by simp
  have "asset_total i33f31_bits 1 (ex_balance_book ex') mod 2 ^ 64 =
      asset_total i33f31_bits 1 (ex_balance_book demo_exchange) mod 2 ^ 64"
    by (rule commands_conserve_assets [OF fixed_i33f31.fixed_price_axioms i33f31_Release_total
          demo_clock_runs demo_exchange_ok run])
      (simp add: demo_exchange_def)
  with run show ?thesis by blast
qed

text \<open>In any build, also one with overflow checks, a transaction settles without a panic and exactly when
  its volume times its price and the balances it leads to are in the range of the number: the buyer gets
  the volume in the primary asset and pays volume times price, without rounding, and no other balance moves.\<close>

theorem settlement_is_exact_in_range:
  assumes "fixed_price fx bits" and "clock (rt_write_idx (ex_last_100_tx ex)) \<noteq> None"
    and "ready_to_settle pair [t] ex" and "in_i64 (uint (tx_volume t) * bits (tx_price t))"
    and "\<And>k. k \<in> bb_cells (ex_balance_book ex) \<Longrightarrow>
      in_i64 (balance_bits bits (ex_balance_book ex) k + posting fx bits pair (ex_session_orders ex) t k)"
  shows "\<exists>ex'. settle_transaction b fx clock pair t ex = Some ex' \<and>
    (\<forall>k \<in> bb_cells (ex_balance_book ex). balance_bits bits (ex_balance_book ex') k =
       balance_bits bits (ex_balance_book ex) k +
       double_entry pair (tx_taker_side t)
         (po_account_id (order_at (ex_session_orders ex) (tx_order_id_maker t)))
         (po_account_id (order_at (ex_session_orders ex) (tx_order_id_taker t)))
         (uint (tx_volume t) * 2 ^ 31) (uint (tx_volume t) * bits (tx_price t)) k)"
proof -
  obtain ex' where run: "settle_transaction b fx clock pair t ex = Some ex'"
    and exact: "shifted bits (ex_balance_book ex) (ex_balance_book ex')
      (posting fx bits pair (ex_session_orders ex) t)"
    by (rule fixed_price.settle_transaction_exact [where ex = ex and t = t and pair = pair and bits = bits
        and clock = clock and b = b, OF assms(1-5)])
  have "bits (value_primary fx t) = uint (tx_volume t) * 2 ^ 31"
    using fixed_price.bits_from_u32 [OF assms(1)] by (simp add: value_primary_def)
  with exact run fixed_price.value_secondary_exact(2) [OF assms(1,4)] show ?thesis
    unfolding shifted_def posting_def by auto
qed

theorem settlement_is_exact_in_range_witness:
  "\<exists>ex'. settle_transaction Debug (i33f31_ops Debug) demo_clock demo_pair demo_trade demo_traded = Some ex' \<and>
     balance_bits i33f31_bits (ex_balance_book ex') (1, 0) = 3 * 2 ^ 31 \<and>
     balance_bits i33f31_bits (ex_balance_book ex') (1, 1) = - (6 * 2 ^ 31)"
proof -
  let ?fx = "i33f31_ops Debug" and ?bk = "ex_balance_book demo_traded"
  have product: "in_i64 (uint (tx_volume demo_trade) * i33f31_bits (tx_price demo_trade))"
    by (simp add: demo_trade_def price_bits in_i64_def)
  have worth: "i33f31_bits (value_primary ?fx demo_trade) = 3 * 2 ^ 31"
    "i33f31_bits (value_secondary ?fx demo_trade) = 6 * 2 ^ 31"
    using fixed_i33f31.value_secondary_exact(2) [OF product, of Debug]
      fixed_i33f31.bits_from_u32 [of Debug "tx_volume demo_trade"]
    by (simp_all add: demo_trade_def price_bits value_primary_def)
  have accounts: "po_account_id (order_at (ex_session_orders demo_traded) (tx_order_id_maker demo_trade)) = 0"
    "po_account_id (order_at (ex_session_orders demo_traded) (tx_order_id_taker demo_trade)) = 1"
    by (simp_all add: demo_traded_def demo_trade_def demo_exchange_defs order_at_def from_insertion_def)
  have trade: "tx_taker_side demo_trade = Bid" "uint (tx_volume demo_trade) = 3"
    "i33f31_bits (tx_price demo_trade) = 2 * 2 ^ 31"
    by (simp_all add: demo_trade_def price_bits)
  have "posting ?fx i33f31_bits demo_pair (ex_session_orders demo_traded) demo_trade =
      double_entry demo_pair Bid 0 1 (3 * 2 ^ 31) (6 * 2 ^ 31)"
    by (simp only: posting_def accounts worth trade(1) fun_eq_iff simp_thms)
  then have range: "in_i64 (balance_bits i33f31_bits ?bk k +
      posting ?fx i33f31_bits demo_pair (ex_session_orders demo_traded) demo_trade k)" if "k \<in> bb_cells ?bk" for k
    by (simp add: demo_traded_balances [OF that] double_entry_def entry_of_def in_i64_def demo_pair_def)
  from settlement_is_exact_in_range [where b = Debug and clock = demo_clock and t = demo_trade and ex = demo_traded,
      OF fixed_i33f31.fixed_price_axioms demo_clock_runs [rule_format] demo_trade_ready product range]
  obtain ex' where run: "settle_transaction Debug ?fx demo_clock demo_pair demo_trade demo_traded = Some ex'"
    and exact: "\<And>k. k \<in> bb_cells ?bk \<Longrightarrow> balance_bits i33f31_bits (ex_balance_book ex') k =
      double_entry demo_pair Bid 0 1 (3 * 2 ^ 31) (6 * 2 ^ 31) k"
    unfolding accounts trade by (auto simp: demo_traded_balances)
  have cells: "(1, 0) \<in> bb_cells ?bk" "(1, 1) \<in> bb_cells ?bk"
    by (simp_all add: demo_traded_def demo_exchange_def bb_cells_def)
  from run exact [OF cells(1)] exact [OF cells(2)] show ?thesis
    by (auto simp: double_entry_def entry_of_def demo_pair_def)
qed

text \<open>C12: In any build, also one with overflow checks, an insertion whose volume check does not overflow and
  whose trades the balances have room for neither panics nor wraps. It answers what it answers in a
  release build; refused other than as a self-trade, it changes nothing; accepted, it leaves a consistent
  exchange whose balances have moved by exactly the volumes and the volumes times the prices.\<close>

theorem insertion_in_any_build:
  assumes "fixed_price fx bits" and "exchange_ok ex" and "\<forall>n. clock n \<noteq> None"
    and "markets_get (ex_markets ex) (rq_pair req) = Some market"
    and "check_volume b (inserted req ex) (mk_orderbook market) \<noteq> None"
    and "\<And>ts m r. fill (inserted req ex) (rq_volume req)
        (crossing_queue (inserted req ex) (mk_orderbook market)) = Traded ts m r \<Longrightarrow>
      room_for bits ts (ex_balance_book ex)"
  shows "\<exists>ex'. exchange_insert_order b fx clock req ex = Some (insert_verdict req ex, ex') \<and>
    (case insert_verdict req ex of
       Inl err \<Rightarrow> (err \<noteq> SelfTrade \<longrightarrow> ex' = ex)
     | Inr ef \<Rightarrow> exchange_ok ex' \<and>
         (\<exists>ts m r. fill (inserted req ex) (rq_volume req)
              (crossing_queue (inserted req ex) (mk_orderbook market)) = Traded ts m r \<and>
            (\<forall>k \<in> bb_cells (ex_balance_book ex). balance_bits bits (ex_balance_book ex') k =
               balance_bits bits (ex_balance_book ex) k +
               exact_postings bits (rq_pair req) (ex_session_orders ex') ts k)))"
proof (rule fixed_price.insert_in_range [OF assms(1,2,3,4,5)], goal_cases)
  case (1 ts m r)
  then show ?case by (rule assms(6))
next
  case (4 ef ts m r ex')
  then show ?case by (auto simp: shifted_def)
qed simp_all

theorem insertion_in_any_build_witness:
  "\<exists>ex'. exchange_insert_order Debug (i33f31_ops Debug) demo_clock (demo_request 1 3 2) demo_exchange =
     Some (Inr \<lparr>ie_id = 1, ie_status = Filled\<rparr>, ex') \<and> exchange_ok ex'"
proof -
  let ?req = "demo_request 1 3 2"
  have get: "markets_get (ex_markets demo_exchange) (rq_pair ?req) = Some demo_market"
    using demo_market_get by (simp add: demo_request_def)
  have check: "check_volume Debug (inserted ?req demo_exchange) (mk_orderbook demo_market) \<noteq> None"
    by (simp add: check_volume_def demo_request_def)
  have book: "ex_balance_book demo_traded = ex_balance_book demo_exchange" by (simp add: demo_traded_def)
  have room: "room_for i33f31_bits [demo_trade] (ex_balance_book demo_exchange)"
    using demo_traded_balances unfolding book room_for_def by (simp add: demo_trade_def price_bits)
  show ?thesis
    using insertion_in_any_build [OF fixed_i33f31.fixed_price_axioms demo_exchange_ok demo_clock_runs get check]
      room by (auto simp: demo_fill demo_verdict)
qed

section \<open>Reachable exchanges\<close>

text \<open>C4: Every reachable exchange is consistent: each market's book is in price order, uncrossed, without
  empty levels or orders, each order in it is one of the session's, not cancelled, with its account, side,
  pair and price and no more volume than it has left; accounts, assets and balances are those listed; no
  transaction waits.\<close>

theorem reachable_is_consistent:
  assumes "fixed_price fx bits" and "fx_total fx" and "\<forall>n. clock n \<noteq> None" and "0 < alloc 100"
    and "reachable fx clock alloc ex"
  shows "exchange_ok ex"
  by (rule fixed_price.reachable_ok [OF assms(1,5,2,3,4)])

theorem reachable_is_consistent_witness: "exchange_ok (exchange_new id :: i33f31 exchange)"
  by (rule reachable_is_consistent [OF fixed_i33f31.fixed_price_axioms i33f31_Release_total
        demo_clock_runs _ reach_new]) simp



section \<open>Cancelling and modifying\<close>

text \<open>C20: A cancellation is answered by the order's state: unknown, another account's, cancelled before,
  filled, or accepted. A refusal changes nothing. After an accepted one the order is Cancelled, the other
  orders are as before, no book holds it, and cancelling it again answers that it already is.\<close>

theorem cancellation_answers:
  assumes "exchange_ok ex"
  shows "fst (exchange_cancel_order req ex) = cancel_verdict req ex \<and>
    (case exchange_cancel_order req ex of
       (Inl err, ex') \<Rightarrow> ex' = ex
     | (Inr _, ex') \<Rightarrow> exchange_ok ex' \<and>
         (\<forall>i < length (ex_session_orders ex). order_at (ex_session_orders ex') i =
            (if i = cr_order_id req then (order_at (ex_session_orders ex) i)\<lparr>po_status := Cancelled\<rparr>
             else order_at (ex_session_orders ex) i)) \<and>
         (\<forall>pair market. markets_get (ex_markets ex') pair = Some market \<longrightarrow>
            cr_order_id req \<notin> set (book_ids (mk_orderbook market))) \<and>
         cancel_verdict req ex' = Inl AlreadyCancelled)"
proof (cases rule: exchange_cancel_cases [OF assms, of req, case_names rejected cancelled])
  case (cancelled order market ls)
  let ?ex = "snd (exchange_cancel_order req ex)"
  have ok: "exchange_ok ?ex" by (rule exchange_cancel_ok [OF assms])
  have at: "order_at (ex_session_orders ?ex) i = (if i = cr_order_id req then order\<lparr>po_status := Cancelled\<rparr>
      else order_at (ex_session_orders ex) i)" for i
    by (simp add: cancelled(9) order_at_write [OF cancelled(1)])
  have "po_account_id order = cr_account_id req"
    using cancelled(2,3) by (auto simp: cancel_verdict_def Let_def split: if_splits)
  moreover have "length (ex_session_orders ?ex) = length (ex_session_orders ex)" by (simp add: cancelled(9))
  ultimately have "cancel_verdict req ?ex = Inl AlreadyCancelled"
    using at [of "cr_order_id req"] cancelled(1) by (simp add: cancel_verdict_def Let_def)
  moreover have "po_status (order_at (ex_session_orders ?ex) (cr_order_id req)) = Cancelled"
    using at [of "cr_order_id req"] by simp
  from cancelled_not_in_book [OF ok this] have "markets_get (ex_markets ?ex) pair = Some market' \<Longrightarrow>
      cr_order_id req \<notin> set (book_ids (mk_orderbook market'))" for pair market' .
  ultimately show ?thesis using ok at cancelled(2,3,9) by (cases "exchange_cancel_order req ex") auto
qed simp

theorem cancellation_answers_witness:
  "\<exists>ex'. exchange_cancel_order \<lparr>cr_account_id = 0, cr_order_id = 0\<rparr> demo_exchange = (Inr (), ex') \<and>
     exchange_ok ex' \<and> po_status (order_at (ex_session_orders ex') 0) = Cancelled"
proof -
  let ?req = "\<lparr>cr_account_id = 0, cr_order_id = 0\<rparr>"
  have verdict: "cancel_verdict ?req demo_exchange = Inr ()"
    by (simp add: cancel_verdict_def demo_exchange_defs order_at_def markets_get_def resting_def flat_def Let_def)
  have "0 < length (ex_session_orders demo_exchange)" by (simp add: demo_exchange_def)
  with cancellation_answers [OF demo_exchange_ok, of ?req] verdict show ?thesis
    by (cases "exchange_cancel_order ?req demo_exchange") auto
qed



text \<open>C22: A modification is answered by the order's state and its volume. A refusal changes nothing. An
  accepted one takes the difference of the volumes off the order's entry in its book, or removes the entry,
  and keeps all others with their positions; only that order changes, and the exchange stays consistent.\<close>

theorem modification_answers:
  assumes "exchange_ok ex"
  shows "\<exists>ex'. exchange_modify_order Release req ex = Some (modify_verdict req ex, ex') \<and> exchange_ok ex' \<and>
    (case modify_verdict req ex of
       Inl err \<Rightarrow> ex' = ex
     | Inr _ \<Rightarrow>
         (let i = mr_order_id req; order = order_at (ex_session_orders ex) i; s = po_side order in
          \<exists>market ls. markets_get (ex_markets ex) (po_pair order) = Some market \<and>
            flat ls = map (\<lambda>x. (fst x, reduce_entry (reduction req order) (snd x)))
              (filter (\<lambda>x. survives (reduction req order) (snd x)) (flat (book_side s (mk_orderbook market)))) \<and>
            ex_markets ex' = markets_store (po_pair order)
              (market\<lparr>mk_orderbook := set_book_side s ls (mk_orderbook market)\<rparr>) (ex_markets ex) \<and>
            (\<forall>j. j \<noteq> i \<longrightarrow> order_at (ex_session_orders ex') j = order_at (ex_session_orders ex) j) \<and>
            order_at (ex_session_orders ex') i =
              (let filled = po_volume order - po_remaining_volume order in
               if mr_new_volume req < filled then order\<lparr>po_volume := filled, po_status := Filled\<rparr>
               else order\<lparr>po_volume := mr_new_volume req\<rparr>) \<and>
            ex_balance_book ex' = ex_balance_book ex))"
proof (cases rule: exchange_modify_cases [OF assms, of req Release, case_names rejected modified])
  case (rejected err)
  then show ?thesis using assms by simp
next
  case (modified order market ls)
  define order' where "order' =
    (let filled = po_volume order - po_remaining_volume order in
     if mr_new_volume req < filled then order\<lparr>po_volume := filled, po_status := Filled\<rparr>
     else order\<lparr>po_volume := mr_new_volume req\<rparr>)"
  have order': "modified_order Release (mr_new_volume req) order = Some order'"
    by (simp add: modified_order_def order'_def u32_sub_def Let_def)
  obtain ex' where run: "exchange_modify_order Release req ex = Some (Inr (), ex')" and ok: "exchange_ok ex'"
    using exchange_modify_ok [OF assms, of req] modified(9) order' by auto
  with modified(9) order' have ex': "ex' = ex\<lparr>ex_markets := markets_store (po_pair order)
      (market\<lparr>mk_orderbook := set_book_side (po_side order) ls (mk_orderbook market)\<rparr>) (ex_markets ex),
    ex_session_orders := write_order (mr_order_id req) order' (ex_session_orders ex)\<rparr>" by simp
  show ?thesis
    using run ok modified(3) modified(4,5)
    by (intro exI [of _ ex'] conjI)
      (auto simp: ex' order'_def Let_def order_at_write [OF modified(1)] simp flip: modified(2) intro!: exI [of _ ls])
qed

theorem modification_answers_witness:
  "\<exists>ex'. exchange_modify_order Release \<lparr>mr_account_id = 0, mr_order_id = 0, mr_new_volume = 3\<rparr> demo_exchange =
     Some (Inr (), ex') \<and> exchange_ok ex' \<and> po_volume (order_at (ex_session_orders ex') 0) = 3"
proof -
  let ?req = "\<lparr>mr_account_id = 0, mr_order_id = 0, mr_new_volume = 3\<rparr>"
  have verdict: "modify_verdict ?req demo_exchange = Inr ()"
    by (simp add: modify_verdict_def demo_exchange_defs order_at_def markets_get_def resting_def flat_def Let_def)
  have "order_at (ex_session_orders demo_exchange) 0 = demo_ask"
    by (simp add: order_at_def demo_exchange_def)
  with modification_answers [OF demo_exchange_ok, of ?req] verdict show ?thesis
    by (auto simp: Let_def demo_ask_def)
qed

section \<open>What goes wrong\<close>






text \<open>C23: Modifying does not lower the volume an order has left, so a second modification of an order that
  has traded nothing takes the first reduction for a fill: a build with overflow checks panics on it, and
  one without marks the order Filled although its book may still offer it.\<close>

theorem second_modification_misfires:
  assumes "exchange_ok ex" and "mr_order_id req' = mr_order_id req"
    and "order_at (ex_session_orders ex) (mr_order_id req) = order"
    and "po_remaining_volume order = po_volume order" and "mr_new_volume req < po_volume order"
    and "exchange_modify_order Release req ex = Some (Inr (), ex1)" and "modify_verdict req' ex1 = Inr ()"
  shows "exchange_modify_order Debug req' ex1 = None \<and>
    (\<exists>ex2. exchange_modify_order Release req' ex1 = Some (Inr (), ex2) \<and>
       po_status (order_at (ex_session_orders ex2) (mr_order_id req)) = Filled)"
proof -
  let ?i = "mr_order_id req" and ?order1 = "order\<lparr>po_volume := mr_new_volume req\<rparr>"
  have ok: "exchange_ok ex1" using exchange_modify_ok [OF assms(1), of req] assms(6) by auto
  have order1: "order_at (ex_session_orders ex1) ?i = ?order1"
  proof (cases rule: exchange_modify_cases [OF assms(1), of req Release, case_names rejected modified])
    case (modified order0 market ls)
    have "modified_order Release (mr_new_volume req) order = Some ?order1"
      by (simp add: modified_order_def assms(4) u32_sub_def)
    with modified assms(3,6) show ?thesis by (auto simp: order_at_write)
  qed (use assms(6) in simp)
  have less: "mr_new_volume req < po_remaining_volume order" using assms(4,5) by simp
  have "\<not> mr_new_volume req < mr_new_volume req'"
    using assms(2,7) order1 by (auto simp: modify_verdict_def Let_def split: if_splits)
  then have wraps: "mr_new_volume req' < mr_new_volume req - po_remaining_volume order"
    using less unat_u32_lt [of "po_remaining_volume order"]
    by (simp add: word_less_nat_alt word_le_nat_alt unat_sub_if' word_size not_less)
  have "modified_order Debug (mr_new_volume req') ?order1 = None"
    "modified_order Release (mr_new_volume req') ?order1 =
      Some (?order1\<lparr>po_volume := mr_new_volume req - po_remaining_volume order, po_status := Filled\<rparr>)"
    using less wraps by (simp_all add: modified_order_def u32_sub_def)
  note after = this
  show ?thesis
  proof
    show "exchange_modify_order Debug req' ex1 = None"
      by (cases rule: exchange_modify_cases [OF ok, of req' Debug])
        (use after(1) order1 assms(2,7) in simp_all)
    show "\<exists>ex2. exchange_modify_order Release req' ex1 = Some (Inr (), ex2) \<and>
        po_status (order_at (ex_session_orders ex2) ?i) = Filled"
      by (cases rule: exchange_modify_cases [OF ok, of req' Release])
        (use after(2) order1 assms(2,7) in \<open>auto simp: order_at_write\<close>)
  qed
qed

theorem second_modification_misfires_witness:
  "exchange_modify_order Debug (demo_modification_request 2) demo_modified = None \<and>
   exchange_modify_order Release (demo_modification_request 2) demo_modified = Some (Inr (), demo_modified_twice) \<and>
   po_status (order_at (ex_session_orders demo_modified_twice) 0) = Filled \<and>
   map (\<lambda>m. asks (mk_orderbook m)) (ms_inner (ex_markets demo_modified_twice)) = [[(price 2, [entry 0 0 2])]]"
proof -
  let ?req = "demo_modification_request 3" and ?req' = "demo_modification_request 2"
  have "modify_verdict ?req' demo_modified = Inr ()"
    by (simp add: modify_verdict_def demo_modified_def demo_modification_request_def demo_exchange_defs
        order_at_def markets_get_def resting_def flat_def Let_def)
  with second_modification_misfires [OF demo_exchange_ok _ _ _ _ demo_modifies, of ?req' demo_ask]
    demo_modifies_twice
  show ?thesis
    by (simp add: demo_modification_request_def demo_exchange_def order_at_def demo_ask_def demo_modified_twice_def)
qed

end
